(* ===== verification/VM_Prelude.thy ===== *)
theory VM_Prelude
  imports Main "HOL-Library.Word"
begin

text \<open>
  Shared vocabulary of the development: the machine integers of \<^verbatim>\<open>include/vm/types.hpp\<close>, the
  exceptions that the C++ code throws, the state-and-exception monad in which every operation
  that mutates an object is written, decimal output (\<^verbatim>\<open>std::to_string\<close>), and the generic facts
  about words and lists that several components use.
\<close>

unbundle bit_operations_syntax

section \<open>Machine integers\<close>

type_synonym u8 = "8 word"
type_synonym u16 = "16 word"
type_synonym u32 = "32 word"
type_synonym u64 = "64 word"

text \<open>\<^verbatim>\<open>Word\<close>, \<^verbatim>\<open>Address\<close>, \<^verbatim>\<open>ProcessId\<close> are \<^verbatim>\<open>std::uint32_t\<close>; \<^verbatim>\<open>std::size_t\<close> has 64 bits.\<close>

type_synonym Word = u32
type_synonym Address = u32
type_synonym ProcessId = u32
type_synonym size_t = u64

section \<open>Collections of facts\<close>

named_theorems vm_run \<open>unfolding of the state-and-exception monad\<close>
named_theorems mem_simps \<open>what the memory operations return when the access is in range\<close>
named_theorems frame_simps \<open>fields an operation leaves alone\<close>
named_theorems handler_defs \<open>definitions of the instruction handlers\<close>
named_theorems sched_defs \<open>definitions of the scheduler operations\<close>

section \<open>Exceptions\<close>

datatype vm_exception =
    VmException string
  | AssemblerError nat string
  | StdInvalidArgument string
  | StdOutOfRange string

section \<open>State with exceptions\<close>

text \<open>
  A C++ member function that mutates its object and may throw is a function from the state to
  a result together with the state at the moment of the return or of the throw: side effects
  that happened before a throw are kept, as in the program.
\<close>

type_synonym ('s, 'a) vm = "'s \<Rightarrow> (vm_exception + 'a) \<times> 's"

definition vreturn :: "'a \<Rightarrow> ('s, 'a) vm" where
  "vreturn a = (\<lambda>s. (Inr a, s))"

definition vthrow :: "vm_exception \<Rightarrow> ('s, 'a) vm" where
  "vthrow e = (\<lambda>s. (Inl e, s))"

definition vbind :: "('s, 'a) vm \<Rightarrow> ('a \<Rightarrow> ('s, 'b) vm) \<Rightarrow> ('s, 'b) vm" where
  "vbind m f = (\<lambda>s. case m s of (Inl e, s') \<Rightarrow> (Inl e, s') | (Inr a, s') \<Rightarrow> f a s')"

definition vseq :: "('s, unit) vm \<Rightarrow> ('s, 'b) vm \<Rightarrow> ('s, 'b) vm" where
  "vseq m k = vbind m (\<lambda>_. k)"

definition vgets :: "('s \<Rightarrow> 'a) \<Rightarrow> ('s, 'a) vm" where
  "vgets f = (\<lambda>s. (Inr (f s), s))"

definition vmodify :: "('s \<Rightarrow> 's) \<Rightarrow> ('s, unit) vm" where
  "vmodify f = (\<lambda>s. (Inr (), f s))"

text \<open>A computation that reads the state and may throw, but does not change it.\<close>

definition vread :: "('s \<Rightarrow> vm_exception + 'a) \<Rightarrow> ('s, 'a) vm" where
  "vread f = (\<lambda>s. (f s, s))"

text \<open>A computation that may throw before it changes the state.\<close>

definition vupdate :: "('s \<Rightarrow> vm_exception + 's) \<Rightarrow> ('s, unit) vm" where
  "vupdate f = (\<lambda>s. case f s of Inl e \<Rightarrow> (Inl e, s) | Inr s' \<Rightarrow> (Inr (), s'))"

text \<open>\<^verbatim>\<open>try { m } catch (const VmException& ex) { h }\<close>: other exceptions pass through.\<close>

definition vcatch :: "('s, 'a) vm \<Rightarrow> (string \<Rightarrow> ('s, 'a) vm) \<Rightarrow> ('s, 'a) vm" where
  "vcatch m h = (\<lambda>s. case m s of (Inl (VmException msg), s') \<Rightarrow> h msg s' | r \<Rightarrow> r)"

lemmas vm_monad_defs =
  vreturn_def vthrow_def vbind_def vseq_def vgets_def vmodify_def vread_def vupdate_def vcatch_def

declare vm_monad_defs [vm_run]

lemma vbind_return [simp]: "vbind (vreturn a) f = f a"
  by (simp add: vbind_def vreturn_def)

lemma vbind_throw [simp]: "vbind (vthrow e) f = vthrow e"
  by (simp add: vbind_def vthrow_def)

lemma vbind_return_right [simp]: "vbind m vreturn = m"
  by (rule ext) (simp add: vbind_def vreturn_def split: prod.split sum.split)

lemma vbind_assoc: "vbind (vbind m f) g = vbind m (\<lambda>x. vbind (f x) g)"
  by (rule ext) (simp add: vbind_def split: prod.split sum.split)

lemma vbind_Inr:
  "vbind m f s = (Inr b, s'') \<longleftrightarrow> (\<exists>a s'. m s = (Inr a, s') \<and> f a s' = (Inr b, s''))"
  by (auto simp: vbind_def split: prod.splits sum.splits)

text \<open>
  What a computation may do to the state, whether it returns or throws, as a relation between
  the state before and after. The rules of a reflexive and transitive relation follow the
  structure of the computation, so that a frame is proved part by part.
\<close>

definition respecting :: "('s \<Rightarrow> 's \<Rightarrow> bool) \<Rightarrow> ('s, 'a) vm \<Rightarrow> bool" where
  "respecting R m \<longleftrightarrow> (\<forall>s. R s (snd (m s)))"

lemma respectsI: "(\<And>s. R s (snd (m s))) \<Longrightarrow> respecting R m"
  by (simp add: respecting_def)

lemma respectsD: "respecting R m \<Longrightarrow> m s = (r, s') \<Longrightarrow> R s s'"
  by (metis respecting_def snd_conv)

lemma respects_modify: "(\<And>s. R s (f s)) \<Longrightarrow> respecting R (vmodify f)"
  by (simp add: respecting_def vmodify_def)

lemma respects_if: "respecting R m \<Longrightarrow> respecting R k \<Longrightarrow> respecting R (if b then m else k)"
  by simp

locale frame_relation =
  fixes R :: "'s \<Rightarrow> 's \<Rightarrow> bool"
  assumes frame_refl: "R s s"
    and frame_trans: "R s s' \<Longrightarrow> R s' s'' \<Longrightarrow> R s s''"
begin

lemma respects_return: "respecting R (vreturn a)"
  by (simp add: respecting_def vreturn_def frame_refl)

lemma respects_throw: "respecting R (vthrow e)"
  by (simp add: respecting_def vthrow_def frame_refl)

lemma respects_gets: "respecting R (vgets f)"
  by (simp add: respecting_def vgets_def frame_refl)

lemma respects_read: "respecting R (vread f)"
  by (simp add: respecting_def vread_def frame_refl)

lemma respects_update: "(\<And>s s'. f s = Inr s' \<Longrightarrow> R s s') \<Longrightarrow> respecting R (vupdate f)"
  by (auto simp: respecting_def vupdate_def frame_refl split: sum.split)

lemma respects_bind:
  assumes "respecting R m" and "\<And>a. respecting R (f a)"
  shows "respecting R (vbind m f)"
proof (rule respectsI)
  fix s
  obtain r s' where m: "m s = (r, s')" by (cases "m s")
  with assms(1) have R: "R s s'" by (rule respectsD)
  show "R s (snd (vbind m f s))"
  proof (cases r)
    case (Inl e)
    with m R show ?thesis by (simp add: vbind_def)
  next
    case (Inr a)
    from assms(2) [of a] have "R s' (snd (f a s'))" by (simp add: respecting_def)
    with m R Inr show ?thesis by (auto simp: vbind_def intro: frame_trans)
  qed
qed

lemma respects_seq: "respecting R m \<Longrightarrow> respecting R k \<Longrightarrow> respecting R (vseq m k)"
  by (auto simp: vseq_def intro: respects_bind)

lemma respects_catch:
  assumes "respecting R m" and "\<And>msg. respecting R (h msg)"
  shows "respecting R (vcatch m h)"
proof (rule respectsI)
  fix s
  obtain r s' where m: "m s = (r, s')" by (cases "m s")
  with assms(1) have R: "R s s'" by (rule respectsD)
  have "R s' (snd (h msg s'))" for msg
    using assms(2) by (simp add: respecting_def)
  with m R show "R s (snd (vcatch m h s))"
    by (auto simp: vcatch_def intro: frame_trans split: sum.split vm_exception.split)
qed

lemmas respects_intros =
  respects_return respects_throw respects_gets respects_read respects_bind respects_seq respects_catch
  respects_if

end

section \<open>Decimal output\<close>

text \<open>\<^verbatim>\<open>std::to_string\<close> and \<^verbatim>\<open>operator<<\<close> of an unsigned integer.\<close>

definition digit_char :: "nat \<Rightarrow> char" where
  "digit_char d = char_of (48 + d)"

fun show_nat :: "nat \<Rightarrow> string" where
  "show_nat n = (if n < 10 then [digit_char n] else show_nat (n div 10) @ [digit_char (n mod 10)])"

declare show_nat.simps [simp del]

definition show_word :: "'a::len word \<Rightarrow> string" where
  "show_word w = show_nat (unat w)"

text \<open>The number a string of decimal digits denotes, most significant digit first.\<close>

definition digit_val :: "char \<Rightarrow> nat" where
  "digit_val c = of_char c - 48"

definition is_digit :: "char \<Rightarrow> bool" where
  "is_digit c \<longleftrightarrow> 48 \<le> (of_char c :: nat) \<and> (of_char c :: nat) \<le> 57"

definition digits_val :: "string \<Rightarrow> nat" where
  "digits_val s = foldl (\<lambda>n c. 10 * n + digit_val c) 0 s"

lemma digits_val_snoc [simp]: "digits_val (s @ [c]) = 10 * digits_val s + digit_val c"
  by (simp add: digits_val_def)

lemma digit_val_char [simp]: "d < 10 \<Longrightarrow> digit_val (digit_char d) = d"
  by (simp add: digit_val_def digit_char_def)

lemma is_digit_char [simp]: "d < 10 \<Longrightarrow> is_digit (digit_char d)"
  by (simp add: is_digit_def digit_char_def)

lemma show_nat_not_Nil [simp]: "show_nat n \<noteq> []"
  by (subst show_nat.simps) simp

lemma digits_val_show_nat [simp]: "digits_val (show_nat n) = n"
proof (induction n rule: show_nat.induct)
  case (1 n)
  then show ?case
    by (cases "n < 10") (simp_all add: show_nat.simps [of n], simp add: digits_val_def)
qed

lemma show_nat_digits: "list_all is_digit (show_nat n)"
proof (induction n rule: show_nat.induct)
  case (1 n)
  then show ?case
    by (cases "n < 10") (simp_all add: show_nat.simps [of n])
qed

lemma show_nat_inject: "show_nat m = show_nat n \<Longrightarrow> m = n"
  by (metis digits_val_show_nat)

section \<open>Words and lists\<close>

lemma unat_u32_lt [simp]: "unat (a :: u32) < 4294967296"
  using unsigned_less [of a, where ?'a = nat] by simp

lemma unat_u8_lt [simp]: "unat (a :: u8) < 256"
  using unsigned_less [of a, where ?'a = nat] by simp

lemma unat_ucast_u32_u64 [simp]: "unat (ucast (a :: u32) :: u64) = unat a"
proof -
  have "unat a < 2 ^ 64"
    by (rule less_trans [OF unat_u32_lt]) simp
  then show ?thesis
    by (simp add: unsigned_ucast_eq take_bit_nat_eq_self)
qed

lemma unat_add_u32: "unat a + unat b < 4294967296 \<Longrightarrow> unat (a + b :: u32) = unat a + unat b"
  by (simp add: unat_add_lem [THEN iffD1])

lemma unat_add_u64: "unat a + unat b < 18446744073709551616 \<Longrightarrow> unat (a + b :: u64) = unat a + unat b"
  by (simp add: unat_add_lem [THEN iffD1])

lemma unat_sub_le: "b \<le> a \<Longrightarrow> unat (a - b :: 'a::len word) = unat a - unat b"
  by (rule unat_sub)

lemma unat_ucast_u64_u32: "unat (w :: u64) < 4294967296 \<Longrightarrow> unat (ucast w :: u32) = unat w"
  by (simp add: unsigned_ucast_eq take_bit_nat_eq_self)

text \<open>Run a computation on the first component of a pair.\<close>

definition on_fst :: "('s, 'a) vm \<Rightarrow> ('s \<times> 't, 'a) vm" where
  "on_fst m = (\<lambda>(s, t). case m s of (r, s') \<Rightarrow> (r, (s', t)))"

lemma on_fst_eq [vm_run]: "on_fst m (s, t) = (fst (m s), (snd (m s), t))"
  by (simp add: on_fst_def split: prod.split)

lemma list_all_update: "list_all P xs \<Longrightarrow> P x \<Longrightarrow> list_all P (xs[i := x])"
  using set_update_subset_insert [of xs i x] by (auto simp: list_all_iff)

lemma list_all_nth: "list_all P xs \<Longrightarrow> i < length xs \<Longrightarrow> P (xs ! i)"
  by (simp add: list_all_length)

end
