(* ===== verification/VM_Types.thy ===== *)
theory VM_Types
  imports VM_Prelude
begin

text \<open>
  \<^verbatim>\<open>include/vm/types.hpp\<close> and \<^verbatim>\<open>src/vm/types.cpp\<close>: constants, opcodes, system call numbers,
  the decoded instruction, the 32-bit instruction encoding and the names of the registers.
  The lemmas show that encoding and decoding are inverse to each other up to the twelve bits
  that the format keeps of an immediate.
\<close>

section \<open>Constants\<close>

definition kRegisterCount :: nat where
  "kRegisterCount = 16"

definition kDefaultProcessMemorySize :: size_t where
  "kDefaultProcessMemorySize = 64 * 1024"

definition kDefaultPhysicalMemorySize :: size_t where
  "kDefaultPhysicalMemorySize = 1024 * 1024"

definition kDefaultTimeSlice :: size_t where
  "kDefaultTimeSlice = 100"

definition kDefaultCoreCount :: size_t where
  "kDefaultCoreCount = 4"

definition kStackSize :: size_t where
  "kStackSize = 4096"

definition kImmediateMarker :: u8 where
  "kImmediateMarker = 0x0F"

definition sizeof_Word :: size_t where
  "sizeof_Word = 4"

lemmas vm_constants [simp] =
  kRegisterCount_def kDefaultProcessMemorySize_def kDefaultPhysicalMemorySize_def
  kDefaultTimeSlice_def kDefaultCoreCount_def kStackSize_def kImmediateMarker_def
  sizeof_Word_def

section \<open>Opcodes and system calls\<close>

text \<open>
  \<^verbatim>\<open>enum class Opcode : std::uint8_t\<close>. A \<^verbatim>\<open>static_cast\<close> of a byte without an enumerator is a
  legal value of the enumeration; it is \<open>OP_unnamed\<close>.
\<close>

datatype opcode =
    OP_MOV | OP_ADD | OP_SUB | OP_MUL | OP_DIV | OP_MOD | OP_INC | OP_DEC
  | OP_AND | OP_OR | OP_XOR | OP_NOT | OP_CMP
  | OP_JMP | OP_JE | OP_JNE | OP_JG | OP_JGE | OP_JL | OP_JLE
  | OP_LOAD | OP_STORE | OP_CALL | OP_HALT | OP_NOP | OP_PUSH | OP_POP | OP_RET
  | OP_unnamed u8

fun opcode_byte :: "opcode \<Rightarrow> u8" where
  "opcode_byte OP_MOV = 0"
| "opcode_byte OP_ADD = 1"
| "opcode_byte OP_SUB = 2"
| "opcode_byte OP_MUL = 3"
| "opcode_byte OP_DIV = 4"
| "opcode_byte OP_MOD = 5"
| "opcode_byte OP_INC = 6"
| "opcode_byte OP_DEC = 7"
| "opcode_byte OP_AND = 8"
| "opcode_byte OP_OR = 9"
| "opcode_byte OP_XOR = 10"
| "opcode_byte OP_NOT = 11"
| "opcode_byte OP_CMP = 12"
| "opcode_byte OP_JMP = 13"
| "opcode_byte OP_JE = 14"
| "opcode_byte OP_JNE = 15"
| "opcode_byte OP_JG = 16"
| "opcode_byte OP_JGE = 17"
| "opcode_byte OP_JL = 18"
| "opcode_byte OP_JLE = 19"
| "opcode_byte OP_LOAD = 20"
| "opcode_byte OP_STORE = 21"
| "opcode_byte OP_CALL = 22"
| "opcode_byte OP_HALT = 23"
| "opcode_byte OP_NOP = 24"
| "opcode_byte OP_PUSH = 25"
| "opcode_byte OP_POP = 26"
| "opcode_byte OP_RET = 27"
| "opcode_byte (OP_unnamed b) = b"

definition named_opcodes :: "opcode list" where
  "named_opcodes =
    [OP_MOV, OP_ADD, OP_SUB, OP_MUL, OP_DIV, OP_MOD, OP_INC, OP_DEC,
     OP_AND, OP_OR, OP_XOR, OP_NOT, OP_CMP,
     OP_JMP, OP_JE, OP_JNE, OP_JG, OP_JGE, OP_JL, OP_JLE,
     OP_LOAD, OP_STORE, OP_CALL, OP_HALT, OP_NOP, OP_PUSH, OP_POP, OP_RET]"

text \<open>\<^verbatim>\<open>static_cast<Opcode>(byte)\<close>.\<close>

definition opcode_of_byte :: "u8 \<Rightarrow> opcode" where
  "opcode_of_byte b =
    (if unat b < length named_opcodes then named_opcodes ! unat b else OP_unnamed b)"

fun is_named :: "opcode \<Rightarrow> bool" where
  "is_named (OP_unnamed b) = False"
| "is_named _ = True"

text \<open>\<^verbatim>\<open>enum class SyscallId : std::uint16_t\<close>.\<close>

datatype syscall_id = SYS_Print | SYS_Scan | SYS_Exit | SYS_Yield | SYS_Load | SYS_unnamed u16

fun syscall_number :: "syscall_id \<Rightarrow> u16" where
  "syscall_number SYS_Print = 0"
| "syscall_number SYS_Scan = 1"
| "syscall_number SYS_Exit = 2"
| "syscall_number SYS_Yield = 3"
| "syscall_number SYS_Load = 4"
| "syscall_number (SYS_unnamed n) = n"

definition syscall_of_number :: "u16 \<Rightarrow> syscall_id" where
  "syscall_of_number n =
    (if n = 0 then SYS_Print else if n = 1 then SYS_Scan else if n = 2 then SYS_Exit
     else if n = 3 then SYS_Yield else if n = 4 then SYS_Load else SYS_unnamed n)"

section \<open>Processor flags\<close>

record cpu_flags =
  fl_zero :: bool
  fl_sign :: bool
  fl_carry :: bool
  fl_overflow :: bool

definition clear_flags :: cpu_flags where
  "clear_flags = \<lparr>fl_zero = False, fl_sign = False, fl_carry = False, fl_overflow = False\<rparr>"

section \<open>Instruction words\<close>

text \<open>\<^verbatim>\<open>struct DecodedInstruction\<close>; \<^verbatim>\<open>imm\<close> is an \<^verbatim>\<open>int16_t\<close>, read with \<open>sint\<close>.\<close>

record decoded_instruction =
  d_opcode :: opcode
  d_rd :: u8
  d_rs1 :: u8
  d_rs2 :: u8
  d_imm :: u16
  d_raw :: Word

definition encodeInstruction :: "opcode \<Rightarrow> u8 \<Rightarrow> u8 \<Rightarrow> u8 \<Rightarrow> u16 \<Rightarrow> Word" where
  "encodeInstruction opcode rd rs1 rs2 imm =
    (let imm12 = (scast imm :: Word) AND 0x0FFF
     in push_bit 24 (ucast (opcode_byte opcode)) OR
        push_bit 20 (ucast (rd AND 0x0F)) OR
        push_bit 16 (ucast (rs1 AND 0x0F)) OR
        push_bit 12 (ucast (rs2 AND 0x0F)) OR
        imm12)"

definition decodeInstruction :: "Word \<Rightarrow> decoded_instruction" where
  "decodeInstruction raw =
    (let imm12 = raw AND 0x0FFF;
         imm12' = (if imm12 AND 0x800 \<noteq> 0 then imm12 OR NOT 0x0FFF else imm12)
     in \<lparr>d_opcode = opcode_of_byte (ucast (drop_bit 24 raw AND 0xFF)),
         d_rd = ucast (drop_bit 20 raw AND 0x0F),
         d_rs1 = ucast (drop_bit 16 raw AND 0x0F),
         d_rs2 = ucast (drop_bit 12 raw AND 0x0F),
         d_imm = ucast imm12',
         d_raw = raw\<rparr>)"

section \<open>Register names\<close>

definition is_space :: "char \<Rightarrow> bool" where
  "is_space c \<longleftrightarrow> c = CHR '' '' \<or> (9 \<le> (of_char c :: nat) \<and> (of_char c :: nat) \<le> 13)"

text \<open>
  The number at the front of a string as \<^verbatim>\<open>strtol\<close> in base ten reads it: white space, a sign,
  and the longest run of digits; nothing when there is no digit.
\<close>

definition strtol_value :: "string \<Rightarrow> int option" where
  "strtol_value s =
    (let s1 = dropWhile is_space s;
         negative = (s1 \<noteq> [] \<and> hd s1 = CHR ''-'');
         s2 = (if s1 \<noteq> [] \<and> (hd s1 = CHR ''-'' \<or> hd s1 = CHR ''+'') then tl s1 else s1);
         ds = takeWhile is_digit s2
     in if ds = [] then None
        else Some (if negative then - int (digits_val ds) else int (digits_val ds)))"

definition std_stoi :: "string \<Rightarrow> vm_exception + int" where
  "std_stoi s =
    (case strtol_value s of
       None \<Rightarrow> Inl (StdInvalidArgument ''stoi'')
     | Some v \<Rightarrow> if v < - (2 ^ 31) \<or> 2 ^ 31 \<le> v then Inl (StdOutOfRange ''stoi'') else Inr v)"

definition std_stol :: "string \<Rightarrow> vm_exception + int" where
  "std_stol s =
    (case strtol_value s of
       None \<Rightarrow> Inl (StdInvalidArgument ''stol'')
     | Some v \<Rightarrow> if v < - (2 ^ 63) \<or> 2 ^ 63 \<le> v then Inl (StdOutOfRange ''stol'') else Inr v)"

definition registerIndexFromName :: "string \<Rightarrow> vm_exception + u8" where
  "registerIndexFromName name =
    (if length name < 2 \<or> hd name \<noteq> CHR ''r''
     then Inl (AssemblerError 0 (''invalid register name: '' @ name))
     else case std_stoi (tl name) of
            Inl e \<Rightarrow> Inl e
          | Inr index \<Rightarrow>
              if index < 0 \<or> int kRegisterCount \<le> index
              then Inl (AssemblerError 0 (''register out of range: '' @ name))
              else Inr (word_of_int index))"

definition registerNameFromIndex :: "u8 \<Rightarrow> string" where
  "registerNameFromIndex index = ''r'' @ show_word index"

section \<open>Encoding and decoding\<close>

lemma opcode_byte_of_byte [simp]: "opcode_byte (opcode_of_byte b) = b"
proof (cases "unat b < 28")
  case True
  then have "\<exists>n \<in> set [0..<28]. b = word_of_nat n"
    by (intro bexI [of _ "unat b"]) simp_all
  then show ?thesis
    by (auto simp: opcode_of_byte_def named_opcodes_def upt_rec)
next
  case False
  then show ?thesis by (simp add: opcode_of_byte_def named_opcodes_def)
qed

lemma opcode_of_byte_byte: "is_named op \<Longrightarrow> opcode_of_byte (opcode_byte op) = op"
  by (cases op) (simp_all add: opcode_of_byte_def named_opcodes_def)

lemma syscall_of_number_number:
  "(\<forall>n. sc \<noteq> SYS_unnamed n) \<Longrightarrow> syscall_of_number (syscall_number sc) = sc"
  by (cases sc) (simp_all add: syscall_of_number_def)

text \<open>The masks of the source as bit masks, for reasoning bit by bit.\<close>

lemma field_masks:
  "(0x0F :: u8) = mask 4" "(0x0F :: u32) = mask 4" "(0xFF :: u32) = mask 8"
  "(0x0FFF :: u32) = mask 12"
  by (simp_all add: mask_eq_exp_minus_1)

lemma decode_sign_extension:
  fixes w :: Word
  shows "(ucast (if (w AND 0x0FFF) AND 0x800 \<noteq> 0 then (w AND 0x0FFF) OR NOT 0x0FFF else w AND 0x0FFF)
    :: u16) = signed_take_bit 11 (ucast w)"
proof -
  have "(0x800 :: Word) = push_bit 11 1" by simp
  then have bit11: "(w AND 0x0FFF) AND 0x800 \<noteq> 0 \<longleftrightarrow> bit (w AND 0x0FFF) 11"
    by (simp only: flip: bit_iff_and_push_bit_not_eq_0)
  show ?thesis
    unfolding bit11 unfolding field_masks
  proof (rule bit_word_eqI)
    fix n
    assume "n < LENGTH(16)"
    consider "n < 11" | "n = 11" | "12 \<le> n" by linarith
    then show "bit (ucast (if bit (w AND mask 12) 11 then w AND mask 12 OR NOT (mask 12)
        else w AND mask 12) :: u16) n = bit (signed_take_bit 11 (ucast w) :: u16) n"
      using \<open>n < LENGTH(16)\<close> by cases (simp_all add: bit_simps min_def)
  qed
qed

lemma encode_fields:
  "ucast (drop_bit 24 (encodeInstruction op rd rs1 rs2 imm) AND 0xFF) = opcode_byte op"
  "(ucast (drop_bit 20 (encodeInstruction op rd rs1 rs2 imm) AND 0x0F) :: u8) = rd AND 0x0F"
  "(ucast (drop_bit 16 (encodeInstruction op rd rs1 rs2 imm) AND 0x0F) :: u8) = rs1 AND 0x0F"
  "(ucast (drop_bit 12 (encodeInstruction op rd rs1 rs2 imm) AND 0x0F) :: u8) = rs2 AND 0x0F"
  "signed_take_bit 11 (ucast (encodeInstruction op rd rs1 rs2 imm)) = signed_take_bit 11 imm"
  unfolding encodeInstruction_def Let_def field_masks
  by (rule bit_word_eqI, auto simp: bit_simps min_def)+

lemma nibble_id: "rd < 16 \<Longrightarrow> (rd :: u8) AND 0x0F = rd"
  unfolding field_masks
  by (simp add: word_unat_eq_iff unsigned_take_bit_eq take_bit_nat_eq_self word_less_nat_alt flip: take_bit_eq_mask)

lemma decode_encode:
  "decodeInstruction (encodeInstruction op rd rs1 rs2 imm) =
     \<lparr>d_opcode = opcode_of_byte (opcode_byte op), d_rd = rd AND 0x0F, d_rs1 = rs1 AND 0x0F,
      d_rs2 = rs2 AND 0x0F, d_imm = signed_take_bit 11 imm,
      d_raw = encodeInstruction op rd rs1 rs2 imm\<rparr>"
  unfolding decodeInstruction_def Let_def encode_fields decode_sign_extension by (rule refl)

lemma encode_decode:
  fixes raw :: Word
  shows "encodeInstruction (d_opcode (decodeInstruction raw)) (d_rd (decodeInstruction raw))
     (d_rs1 (decodeInstruction raw)) (d_rs2 (decodeInstruction raw)) (d_imm (decodeInstruction raw))
   = raw"
proof (rule bit_word_eqI)
  fix n
  assume "n < LENGTH(32)"
  then consider "n < 12" | m where "n = 12 + m" "m < 4" | m where "n = 16 + m" "m < 4"
    | m where "n = 20 + m" "m < 4" | m where "n = 24 + m" "m < 8"
    using le_Suc_ex [of 12 n] le_Suc_ex [of 16 n] le_Suc_ex [of 20 n] le_Suc_ex [of 24 n]
    by fastforce
  then show "bit (encodeInstruction (d_opcode (decodeInstruction raw)) (d_rd (decodeInstruction raw))
     (d_rs1 (decodeInstruction raw)) (d_rs2 (decodeInstruction raw)) (d_imm (decodeInstruction raw))) n
      = bit raw n"
    unfolding decodeInstruction_def Let_def decode_sign_extension
      decoded_instruction.simps opcode_byte_of_byte encodeInstruction_def field_masks
    by cases (simp_all add: bit_simps min_def)
qed

lemma nibble_bound: "(ucast (w AND 0x0F :: Word) :: u8) < 16"
proof -
  have "(ucast (w AND 0x0F :: Word) :: u8) = take_bit 4 (ucast w)"
    unfolding field_masks by (rule bit_word_eqI) (auto simp: bit_simps)
  then show ?thesis
    using take_bit_nat_less_exp [of 4 "unat (ucast w :: u8)"]
    by (simp add: word_less_nat_alt unsigned_take_bit_eq)
qed

lemma decode_register_bound:
  "d_rd (decodeInstruction raw) < 16" "d_rs1 (decodeInstruction raw) < 16"
  "d_rs2 (decodeInstruction raw) < 16"
  unfolding decodeInstruction_def Let_def by (simp_all add: nibble_bound)

lemma sint_signed_take_bit_11: "sint (signed_take_bit 11 (imm :: u16)) = signed_take_bit 11 (sint imm)"
  by (rule bit_eqI) (auto simp: bit_simps min_def)

lemma signed_take_bit_12_id:
  assumes "-2048 \<le> sint imm" and "sint imm < 2048"
  shows "signed_take_bit 11 (imm :: u16) = imm"
proof (rule signed_word_eqI)
  show "sint (signed_take_bit 11 imm) = sint imm"
    using assms by (simp add: sint_signed_take_bit_11 signed_take_bit_int_eq_self_iff)
qed

lemma signed_take_bit_12_range:
  "-2048 \<le> sint (signed_take_bit 11 (imm :: u16))" "sint (signed_take_bit 11 (imm :: u16)) < 2048"
  using signed_take_bit_int_greater_eq_minus_exp [of 11 "sint imm"]
    signed_take_bit_int_less_exp [of 11 "sint imm"]
  by (simp_all add: sint_signed_take_bit_11)

text \<open>An all-digit string is read in full, so printing a number and reading it back is exact.\<close>

lemma is_digit_not_space: "is_digit c \<Longrightarrow> \<not> is_space c"
  by (auto simp: is_digit_def is_space_def)

lemma is_digit_not_sign: "is_digit c \<Longrightarrow> c \<noteq> CHR ''-'' \<and> c \<noteq> CHR ''+''"
  by (auto simp: is_digit_def)

lemma strtol_value_digits:
  assumes "list_all is_digit s" and "s \<noteq> []"
  shows "strtol_value s = Some (int (digits_val s))"
proof -
  from assms have hd: "is_digit (hd s)" by (cases s) simp_all
  then have "dropWhile is_space s = s"
    using assms by (cases s) (simp_all add: is_digit_not_space)
  moreover from assms have "takeWhile is_digit s = s"
    by (auto simp: list_all_iff)
  ultimately show ?thesis
    using assms(2) is_digit_not_sign [OF hd]
    by (simp add: strtol_value_def Let_def del: takeWhile_eq_all_conv)
qed

lemma strtol_value_show_nat [simp]: "strtol_value (show_nat n) = Some (int n)"
  by (simp add: strtol_value_digits show_nat_digits)

lemma std_stoi_show_nat: "n < 2 ^ 31 \<Longrightarrow> std_stoi (show_nat n) = Inr (int n)"
  by (simp add: std_stoi_def)

lemma registerNameFromIndex_shape:
  "registerNameFromIndex i = CHR ''r'' # show_nat (unat i)" "2 \<le> length (registerNameFromIndex i)"
  by (simp_all add: registerNameFromIndex_def show_word_def Suc_le_eq)

lemma registerIndexFromName_bound:
  "registerIndexFromName name = Inr i \<Longrightarrow> i < 16"
  by (auto simp: registerIndexFromName_def word_less_nat_alt nat_less_iff unsigned_of_int
      take_bit_int_eq_self split: if_splits sum.splits)

text \<open>The names of the sixteen registers are read back as the numbers they were made from.\<close>

lemma register_name_read:
  assumes "i < 16"
  shows "registerIndexFromName (registerNameFromIndex i) = Inr i"
proof -
  from assms have "unat i < 16" by (simp add: word_less_nat_alt)
  moreover from assms have "uint i < uint (16 :: u8)" by (simp only: word_less_def)
  ultimately show ?thesis
    using registerNameFromIndex_shape [of i]
    by (simp add: registerIndexFromName_def std_stoi_show_nat)
qed

section \<open>Properties\<close>

text \<open>Every 32-bit word is the encoding of its own decoding: no two instruction words decode to
  the same fields and encoding loses nothing that decoding found.\<close>

lemma instruction_word_bijection:
  "encodeInstruction (d_opcode (decodeInstruction raw)) (d_rd (decodeInstruction raw))
     (d_rs1 (decodeInstruction raw)) (d_rs2 (decodeInstruction raw)) (d_imm (decodeInstruction raw))
   = raw"
  by (rule encode_decode)

text \<open>C27: Encoding an instruction with register numbers below sixteen and an immediate in the range of
  twelve-bit two's complement and decoding the word gives the instruction back.\<close>

theorem instruction_roundtrip:
  assumes "is_named op" and "rd < 16" and "rs1 < 16" and "rs2 < 16"
    and "-2048 \<le> sint imm" and "sint imm < 2048"
  shows "decodeInstruction (encodeInstruction op rd rs1 rs2 imm) =
    \<lparr>d_opcode = op, d_rd = rd, d_rs1 = rs1, d_rs2 = rs2, d_imm = imm,
     d_raw = encodeInstruction op rd rs1 rs2 imm\<rparr>"
  using assms
  by (simp add: decode_encode opcode_of_byte_byte signed_take_bit_12_id nibble_id)

theorem instruction_roundtrip_witness:
  "decodeInstruction (encodeInstruction OP_SUB 3 4 15 (-7)) =
    \<lparr>d_opcode = OP_SUB, d_rd = 3, d_rs1 = 4, d_rs2 = 15, d_imm = -7,
     d_raw = encodeInstruction OP_SUB 3 4 15 (-7)\<rparr>"
  by (rule instruction_roundtrip) simp_all

end
