(* ===== verification/Register_File.thy ===== *)
theory Register_File
  imports VM_Types
begin

text \<open>
  \<^verbatim>\<open>RegisterFile\<close> and \<^verbatim>\<open>CpuContext\<close> (\<^verbatim>\<open>include/vm/cpu\<close>, \<^verbatim>\<open>src/vm/cpu/register_file.cpp\<close>,
  \<^verbatim>\<open>src/vm/cpu/cpu_context.cpp\<close>): the sixteen general registers, program counter, stack
  pointer and flags, and what belongs to a process on top of them. The lemmas say what the
  flags mean after a subtraction.
\<close>

section \<open>Register file\<close>

text \<open>\<^verbatim>\<open>std::array<Word, kRegisterCount>\<close> is a list; \<open>regs_ok\<close> is its length.\<close>

record register_file =
  rf_gpr :: "Word list"
  rf_pc :: Address
  rf_sp :: Address
  rf_flags :: cpu_flags

definition RegisterFile :: register_file where
  "RegisterFile = \<lparr>rf_gpr = replicate kRegisterCount 0, rf_pc = 0, rf_sp = 0, rf_flags = clear_flags\<rparr>"

definition reg_get :: "register_file \<Rightarrow> u8 \<Rightarrow> vm_exception + Word" where
  "reg_get r index =
    (if kRegisterCount \<le> unat index then Inl (VmException ''invalid register index'')
     else Inr (rf_gpr r ! unat index))"

definition reg_set :: "u8 \<Rightarrow> Word \<Rightarrow> register_file \<Rightarrow> vm_exception + register_file" where
  "reg_set index value r =
    (if kRegisterCount \<le> unat index then Inl (VmException ''invalid register index'')
     else Inr (r\<lparr>rf_gpr := (rf_gpr r)[unat index := value]\<rparr>))"

definition setPc :: "Address \<Rightarrow> register_file \<Rightarrow> register_file" where
  "setPc pc r = r\<lparr>rf_pc := pc\<rparr>"

definition advancePc :: "register_file \<Rightarrow> register_file" where
  "advancePc r = r\<lparr>rf_pc := rf_pc r + 1\<rparr>"

definition setSp :: "Address \<Rightarrow> register_file \<Rightarrow> register_file" where
  "setSp sp r = r\<lparr>rf_sp := sp\<rparr>"

text \<open>\<^verbatim>\<open>static_cast<std::int32_t>(w) < 0\<close>.\<close>

definition is_negative :: "Word \<Rightarrow> bool" where
  "is_negative w \<longleftrightarrow> sint w < 0"

definition updateFlags :: "Word \<Rightarrow> register_file \<Rightarrow> register_file" where
  "updateFlags result r =
    r\<lparr>rf_flags := (rf_flags r)\<lparr>fl_zero := (result = 0), fl_sign := is_negative result\<rparr>\<rparr>"

definition updateFlagsSub :: "Word \<Rightarrow> Word \<Rightarrow> Word \<Rightarrow> register_file \<Rightarrow> register_file" where
  "updateFlagsSub lhs rhs result r =
    (let r1 = updateFlags result r;
         r2 = r1\<lparr>rf_flags := (rf_flags r1)\<lparr>fl_carry := (lhs < rhs)\<rparr>\<rparr>;
         lhsSign = is_negative lhs;
         rhsSign = is_negative rhs;
         resultSign = is_negative result
     in r2\<lparr>rf_flags := (rf_flags r2)
              \<lparr>fl_overflow := (lhsSign \<noteq> rhsSign \<and> lhsSign \<noteq> resultSign)\<rparr>\<rparr>)"

definition regs_ok :: "register_file \<Rightarrow> bool" where
  "regs_ok r \<longleftrightarrow> length (rf_gpr r) = kRegisterCount"

section \<open>Processor context\<close>

record cpu_context =
  cx_registers :: register_file
  cx_timeSliceLeft :: size_t
  cx_halted :: bool
  cx_shouldYield :: bool

definition CpuContext :: cpu_context where
  "CpuContext = \<lparr>cx_registers = RegisterFile, cx_timeSliceLeft = kDefaultTimeSlice,
                  cx_halted = False, cx_shouldYield = False\<rparr>"

definition setTimeSliceLeft :: "size_t \<Rightarrow> cpu_context \<Rightarrow> cpu_context" where
  "setTimeSliceLeft value c = c\<lparr>cx_timeSliceLeft := value\<rparr>"

definition resetTimeSlice :: "size_t \<Rightarrow> cpu_context \<Rightarrow> cpu_context" where
  "resetTimeSlice quantum c = c\<lparr>cx_timeSliceLeft := quantum\<rparr>"

definition setHalted :: "bool \<Rightarrow> cpu_context \<Rightarrow> cpu_context" where
  "setHalted value c = c\<lparr>cx_halted := value\<rparr>"

definition setShouldYield :: "bool \<Rightarrow> cpu_context \<Rightarrow> cpu_context" where
  "setShouldYield value c = c\<lparr>cx_shouldYield := value\<rparr>"

text \<open>\<^verbatim>\<open>source.saveTo(other)\<close> returns the new value of \<^verbatim>\<open>other\<close>, field by field as the code copies.\<close>

definition saveTo :: "cpu_context \<Rightarrow> cpu_context \<Rightarrow> cpu_context" where
  "saveTo self other =
    (let r = cx_registers other;
         r1 = r\<lparr>rf_gpr := rf_gpr (cx_registers self)\<rparr>;
         r2 = setPc (rf_pc (cx_registers self)) r1;
         r3 = setSp (rf_sp (cx_registers self)) r2;
         r4 = r3\<lparr>rf_flags := rf_flags (cx_registers self)\<rparr>
     in other\<lparr>cx_registers := r4, cx_timeSliceLeft := cx_timeSliceLeft self,
              cx_halted := cx_halted self, cx_shouldYield := cx_shouldYield self\<rparr>)"

definition restoreFrom :: "cpu_context \<Rightarrow> cpu_context \<Rightarrow> cpu_context" where
  "restoreFrom self other =
    (let r = cx_registers self;
         r1 = r\<lparr>rf_gpr := rf_gpr (cx_registers other)\<rparr>;
         r2 = setPc (rf_pc (cx_registers other)) r1;
         r3 = setSp (rf_sp (cx_registers other)) r2;
         r4 = r3\<lparr>rf_flags := rf_flags (cx_registers other)\<rparr>
     in self\<lparr>cx_registers := r4, cx_timeSliceLeft := cx_timeSliceLeft other,
             cx_halted := cx_halted other, cx_shouldYield := cx_shouldYield other\<rparr>)"

section \<open>Lemmas\<close>

lemmas register_defs = setPc_def advancePc_def setSp_def updateFlags_def updateFlagsSub_def Let_def

lemma regs_ok_RegisterFile [simp]: "regs_ok RegisterFile"
  by (simp add: regs_ok_def RegisterFile_def)

lemma reg_get_ok: "i < 16 \<Longrightarrow> reg_get r i = Inr (rf_gpr r ! unat i)"
  by (simp add: reg_get_def word_less_nat_alt)

lemma reg_set_ok: "i < 16 \<Longrightarrow> reg_set i v r = Inr (r\<lparr>rf_gpr := (rf_gpr r)[unat i := v]\<rparr>)"
  by (simp add: reg_set_def word_less_nat_alt)

lemma reg_get_error: "\<not> i < 16 \<Longrightarrow> reg_get r i = Inl (VmException ''invalid register index'')"
  by (simp add: reg_get_def word_less_nat_alt)

lemma regs_ok_set: "regs_ok r \<Longrightarrow> reg_set i v r = Inr r' \<Longrightarrow> regs_ok r'"
  by (auto simp: regs_ok_def reg_set_def split: if_splits)

lemma regs_ok_frame [simp]:
  "regs_ok (setPc a r) = regs_ok r" "regs_ok (advancePc r) = regs_ok r"
  "regs_ok (setSp a r) = regs_ok r" "regs_ok (updateFlags w r) = regs_ok r"
  "regs_ok (updateFlagsSub u v w r) = regs_ok r"
  by (simp_all add: regs_ok_def register_defs)

lemma register_frames [frame_simps]:
  "rf_gpr (setPc a r) = rf_gpr r" "rf_gpr (advancePc r) = rf_gpr r" "rf_gpr (setSp a r) = rf_gpr r"
  "rf_gpr (updateFlags w r) = rf_gpr r" "rf_gpr (updateFlagsSub u v w r) = rf_gpr r"
  "rf_pc (setPc a r) = a" "rf_pc (advancePc r) = rf_pc r + 1" "rf_pc (setSp a r) = rf_pc r"
  "rf_pc (updateFlags w r) = rf_pc r" "rf_pc (updateFlagsSub u v w r) = rf_pc r"
  "rf_sp (setPc a r) = rf_sp r" "rf_sp (advancePc r) = rf_sp r" "rf_sp (setSp a r) = a"
  "rf_sp (updateFlags w r) = rf_sp r" "rf_sp (updateFlagsSub u v w r) = rf_sp r"
  "rf_flags (setPc a r) = rf_flags r" "rf_flags (advancePc r) = rf_flags r"
  "rf_flags (setSp a r) = rf_flags r"
  by (simp_all add: register_defs)

text \<open>
  The signed difference of two words, and when it leaves the range of 32 bits: exactly when
  the signs of the operands differ and the result has not the sign of the left operand.
\<close>

lemma wrap_once:
  fixes x :: int
  assumes "- 4294967296 < x" and "x < 4294967296"
  shows "(x + 2147483648) mod 4294967296 - 2147483648 =
    (if x < - 2147483648 then x + 4294967296 else if 2147483648 \<le> x then x - 4294967296 else x)"
proof -
  consider "x < - 2147483648" | "2147483648 \<le> x" | "- 2147483648 \<le> x" "x < 2147483648" by linarith
  then show ?thesis
  proof cases
    case 1
    then have "(x + 2147483648) mod 4294967296 = (x + 2147483648 + 4294967296) mod 4294967296" by (simp only: mod_add_self2)
    also have "\<dots> = x + 2147483648 + 4294967296" using 1 assms by (intro mod_pos_pos_trivial) simp_all
    finally show ?thesis using 1 by simp
  next
    case 2
    then have "(x + 2147483648) mod 4294967296 = (x + 2147483648 - 4294967296) mod 4294967296" by (simp only: minus_mod_self2)
    also have "\<dots> = x + 2147483648 - 4294967296" using 2 assms by (intro mod_pos_pos_trivial) simp_all
    finally show ?thesis using 2 by simp
  next
    case 3
    then have "(x + 2147483648) mod 4294967296 = x + 2147483648" by (intro mod_pos_pos_trivial) simp_all
    then show ?thesis using 3 by simp
  qed
qed
lemma sint_u32_range: "- 2147483648 \<le> sint (w :: Word)" "sint (w :: Word) < 2147483648"
  using sint_greater_eq [of w] sint_less [of w] by simp_all

lemma sint_diff_cases:
  fixes l r :: Word
  shows "sint (l - r) =
    (if sint l - sint r < - 2147483648 then sint l - sint r + 4294967296
     else if 2147483648 \<le> sint l - sint r then sint l - sint r - 4294967296
     else sint l - sint r)"
proof -
  have "sint (l - r) = (sint l - sint r + 2147483648) mod 4294967296 - 2147483648"
    by (simp add: sint_word_ariths signed_take_bit_eq_take_bit_shift take_bit_eq_mod)
  also have "\<dots> = (if sint l - sint r < - 2147483648 then sint l - sint r + 4294967296
     else if 2147483648 \<le> sint l - sint r then sint l - sint r - 4294967296
     else sint l - sint r)"
    using sint_u32_range [of l] sint_u32_range [of r] by (intro wrap_once) linarith+
  finally show ?thesis .
qed

lemma updateFlagsSub_flags:
  "rf_flags (updateFlagsSub l r (l - r) rf) =
    \<lparr>fl_zero = (l = r), fl_sign = (sint (l - r) < 0), fl_carry = (l < r),
     fl_overflow = (sint l - sint r < - (2 ^ 31) \<or> 2 ^ 31 \<le> sint l - sint r)\<rparr>"
proof -
  have "((sint l < 0) \<noteq> (sint r < 0) \<and> (sint l < 0) \<noteq> (sint (l - r) < 0)) =
      (sint l - sint r < - (2 ^ 31) \<or> 2 ^ 31 \<le> sint l - sint r)"
    using sint_u32_range [of l] sint_u32_range [of r] unfolding sint_diff_cases by auto
  then show ?thesis
    by (simp add: updateFlagsSub_def updateFlags_def Let_def is_negative_def)
qed

section \<open>Properties\<close>

text \<open>After a comparison or subtraction the flags have the documented meaning: ZF is equality,
  CF the borrow of the unsigned difference, OF the signed overflow, and the sign flag
  corrected by the overflow flag is the signed order.\<close>

lemma subtraction_flags_meaning:
  fixes l r :: Word
  shows "(let f = rf_flags (updateFlagsSub l r (l - r) rf)
     in fl_zero f = (l = r) \<and>
        fl_carry f = (unat l < unat r) \<and>
        fl_overflow f = (sint (l - r) \<noteq> sint l - sint r) \<and>
        (fl_sign f \<noteq> fl_overflow f) = (sint l < sint r))"
  unfolding updateFlagsSub_flags sint_diff_cases Let_def
  using sint_u32_range [of l] sint_u32_range [of r] by (auto simp: word_less_nat_alt)

text \<open>Saving a context into another and restoring from it carries over every field, whatever the
  other context held before.\<close>

lemma context_save_restore:
  "saveTo c other = c \<and> restoreFrom other c = c \<and> restoreFrom d (saveTo c other) = c"
  by (simp_all add: saveTo_def restoreFrom_def setPc_def setSp_def Let_def)

end
