(* ===== verification/Physical_Memory.thy ===== *)
theory Physical_Memory
  imports Register_File
begin

text \<open>
  \<^verbatim>\<open>PhysicalMemory\<close> (\<^verbatim>\<open>include/vm/memory/physical_memory.hpp\<close>,
  \<^verbatim>\<open>src/vm/memory/physical_memory.cpp\<close>): the byte array that all processes share, the bounds
  check in front of every access, little-endian words and the allocator of regions. The
  interface \<^verbatim>\<open>IMemory\<close> is the locale \<open>word_memory\<close>; the lemmas proved in it are used
  by the process memory. Every operation holds the mutex of the object for its whole body, so
  an operation is one step of the model.
\<close>

section \<open>State and operations\<close>

text \<open>
  \<^verbatim>\<open>std::vector<std::byte> memory_\<close> is its length \<open>pm_size\<close> and the byte at each index; an
  index beyond the length is never read or written, since every access is checked first.
\<close>

record phys_mem =
  pm_memory :: "nat \<Rightarrow> u8"
  pm_size :: size_t
  nextFreeAddress :: Address

definition PhysicalMemory :: "size_t \<Rightarrow> phys_mem" where
  "PhysicalMemory sz = \<lparr>pm_memory = (\<lambda>_. 0), pm_size = sz, nextFreeAddress = 0\<rparr>"

text \<open>The sum \<^verbatim>\<open>static_cast<std::size_t>(address) + size\<close> wraps around at 64 bits.\<close>

definition validateRange :: "Address \<Rightarrow> size_t \<Rightarrow> (phys_mem, unit) vm" where
  "validateRange address sz =
    vread (\<lambda>pm.
      let range_end = ucast address + sz
      in if pm_size pm < range_end
         then Inl (VmException (''memory access out of bounds at address '' @ show_word address))
         else Inr ())"

definition readByte :: "Address \<Rightarrow> (phys_mem, u8) vm" where
  "readByte address =
    vseq (validateRange address 1) (vgets (\<lambda>pm. pm_memory pm (unat address)))"

definition writeByte :: "Address \<Rightarrow> u8 \<Rightarrow> (phys_mem, unit) vm" where
  "writeByte address value =
    vseq (validateRange address 1)
      (vmodify (\<lambda>pm. pm\<lparr>pm_memory := (pm_memory pm)(unat address := value)\<rparr>))"

text \<open>The loops of \<^verbatim>\<open>readWord\<close> and \<^verbatim>\<open>writeWord\<close> over the four bytes, lowest byte first.\<close>

definition load_word :: "(nat \<Rightarrow> u8) \<Rightarrow> nat \<Rightarrow> Word" where
  "load_word m a = foldl (\<lambda>value i. value OR push_bit (8 * i) (ucast (m (a + i)))) 0 [0..<4]"

definition store_word :: "(nat \<Rightarrow> u8) \<Rightarrow> nat \<Rightarrow> Word \<Rightarrow> nat \<Rightarrow> u8" where
  "store_word m a value =
    foldl (\<lambda>m' i. m'(a + i := ucast (drop_bit (8 * i) value AND 0xFF))) m [0..<4]"

definition readWord :: "Address \<Rightarrow> (phys_mem, Word) vm" where
  "readWord address =
    vseq (validateRange address sizeof_Word) (vgets (\<lambda>pm. load_word (pm_memory pm) (unat address)))"

definition writeWord :: "Address \<Rightarrow> Word \<Rightarrow> (phys_mem, unit) vm" where
  "writeWord address value =
    vseq (validateRange address sizeof_Word)
      (vmodify (\<lambda>pm. pm\<lparr>pm_memory := store_word (pm_memory pm) (unat address) value\<rparr>))"

definition readBytes :: "Address \<Rightarrow> size_t \<Rightarrow> (phys_mem, u8 list) vm" where
  "readBytes address sz =
    vseq (validateRange address sz)
      (vgets (\<lambda>pm. map (\<lambda>i. pm_memory pm (unat address + i)) [0..<unat sz]))"

fun store_bytes :: "(nat \<Rightarrow> u8) \<Rightarrow> nat \<Rightarrow> u8 list \<Rightarrow> nat \<Rightarrow> u8" where
  "store_bytes m a [] = m"
| "store_bytes m a (b # bs) = store_bytes (m(a := b)) (Suc a) bs"

text \<open>The buffer is the list of the bytes that its first \<^verbatim>\<open>size\<close> elements hold.\<close>

definition writeBytes :: "Address \<Rightarrow> u8 list \<Rightarrow> size_t \<Rightarrow> (phys_mem, unit) vm" where
  "writeBytes address buffer sz =
    vseq (validateRange address sz)
      (vmodify (\<lambda>pm. pm\<lparr>pm_memory :=
         store_bytes (pm_memory pm) (unat address) (take (unat sz) buffer)\<rparr>))"

definition allocateRegion :: "size_t \<Rightarrow> (phys_mem, Address) vm" where
  "allocateRegion sz =
    vbind (vgets nextFreeAddress) (\<lambda>base.
      vseq (vread (\<lambda>pm. if pm_size pm < ucast base + sz
                        then Inl (VmException ''not enough physical memory to allocate region'')
                        else Inr ()))
        (vbind (vmodify (\<lambda>pm. pm\<lparr>nextFreeAddress := nextFreeAddress pm + ucast sz\<rparr>)) (\<lambda>_.
          vreturn base)))"

section \<open>Bounds\<close>

definition in_range :: "phys_mem \<Rightarrow> Address \<Rightarrow> nat \<Rightarrow> bool" where
  "in_range pm a n \<longleftrightarrow> unat a + n \<le> unat (pm_size pm)"

lemma unat_address_plus:
  fixes a :: Address and n :: size_t
  assumes "unat n < 2 ^ 63"
  shows "unat (ucast a + n) = unat a + unat n"
proof -
  have "unat a < 4294967296" by simp
  with assms have "unat a + unat n < 2 ^ 64" by (simp del: unat_u32_lt)
  then show ?thesis
    by (simp add: unat_add_lem [THEN iffD1])
qed

lemma validateRange_eq [vm_run]:
  assumes "unat n < 2 ^ 63"
  shows "validateRange a n pm =
    (if in_range pm a (unat n) then (Inr (), pm)
     else (Inl (VmException (''memory access out of bounds at address '' @ show_word a)), pm))"
  using assms
  by (simp add: validateRange_def vread_def Let_def word_less_nat_alt unat_address_plus
      in_range_def not_less)

lemmas phys_op_defs =
  readByte_def writeByte_def readWord_def writeWord_def readBytes_def writeBytes_def

lemma phys_reads [mem_simps]:
  "in_range pm a 4 \<Longrightarrow> readWord a pm = (Inr (load_word (pm_memory pm) (unat a)), pm)"
  "in_range pm a 1 \<Longrightarrow> readByte a pm = (Inr (pm_memory pm (unat a)), pm)"
  by (simp_all add: phys_op_defs vm_run)

lemma phys_writes [mem_simps]:
  "in_range pm a 4 \<Longrightarrow> writeWord a v pm =
     (Inr (), pm\<lparr>pm_memory := store_word (pm_memory pm) (unat a) v\<rparr>)"
  "in_range pm a 1 \<Longrightarrow> writeByte a b pm = (Inr (), pm\<lparr>pm_memory := (pm_memory pm)(unat a := b)\<rparr>)"
  "in_range pm a (unat n) \<Longrightarrow> unat n < 2 ^ 63 \<Longrightarrow> writeBytes a bs n pm =
     (Inr (), pm\<lparr>pm_memory := store_bytes (pm_memory pm) (unat a) (take (unat n) bs)\<rparr>)"
  by (simp_all add: phys_op_defs vm_run)

lemma phys_out_of_range [mem_simps]:
  "\<not> in_range pm a 4 \<Longrightarrow> readWord a pm =
     (Inl (VmException (''memory access out of bounds at address '' @ show_word a)), pm)"
  "\<not> in_range pm a 4 \<Longrightarrow> writeWord a v pm =
     (Inl (VmException (''memory access out of bounds at address '' @ show_word a)), pm)"
  "\<not> in_range pm a 1 \<Longrightarrow> readByte a pm =
     (Inl (VmException (''memory access out of bounds at address '' @ show_word a)), pm)"
  "\<not> in_range pm a 1 \<Longrightarrow> writeByte a b pm =
     (Inl (VmException (''memory access out of bounds at address '' @ show_word a)), pm)"
  by (simp_all add: phys_op_defs vm_run)

lemma in_range_frame [simp]:
  "in_range (pm\<lparr>pm_memory := m\<rparr>) a n = in_range pm a n"
  "in_range (pm\<lparr>nextFreeAddress := b\<rparr>) a n = in_range pm a n"
  by (simp_all add: in_range_def)

section \<open>Little-endian words\<close>

lemma load_word_bytes:
  "load_word m a = ucast (m a) OR push_bit 8 (ucast (m (a + 1))) OR
     push_bit 16 (ucast (m (a + 2))) OR push_bit 24 (ucast (m (a + 3)))"
  by (simp add: load_word_def upt_rec numeral_3_eq_3 or.assoc)

lemma store_word_bytes:
  "store_word m a v = m(a := ucast (v AND 0xFF), a + 1 := ucast (drop_bit 8 v AND 0xFF),
     a + 2 := ucast (drop_bit 16 v AND 0xFF), a + 3 := ucast (drop_bit 24 v AND 0xFF))"
  by (simp add: store_word_def upt_rec numeral_3_eq_3)

lemma store_word_other: "j < a \<or> a + 4 \<le> j \<Longrightarrow> store_word m a v j = m j"
  by (auto simp: store_word_bytes)

lemma store_word_nth: "i < 4 \<Longrightarrow> store_word m a v (a + i) = ucast (drop_bit (8 * i) v)"
proof -
  have byte: "(ucast (w AND 0xFF :: Word) :: u8) = ucast w" for w
    unfolding field_masks by (rule bit_word_eqI) (auto simp: bit_simps)
  assume "i < 4"
  then consider "i = 0" | "i = 1" | "i = 2" | "i = 3" by linarith
  then show ?thesis by cases (simp_all add: store_word_bytes byte)
qed

lemma load_word_cong:
  assumes "\<And>i. i < 4 \<Longrightarrow> m (a + i) = m' (a + i)"
  shows "load_word m a = load_word m' a"
  unfolding load_word_bytes using assms [of 0] assms [of 1] assms [of 2] assms [of 3] by simp

lemma load_store_same: "load_word (store_word m a v) a = v"
proof (rule bit_word_eqI)
  fix n
  assume "n < LENGTH(32)"
  then consider k where "n = k" "k < 8" | k where "n = 8 + k" "k < 8"
    | k where "n = 16 + k" "k < 8" | k where "n = 24 + k" "k < 8"
    using le_Suc_ex [of 8 n] le_Suc_ex [of 16 n] le_Suc_ex [of 24 n] by fastforce
  then show "bit (load_word (store_word m a v) a) n = bit v n"
    unfolding load_word_bytes store_word_bytes field_masks
    by cases (simp_all add: bit_simps)
qed

lemma load_store_other:
  "a + 4 \<le> b \<or> b + 4 \<le> a \<Longrightarrow> load_word (store_word m a v) b = load_word m b"
  by (rule load_word_cong) (auto intro: store_word_other)

lemma store_bytes_other: "j < a \<or> a + length bs \<le> j \<Longrightarrow> store_bytes m a bs j = m j"
  by (induction m a bs rule: store_bytes.induct) auto

lemma store_bytes_nth: "i < length bs \<Longrightarrow> store_bytes m a bs (a + i) = bs ! i"
proof (induction bs arbitrary: m a i)
  case Nil
  then show ?case by simp
next
  case (Cons b bs)
  show ?case
  proof (cases i)
    case 0
    then show ?thesis by (simp add: store_bytes_other)
  next
    case (Suc k)
    with Cons.prems have "store_bytes (m(a := b)) (Suc a) bs (Suc a + k) = bs ! k"
      by (intro Cons.IH) simp
    with Suc show ?thesis by simp
  qed
qed

section \<open>The interface IMemory\<close>

text \<open>
  What the users of \<^verbatim>\<open>IMemory\<close> rely on: a word that may be accessed is read without effect
  and written without error, a write is seen by the next read of the word and by no read of a
  word apart from it, and an access that is not valid throws and changes nothing.
\<close>

definition words_apart :: "Address \<Rightarrow> Address \<Rightarrow> bool" where
  "words_apart a b \<longleftrightarrow> unat a + 4 \<le> unat b \<or> unat b + 4 \<le> unat a"

lemma words_apart_sym: "words_apart a b \<longleftrightarrow> words_apart b a"
  by (auto simp: words_apart_def)

text \<open>A loop that writes a list of words to a list of addresses.\<close>

fun write_seq :: "(Address \<Rightarrow> Word \<Rightarrow> ('m, unit) vm) \<Rightarrow> (Address \<times> Word) list \<Rightarrow> ('m, unit) vm" where
  "write_seq wr [] = vreturn ()"
| "write_seq wr ((a, v) # avs) = vseq (wr a v) (write_seq wr avs)"

locale word_memory =
  fixes rd :: "Address \<Rightarrow> ('m, Word) vm"
    and wr :: "Address \<Rightarrow> Word \<Rightarrow> ('m, unit) vm"
    and valid :: "'m \<Rightarrow> Address \<Rightarrow> bool"
    and word_at :: "'m \<Rightarrow> Address \<Rightarrow> Word"
  assumes read_valid: "valid m a \<Longrightarrow> rd a m = (Inr (word_at m a), m)"
    and read_invalid: "\<not> valid m a \<Longrightarrow> \<exists>msg. rd a m = (Inl (VmException msg), m)"
    and write_valid: "valid m a \<Longrightarrow> \<exists>m'. wr a v m = (Inr (), m') \<and> valid m' = valid m \<and>
      word_at m' a = v \<and> (\<forall>b. words_apart a b \<longrightarrow> word_at m' b = word_at m b)"
    and write_invalid: "\<not> valid m a \<Longrightarrow> \<exists>msg. wr a v m = (Inl (VmException msg), m)"
begin

lemma read_keeps: "rd a m = (r, m') \<Longrightarrow> m' = m"
  using read_valid [of m a] read_invalid [of m a] by (cases "valid m a") auto

lemma write_keeps_valid: "wr a v m = (r, m') \<Longrightarrow> valid m' = valid m"
  using write_valid [of m a v] write_invalid [of m a v] by (cases "valid m a") auto

lemma read_after_write: "valid m a \<Longrightarrow> vseq (wr a v) (rd a) m = (Inr v, snd (wr a v m))"
  using write_valid [of m a v] by (auto simp: vm_run read_valid)

lemma read_after_other_write:
  assumes "wr a v m = (r, m')" and "words_apart a b"
  shows "fst (rd b m') = fst (rd b m) \<or> \<not> valid m b"
proof (cases "valid m a")
  case True
  with assms have "valid m' = valid m" "word_at m' b = word_at m b"
    using write_valid [of m a v] by auto
  then show ?thesis by (cases "valid m b") (simp_all add: read_valid)
next
  case False
  with assms show ?thesis using write_invalid [of m a v] by auto
qed

text \<open>A loop of writes to words that lie apart leaves every one of them in place.\<close>

lemma write_seq_word_at:
  assumes "\<And>a v. (a, v) \<in> set avs \<Longrightarrow> valid m a" and "sorted_wrt words_apart (map fst avs)"
  shows "\<exists>m'. write_seq wr avs m = (Inr (), m') \<and> valid m' = valid m \<and>
    (\<forall>(a, v) \<in> set avs. word_at m' a = v) \<and>
    (\<forall>b. (\<forall>a \<in> fst ` set avs. words_apart a b) \<longrightarrow> word_at m' b = word_at m b)"
  using assms
proof (induction avs arbitrary: m)
  case Nil
  then show ?case by (simp add: vm_run)
next
  case (Cons av avs)
  obtain a v where av: "av = (a, v)" by (cases av)
  with Cons.prems obtain m1 where m1: "wr a v m = (Inr (), m1)" "valid m1 = valid m"
    "word_at m1 a = v" "\<And>b. words_apart a b \<Longrightarrow> word_at m1 b = word_at m b"
    using write_valid [of m a v] by fastforce
  moreover have "valid m1 a'" if "(a', v') \<in> set avs" for a' v'
    using that Cons.prems(1) m1(2) av by auto
  then obtain m2 where m2: "write_seq wr avs m1 = (Inr (), m2)" "valid m2 = valid m1"
    "\<forall>(a, v) \<in> set avs. word_at m2 a = v"
    "\<forall>b. (\<forall>a \<in> fst ` set avs. words_apart a b) \<longrightarrow> word_at m2 b = word_at m1 b"
    using Cons.IH [of m1] Cons.prems(2) av by auto
  moreover have "\<forall>a' \<in> fst ` set avs. words_apart a' a"
    using Cons.prems(2) av by (auto simp: words_apart_def)
  then have "word_at m2 a = v"
    using m1(3) m2(4) by simp
  ultimately show ?case
    using av by (auto simp: vm_run)
qed

end

text \<open>The shared physical memory also hands out regions, one after the other.\<close>

locale region_memory = word_memory rd wr valid word_at
  for rd :: "Address \<Rightarrow> ('m, Word) vm" and wr valid word_at +
  fixes alloc :: "size_t \<Rightarrow> ('m, Address) vm"
    and free_from :: "'m \<Rightarrow> nat"
    and capacity :: "'m \<Rightarrow> nat"
  assumes alloc_ok: "alloc n m = (Inr base, m') \<Longrightarrow> unat n < 2 ^ 32 \<Longrightarrow>
      unat base = free_from m \<and> free_from m + unat n \<le> capacity m \<and>
      capacity m' = capacity m \<and> word_at m' = word_at m \<and> valid m' = valid m"
    and alloc_next: "alloc n m = (Inr base, m') \<Longrightarrow> unat n < 2 ^ 32 \<Longrightarrow> capacity m < 2 ^ 32 \<Longrightarrow>
      free_from m' = free_from m + unat n"
    and alloc_error: "alloc n m = (Inl e, m') \<Longrightarrow> m' = m"
    and write_keeps_free: "wr a v m = (r, m') \<Longrightarrow> free_from m' = free_from m \<and> capacity m' = capacity m"
begin

text \<open>A region that was handed out ends before every region handed out after it begins.\<close>

lemma alloc_twice_disjoint:
  assumes "alloc n m = (Inr a, m1)" and "alloc k m1 = (Inr b, m2)"
    and "unat n < 2 ^ 32" and "unat k < 2 ^ 32" and "capacity m < 2 ^ 32"
  shows "unat a + unat n = unat b" and "unat b + unat k \<le> capacity m"
  using alloc_ok [OF assms(1,3)] alloc_next [OF assms(1,3,5)] alloc_ok [OF assms(2,4)] by simp_all

end

definition phys_word_at :: "phys_mem \<Rightarrow> Address \<Rightarrow> Word" where
  "phys_word_at pm a = load_word (pm_memory pm) (unat a)"

lemma allocateRegion_eq:
  assumes "unat n < 2 ^ 63"
  shows "allocateRegion n pm =
    (if unat (nextFreeAddress pm) + unat n \<le> unat (pm_size pm)
     then (Inr (nextFreeAddress pm), pm\<lparr>nextFreeAddress := nextFreeAddress pm + ucast n\<rparr>)
     else (Inl (VmException ''not enough physical memory to allocate region''), pm))"
  using assms
  by (simp add: allocateRegion_def vm_run word_less_nat_alt unat_address_plus not_less)

lemma in_range_cong: "pm_size pm = pm_size pm' \<Longrightarrow> in_range pm a n = in_range pm' a n"
  by (simp add: in_range_def)

interpretation phys: region_memory readWord writeWord "\<lambda>pm a. in_range pm a 4" phys_word_at
  allocateRegion "\<lambda>pm. unat (nextFreeAddress pm)" "\<lambda>pm. unat (pm_size pm)"
proof unfold_locales
  fix pm a v
  assume "in_range pm a 4"
  then show "\<exists>m'. writeWord a v pm = (Inr (), m') \<and> (\<lambda>b. in_range m' b 4) = (\<lambda>b. in_range pm b 4) \<and>
      phys_word_at m' a = v \<and> (\<forall>b. words_apart a b \<longrightarrow> phys_word_at m' b = phys_word_at pm b)"
    by (auto simp: mem_simps phys_word_at_def load_store_same words_apart_def intro!: load_store_other)
next
  fix n pm base pm'
  assume "allocateRegion n pm = (Inr base, pm')" and n: "unat n < 2 ^ 32"
  then show "unat base = unat (nextFreeAddress pm) \<and>
      unat (nextFreeAddress pm) + unat n \<le> unat (pm_size pm) \<and> unat (pm_size pm') = unat (pm_size pm) \<and>
      phys_word_at pm' = phys_word_at pm \<and> (\<lambda>a. in_range pm' a 4) = (\<lambda>a. in_range pm a 4)"
    by (auto simp: allocateRegion_eq phys_word_at_def split: if_splits)
next
  fix n pm base pm'
  assume "allocateRegion n pm = (Inr base, pm')" and n: "unat n < 2 ^ 32"
    and "unat (pm_size pm) < 2 ^ 32"
  then show "unat (nextFreeAddress pm') = unat (nextFreeAddress pm) + unat n"
    by (auto simp: allocateRegion_eq unat_word_ariths unsigned_ucast_eq take_bit_nat_eq_self
        split: if_splits)
qed (auto simp: mem_simps phys_word_at_def allocateRegion_def vm_run writeWord_def validateRange_eq
    split: if_splits)

section \<open>Properties\<close>

text \<open>A word written within the bounds is read back, whatever was there; the write changes the
  four bytes of the word, lowest byte first, and nothing else of the memory.\<close>

lemma word_write_read:
  assumes "in_range pm a 4"
  shows "\<exists>pm'. writeWord a v pm = (Inr (), pm') \<and> readWord a pm' = (Inr v, pm') \<and>
    (\<forall>i < 4. pm_memory pm' (unat a + i) = ucast (drop_bit (8 * i) v)) \<and>
    (\<forall>j. j < unat a \<or> unat a + 4 \<le> j \<longrightarrow> pm_memory pm' j = pm_memory pm j) \<and>
    pm_size pm' = pm_size pm \<and> nextFreeAddress pm' = nextFreeAddress pm"
  using assms store_word_nth [of _ "pm_memory pm" "unat a" v]
  by (simp add: mem_simps load_store_same store_word_other)

lemma word_write_read_witness:
  "in_range (PhysicalMemory 16) 8 4 \<and>
   (\<exists>pm'. writeWord 8 0xAABBCCDD (PhysicalMemory 16) = (Inr (), pm') \<and>
      readWord 8 pm' = (Inr 0xAABBCCDD, pm') \<and> pm_memory pm' 11 = 0xAA)"
proof -
  have h: "in_range (PhysicalMemory 16) 8 4" by (simp add: in_range_def PhysicalMemory_def)
  obtain pm' where "writeWord 8 0xAABBCCDD (PhysicalMemory 16) = (Inr (), pm')"
    "readWord 8 pm' = (Inr 0xAABBCCDD, pm')"
    "\<forall>i < 4. pm_memory pm' (unat (8 :: Address) + i) = ucast (drop_bit (8 * i) (0xAABBCCDD :: Word))"
    using word_write_read [OF h, where v = "0xAABBCCDD"] by blast
  then show ?thesis
    using h by (auto dest: spec [where x = 3])
qed

text \<open>Outside the bounds every operation throws the memory exception and leaves the memory as it
  is; no operation on bytes or words ever touches a byte beyond the size of the memory.\<close>

lemma access_out_of_bounds:
  assumes "unat (pm_size pm) < unat a + 4"
  shows "readWord a pm =
      (Inl (VmException (''memory access out of bounds at address '' @ show_word a)), pm) \<and>
    writeWord a v pm =
      (Inl (VmException (''memory access out of bounds at address '' @ show_word a)), pm)"
  using assms by (simp add: mem_simps in_range_def)

theorem access_out_of_bounds_witness:
  "fst (readWord 20 (PhysicalMemory 16)) =
     Inl (VmException (''memory access out of bounds at address '' @ show_word (20 :: Address)))"
  using access_out_of_bounds [of "PhysicalMemory 16" 20 0] by (simp add: PhysicalMemory_def)

text \<open>Two regions that the allocator hands out one after the other are adjacent, do not overlap
  and lie within the memory, provided the sizes and the capacity fit in 32 bits.\<close>

lemma allocated_regions_disjoint:
  assumes "allocateRegion n pm = (Inr a, pm1)" and "allocateRegion k pm1 = (Inr b, pm2)"
    and "unat n < 2 ^ 32" and "unat k < 2 ^ 32" and "unat (pm_size pm) < 2 ^ 32"
  shows "unat a + unat n = unat b \<and> unat b + unat k \<le> unat (pm_size pm)"
  using phys.alloc_twice_disjoint [OF assms] by simp

theorem allocated_regions_disjoint_witness:
  "\<exists>a b pm1 pm2. allocateRegion 65536 (PhysicalMemory 1048576) = (Inr a, pm1) \<and>
     allocateRegion 65536 pm1 = (Inr b, pm2) \<and> unat a + 65536 = unat b"
proof -
  let ?pm = "PhysicalMemory 1048576"
  let ?pm1 = "?pm\<lparr>nextFreeAddress := 65536\<rparr>"
  let ?pm2 = "?pm\<lparr>nextFreeAddress := 131072\<rparr>"
  have "allocateRegion 65536 ?pm = (Inr 0, ?pm1)" "allocateRegion 65536 ?pm1 = (Inr 65536, ?pm2)"
    by (simp_all add: allocateRegion_eq PhysicalMemory_def)
  moreover from this have "unat (0 :: Address) + unat (65536 :: size_t) = unat (65536 :: Address)"
    using allocated_regions_disjoint [of 65536 ?pm 0 ?pm1 65536 65536 ?pm2]
    by (simp add: PhysicalMemory_def)
  ultimately show ?thesis by force
qed

lemma allocateRegion_cases:
  "allocateRegion sz pm =
    (if (unat (nextFreeAddress pm) + unat sz) mod 2 ^ 64 \<le> unat (pm_size pm)
     then (Inr (nextFreeAddress pm), pm\<lparr>nextFreeAddress := nextFreeAddress pm + ucast sz\<rparr>)
     else (Inl (VmException ''not enough physical memory to allocate region''), pm))"
proof -
  have "unat (ucast (nextFreeAddress pm) :: u64) = unat (nextFreeAddress pm)" by simp
  then have "unat (ucast (nextFreeAddress pm) + sz :: u64) = (unat (nextFreeAddress pm) + unat sz) mod 2 ^ 64"
    by (simp add: unat_word_ariths)
  then show ?thesis by (simp add: allocateRegion_def vm_run word_less_nat_alt not_less)
qed

lemma free_address_advances:
  "unat ((a :: Address) + ucast (sz :: size_t)) = (unat a + unat sz) mod 2 ^ 32"
  by (simp add: unat_word_ariths unsigned_ucast_eq take_bit_eq_mod mod_add_right_eq)

text \<open>C40: The bound that the allocator tests is a sum that wraps around at 64 bits. A request for which it does not wrap
  is granted exactly if the region ends inside the memory. A request for which it wraps is always granted, however
  little memory there is, and moves the next free address backwards, by what is missing to \<open>2 ^ 64\<close>, into regions
  that have been handed out.\<close>

theorem allocator_bound_wraps:
  assumes "unat (nextFreeAddress pm) \<le> unat (pm_size pm)"
  shows "if unat (nextFreeAddress pm) + unat sz < 2 ^ 64
    then (\<exists>base pm'. allocateRegion sz pm = (Inr base, pm')) \<longleftrightarrow> unat (nextFreeAddress pm) + unat sz \<le> unat (pm_size pm)
    else \<exists>pm'. allocateRegion sz pm = (Inr (nextFreeAddress pm), pm') \<and>
      unat (nextFreeAddress pm') = unat (nextFreeAddress pm) - (2 ^ 64 - unat sz) \<and>
      unat (nextFreeAddress pm') < unat (nextFreeAddress pm)"
proof (cases "unat (nextFreeAddress pm) + unat sz < 2 ^ 64")
  case True
  then show ?thesis by (simp add: allocateRegion_cases)
next
  case False
  let ?b = "unat (nextFreeAddress pm)"
  have sz: "unat sz < 2 ^ 64" using unsigned_less [of sz, where ?'a = nat] by simp
  have b: "?b < 2 ^ 32" using unat_u32_lt [of "nextFreeAddress pm"] by simp
  define n where "n = ?b + unat sz - 2 ^ 64"
  have n: "?b + unat sz = n + 2 ^ 64" "n = ?b - (2 ^ 64 - unat sz)" "n < ?b"
    using False sz unfolding n_def by linarith+
  have small: "n < 2 ^ 32" using less_trans [OF n(3) b] .
  have "(n + 2 ^ 32 * 2 ^ 32) mod 2 ^ 32 = n" using small by (simp only: mod_mult_self2 mod_less)
  then have "(?b + unat sz) mod 2 ^ 64 = n" "(?b + unat sz) mod 2 ^ 32 = n"
    unfolding n(1) using small by simp_all
  moreover have "n \<le> unat (pm_size pm)" using n(3) assms by linarith
  ultimately have "allocateRegion sz pm =
      (Inr (nextFreeAddress pm), pm\<lparr>nextFreeAddress := nextFreeAddress pm + ucast sz\<rparr>)"
    "unat (nextFreeAddress pm + ucast sz) = n"
    by (simp_all only: allocateRegion_cases free_address_advances if_True)
  with False n(2,3) show ?thesis by simp
qed

theorem allocator_bound_wraps_witness:
  "\<exists>pm'. allocateRegion (2 ^ 64 - 1) ((PhysicalMemory 1048576)\<lparr>nextFreeAddress := 65536\<rparr>) = (Inr 65536, pm') \<and>
     unat (nextFreeAddress pm') = 65535"
  using allocator_bound_wraps [of "(PhysicalMemory 1048576)\<lparr>nextFreeAddress := 65536\<rparr>" "2 ^ 64 - 1"]
  by (auto simp: PhysicalMemory_def)
end
