(* ===== verification/Process_Memory.thy ===== *)
theory Process_Memory
  imports Physical_Memory
begin

text \<open>
  \<^verbatim>\<open>ProcessMemory\<close> (\<^verbatim>\<open>include/vm/memory/process_memory.hpp\<close>,
  \<^verbatim>\<open>src/vm/memory/process_memory.cpp\<close>): the view a process has of its region of the
  physical memory, with a code segment, a bounds-checked data segment and a descending stack.
  An object is its layout; the physical memory that it refers to is the state. The stack
  refines the interface \<open>word_stack\<close>, a list of words.
\<close>

section \<open>Layout\<close>

text \<open>\<^verbatim>\<open>struct MemoryRegionLayout\<close>.\<close>

record region_layout =
  ml_base :: Address
  ml_codeOffset :: Address
  ml_dataOffset :: Address
  ml_stackOffset :: Address
  ml_codeSize :: size_t
  ml_dataSize :: size_t
  ml_stackSize :: size_t
  ml_totalSize :: size_t

definition MemoryRegionLayout :: region_layout where
  "MemoryRegionLayout =
    \<lparr>ml_base = 0, ml_codeOffset = 0, ml_dataOffset = 0, ml_stackOffset = 0,
     ml_codeSize = 0, ml_dataSize = 0, ml_stackSize = kStackSize,
     ml_totalSize = kDefaultProcessMemorySize\<rparr>"

definition codeAddress :: "region_layout \<Rightarrow> Address" where
  "codeAddress l = ml_base l + ml_codeOffset l"

definition dataAddress :: "region_layout \<Rightarrow> Address" where
  "dataAddress l = ml_base l + ml_dataOffset l"

definition stackAddress :: "region_layout \<Rightarrow> Address" where
  "stackAddress l = ml_base l + ml_stackOffset l"

section \<open>Checks\<close>

definition segment_error :: "string \<Rightarrow> Address \<Rightarrow> vm_exception" where
  "segment_error segment address =
    VmException (segment @ '' segment access out of bounds at offset '' @ show_word address)"

definition validateDataOffset :: "region_layout \<Rightarrow> Address \<Rightarrow> size_t \<Rightarrow> ('s, unit) vm" where
  "validateDataOffset l offset sz =
    (let range_end = ucast offset + sz
     in if ml_dataSize l < range_end then vthrow (segment_error ''data'' offset) else vreturn ())"

definition validateStackAccess :: "region_layout \<Rightarrow> Address \<Rightarrow> size_t \<Rightarrow> ('s, unit) vm" where
  "validateStackAccess l sp sz =
    (let stackBase = stackAddress l
     in if sp < stackBase \<or> ml_stackSize l < ucast (sp - stackBase) + sz
        then vthrow (segment_error ''stack'' sp) else vreturn ())"

section \<open>Code and data\<close>

text \<open>
  \<^verbatim>\<open>codeAddress() + pc * sizeof(Word)\<close> is computed in 64 bits and narrowed to an \<^verbatim>\<open>Address\<close>
  at the call; there is no check against the size of the code segment.
\<close>

definition codeWordAddress :: "region_layout \<Rightarrow> Address \<Rightarrow> Address" where
  "codeWordAddress l pc = ucast (ucast (codeAddress l) + ucast pc * sizeof_Word)"

definition readCodeWord :: "region_layout \<Rightarrow> Address \<Rightarrow> (phys_mem, Word) vm" where
  "readCodeWord l pc = readWord (codeWordAddress l pc)"

definition writeCodeWord :: "region_layout \<Rightarrow> Address \<Rightarrow> Word \<Rightarrow> (phys_mem, unit) vm" where
  "writeCodeWord l pc value = writeWord (codeWordAddress l pc) value"

definition readDataWord :: "region_layout \<Rightarrow> Address \<Rightarrow> (phys_mem, Word) vm" where
  "readDataWord l offset =
    vseq (validateDataOffset l offset sizeof_Word) (readWord (dataAddress l + offset))"

definition writeDataWord :: "region_layout \<Rightarrow> Address \<Rightarrow> Word \<Rightarrow> (phys_mem, unit) vm" where
  "writeDataWord l offset value =
    vseq (validateDataOffset l offset sizeof_Word) (writeWord (dataAddress l + offset) value)"

definition readDataByte :: "region_layout \<Rightarrow> Address \<Rightarrow> (phys_mem, u8) vm" where
  "readDataByte l offset =
    vseq (validateDataOffset l offset 1) (readByte (dataAddress l + offset))"

definition writeDataByte :: "region_layout \<Rightarrow> Address \<Rightarrow> u8 \<Rightarrow> (phys_mem, unit) vm" where
  "writeDataByte l offset value =
    vseq (validateDataOffset l offset 1) (writeByte (dataAddress l + offset) value)"

text \<open>The loop of \<^verbatim>\<open>loadCode\<close> from index \<open>i\<close> on.\<close>

fun loadCode_from :: "region_layout \<Rightarrow> nat \<Rightarrow> Word list \<Rightarrow> (phys_mem, unit) vm" where
  "loadCode_from l i [] = vreturn ()"
| "loadCode_from l i (w # ws) =
     vseq (writeCodeWord l (word_of_nat i) w) (loadCode_from l (Suc i) ws)"

definition loadCode :: "region_layout \<Rightarrow> Word list \<Rightarrow> (phys_mem, unit) vm" where
  "loadCode l code = loadCode_from l 0 code"

definition loadData :: "region_layout \<Rightarrow> u8 list \<Rightarrow> (phys_mem, unit) vm" where
  "loadData l data =
    vseq (validateDataOffset l 0 (word_of_nat (length data)))
      (writeBytes (dataAddress l) data (word_of_nat (length data)))"

text \<open>The constructor of \<^verbatim>\<open>ProcessMemory\<close> on the physical memory.\<close>

definition ProcessMemory :: "region_layout \<Rightarrow> u8 list \<Rightarrow> (phys_mem, unit) vm" where
  "ProcessMemory l initialData =
    (if initialData \<noteq> []
     then vseq (validateDataOffset l 0 (word_of_nat (length initialData)))
            (writeBytes (dataAddress l) initialData (word_of_nat (length initialData)))
     else vreturn ())"

section \<open>Stack\<close>

text \<open>The stack pointer is passed by reference: it is the second component of the state.\<close>

definition canPush :: "region_layout \<Rightarrow> Address \<Rightarrow> bool" where
  "canPush l sp \<longleftrightarrow>
    ucast (stackAddress l) + sizeof_Word \<le> ucast sp \<and>
    ucast sp \<le> ucast (stackAddress l) + ml_stackSize l"

definition canPop :: "region_layout \<Rightarrow> Address \<Rightarrow> bool" where
  "canPop l sp \<longleftrightarrow>
    ucast sp + sizeof_Word \<le> ucast (stackAddress l) + ml_stackSize l \<and>
    stackAddress l \<le> sp"

definition pushWord :: "region_layout \<Rightarrow> Word \<Rightarrow> (phys_mem \<times> Address, unit) vm" where
  "pushWord l value =
    vbind (vgets snd) (\<lambda>sp.
      if \<not> canPush l sp then vthrow (VmException ''stack overflow'')
      else vseq (vmodify (apsnd (\<lambda>sp. sp - ucast sizeof_Word)))
        (vbind (vgets snd) (\<lambda>sp.
          vseq (validateStackAccess l sp sizeof_Word)
            (on_fst (writeWord sp value)))))"

definition popWord :: "region_layout \<Rightarrow> (phys_mem \<times> Address, Word) vm" where
  "popWord l =
    vbind (vgets snd) (\<lambda>sp.
      if \<not> canPop l sp then vthrow (VmException ''stack underflow'')
      else vseq (validateStackAccess l sp sizeof_Word)
        (vbind (on_fst (readWord sp)) (\<lambda>value.
          vseq (vmodify (apsnd (\<lambda>sp. sp + ucast sizeof_Word)))
            (vreturn value))))"

section \<open>Well-formed layouts\<close>

definition layout_ok :: "size_t \<Rightarrow> region_layout \<Rightarrow> bool" where
  "layout_ok psize l \<longleftrightarrow>
    unat (ml_base l) + unat (ml_totalSize l) \<le> unat psize \<and> unat psize < 2 ^ 32 \<and>
    unat (ml_codeOffset l) + unat (ml_codeSize l) \<le> unat (ml_dataOffset l) \<and>
    unat (ml_dataOffset l) + unat (ml_dataSize l) \<le> unat (ml_stackOffset l) \<and>
    unat (ml_stackOffset l) + unat (ml_stackSize l) \<le> unat (ml_totalSize l)"

text \<open>The first byte of each segment, as a number.\<close>

definition code_start :: "region_layout \<Rightarrow> nat" where
  "code_start l = unat (ml_base l) + unat (ml_codeOffset l)"
definition data_start :: "region_layout \<Rightarrow> nat" where
  "data_start l = unat (ml_base l) + unat (ml_dataOffset l)"
definition stack_start :: "region_layout \<Rightarrow> nat" where
  "stack_start l = unat (ml_base l) + unat (ml_stackOffset l)"
definition stack_end :: "region_layout \<Rightarrow> nat" where
  "stack_end l = stack_start l + unat (ml_stackSize l)"

lemma layout_bounds:
  assumes "layout_ok psize l"
  shows "code_start l + unat (ml_codeSize l) \<le> data_start l"
    "data_start l + unat (ml_dataSize l) \<le> stack_start l"
    "stack_end l \<le> unat psize" "unat psize < 4294967296"
    "unat (ml_base l) \<le> code_start l"
    "stack_end l \<le> unat (ml_base l) + unat (ml_totalSize l)"
  using assms by (simp_all add: layout_ok_def code_start_def data_start_def stack_start_def stack_end_def)

lemma layout_addresses:
  assumes "layout_ok psize l"
  shows "unat (codeAddress l) = code_start l" "unat (dataAddress l) = data_start l"
    "unat (stackAddress l) = stack_start l"
  using assms unfolding layout_ok_def codeAddress_def dataAddress_def stackAddress_def
    code_start_def data_start_def stack_start_def
  by (auto intro!: unat_add_u32)

lemma validateDataOffset_eq:
  assumes "unat n < 2 ^ 63"
  shows "validateDataOffset l off n =
    (if unat off + unat n \<le> unat (ml_dataSize l) then vreturn ()
     else vthrow (segment_error ''data'' off))"
  using assms by (simp add: validateDataOffset_def word_less_nat_alt unat_address_plus not_less)

lemma data_word_address:
  assumes "layout_ok (pm_size pm) l" and "unat off + n \<le> unat (ml_dataSize l)" 
  shows "unat (dataAddress l + off) = data_start l + unat off" "in_range pm (dataAddress l + off) n"
proof -
  show a: "unat (dataAddress l + off) = data_start l + unat off"
    using layout_bounds [OF assms(1)] layout_addresses [OF assms(1)] assms(2)
    by (subst unat_add_u32) (simp_all add: stack_end_def)
  show "in_range pm (dataAddress l + off) n"
    using layout_bounds [OF assms(1)] assms(2) a by (simp add: in_range_def stack_end_def)
qed

lemma data_access [mem_simps]:
  assumes "layout_ok (pm_size pm) l" and "unat off + 4 \<le> unat (ml_dataSize l)"
  shows "readDataWord l off pm = (Inr (load_word (pm_memory pm) (data_start l + unat off)), pm)"
    "writeDataWord l off v pm =
       (Inr (), pm\<lparr>pm_memory := store_word (pm_memory pm) (data_start l + unat off) v\<rparr>)"
  using assms data_word_address [OF assms]
  by (simp_all add: readDataWord_def writeDataWord_def validateDataOffset_eq vm_run mem_simps)

lemma data_byte_access [mem_simps]:
  assumes "layout_ok (pm_size pm) l" and "unat off + 1 \<le> unat (ml_dataSize l)"
  shows "readDataByte l off pm = (Inr (pm_memory pm (data_start l + unat off)), pm)"
    "writeDataByte l off b pm =
       (Inr (), pm\<lparr>pm_memory := (pm_memory pm)(data_start l + unat off := b)\<rparr>)"
  using assms data_word_address [OF assms]
  by (simp_all add: readDataByte_def writeDataByte_def validateDataOffset_eq vm_run mem_simps)

lemma data_out_of_segment [mem_simps]:
  "unat (ml_dataSize l) < unat off + 4 \<Longrightarrow> readDataWord l off pm = (Inl (segment_error ''data'' off), pm)"
  "unat (ml_dataSize l) < unat off + 4 \<Longrightarrow> writeDataWord l off v pm = (Inl (segment_error ''data'' off), pm)"
  "unat (ml_dataSize l) < unat off + 1 \<Longrightarrow> readDataByte l off pm = (Inl (segment_error ''data'' off), pm)"
  "unat (ml_dataSize l) < unat off + 1 \<Longrightarrow> writeDataByte l off b pm = (Inl (segment_error ''data'' off), pm)"
  by (simp_all add: readDataWord_def writeDataWord_def readDataByte_def writeDataByte_def
      validateDataOffset_eq vm_run)

section \<open>The stack as a list of words\<close>

lemma canPush_iff:
  assumes "layout_ok psize l"
  shows "canPush l sp \<longleftrightarrow> stack_start l + 4 \<le> unat sp \<and> unat sp \<le> stack_end l"
proof -
  have "unat (ucast (stackAddress l) + sizeof_Word :: u64) = stack_start l + 4"
    using unat_address_plus [of 4 "stackAddress l"] layout_addresses [OF assms] by simp
  moreover have "unat (ucast (stackAddress l) + ml_stackSize l) = stack_end l"
    using layout_bounds [OF assms] layout_addresses [OF assms]
    by (subst unat_address_plus) (simp_all add: stack_end_def)
  ultimately show ?thesis by (simp add: canPush_def word_le_nat_alt)
qed

lemma canPop_iff:
  assumes "layout_ok psize l"
  shows "canPop l sp \<longleftrightarrow> stack_start l \<le> unat sp \<and> unat sp + 4 \<le> stack_end l"
proof -
  have "unat (ucast sp + sizeof_Word :: u64) = unat sp + 4"
    using unat_address_plus [of 4 sp] by simp
  moreover have "unat (ucast (stackAddress l) + ml_stackSize l) = stack_end l"
    using layout_bounds [OF assms] layout_addresses [OF assms]
    by (subst unat_address_plus) (simp_all add: stack_end_def)
  ultimately show ?thesis
    using layout_addresses [OF assms] by (auto simp: canPop_def word_le_nat_alt)
qed

text \<open>After the first check the second one, on the segment, never fails.\<close>

lemma validateStackAccess_ok:
  assumes "layout_ok psize l" and "stack_start l \<le> unat sp" and "unat sp + 4 \<le> stack_end l"
  shows "validateStackAccess l sp 4 s = (Inr (), s)"
proof -
  have le: "stackAddress l \<le> sp"
    using assms layout_addresses [OF assms(1)] by (simp add: word_le_nat_alt)
  then have "unat (sp - stackAddress l) = unat sp - stack_start l"
    using layout_addresses [OF assms(1)] by (simp add: unat_sub_le)
  then have "unat (ucast (sp - stackAddress l) + sizeof_Word :: u64) = unat sp - stack_start l + 4"
    using unat_address_plus [of 4 "sp - stackAddress l"] by simp
  then have "\<not> ml_stackSize l < ucast (sp - stackAddress l) + sizeof_Word"
    using assms by (simp add: word_less_nat_alt stack_end_def)
  with le have "\<not> (sp < stackAddress l \<or> ml_stackSize l < ucast (sp - stackAddress l) + 4)"
    by auto
  then show ?thesis unfolding validateStackAccess_def Let_def by (simp add: vreturn_def)
qed

lemma pushWord_eq:
  assumes "layout_ok (pm_size pm) l"
  shows "pushWord l v (pm, sp) =
    (if stack_start l + 4 \<le> unat sp \<and> unat sp \<le> stack_end l
     then (Inr (), (pm\<lparr>pm_memory := store_word (pm_memory pm) (unat sp - 4) v\<rparr>, sp - 4))
     else (Inl (VmException ''stack overflow''), (pm, sp)))"
proof (cases "canPush l sp")
  case True
  then have sp: "stack_start l + 4 \<le> unat sp" "unat sp \<le> stack_end l"
    using canPush_iff [OF assms] by simp_all
  then have sub: "unat (sp - 4) = unat sp - 4"
    by (subst unat_sub_le) (simp_all add: word_le_nat_alt)
  moreover have "in_range pm (sp - 4) 4"
    using sp sub layout_bounds [OF assms] by (simp add: in_range_def)
  moreover have "validateStackAccess l (sp - 4) 4 s = (Inr (), s)" for s :: "phys_mem \<times> Address"
    using assms by (rule validateStackAccess_ok) (use sp sub in simp_all)
  ultimately show ?thesis
    using True sp by (simp add: pushWord_def vm_run mem_simps)
next
  case False
  then show ?thesis
    using canPush_iff [OF assms] by (simp add: pushWord_def vm_run)
qed

lemma popWord_eq:
  assumes "layout_ok (pm_size pm) l"
  shows "popWord l (pm, sp) =
    (if stack_start l \<le> unat sp \<and> unat sp + 4 \<le> stack_end l
     then (Inr (load_word (pm_memory pm) (unat sp)), (pm, sp + 4))
     else (Inl (VmException ''stack underflow''), (pm, sp)))"
proof (cases "canPop l sp")
  case True
  then have sp: "stack_start l \<le> unat sp" "unat sp + 4 \<le> stack_end l"
    using canPop_iff [OF assms] by simp_all
  moreover have "in_range pm sp 4"
    using sp layout_bounds [OF assms] by (simp add: in_range_def)
  moreover have "validateStackAccess l sp 4 s = (Inr (), s)" for s :: "phys_mem \<times> Address"
    using assms sp by (rule validateStackAccess_ok)
  ultimately show ?thesis
    using True by (simp add: popWord_def vm_run mem_simps)
next
  case False
  then show ?thesis
    using canPop_iff [OF assms] by (simp add: popWord_def vm_run)
qed

section \<open>The stack interface\<close>

text \<open>
  The contract of a bounded stack: while there is room a push puts the value on top, while it
  is not empty a pop returns the top, and at either end the operation throws and changes
  nothing.
\<close>

fun push_all :: "(Word \<Rightarrow> ('s, unit) vm) \<Rightarrow> Word list \<Rightarrow> ('s, unit) vm" where
  "push_all psh [] = vreturn ()"
| "push_all psh (v # vs) = vseq (psh v) (push_all psh vs)"

fun pop_many :: "('s, Word) vm \<Rightarrow> nat \<Rightarrow> ('s, Word list) vm" where
  "pop_many pp 0 = vreturn []"
| "pop_many pp (Suc n) = vbind pp (\<lambda>v. vbind (pop_many pp n) (\<lambda>vs. vreturn (v # vs)))"

locale word_stack =
  fixes psh :: "Word \<Rightarrow> ('s, unit) vm"
    and pp :: "('s, Word) vm"
    and contents :: "'s \<Rightarrow> Word list"
    and room :: "'s \<Rightarrow> nat"
    and invar :: "'s \<Rightarrow> bool"
  assumes push_ok: "invar s \<Longrightarrow> 0 < room s \<Longrightarrow> \<exists>s'. psh v s = (Inr (), s') \<and> invar s' \<and>
      contents s' = v # contents s \<and> room s' = room s - 1"
    and push_full: "invar s \<Longrightarrow> room s = 0 \<Longrightarrow> psh v s = (Inl (VmException ''stack overflow''), s)"
    and pop_ok: "invar s \<Longrightarrow> contents s = v # vs \<Longrightarrow> \<exists>s'. pp s = (Inr v, s') \<and> invar s' \<and>
      contents s' = vs \<and> room s' = room s + 1"
    and pop_empty: "invar s \<Longrightarrow> contents s = [] \<Longrightarrow> pp s = (Inl (VmException ''stack underflow''), s)"
begin

lemma push_all_ok:
  "invar s \<Longrightarrow> length vs \<le> room s \<Longrightarrow> \<exists>s'. push_all psh vs s = (Inr (), s') \<and> invar s' \<and>
     contents s' = rev vs @ contents s \<and> room s' = room s - length vs"
proof (induction vs arbitrary: s)
  case Nil
  then show ?case by (simp add: vm_run)
next
  case (Cons v vs)
  then obtain s1 where s1: "psh v s = (Inr (), s1)" "invar s1" "contents s1 = v # contents s"
    "room s1 = room s - 1"
    using push_ok [of s v] by auto
  with Cons.IH [of s1] Cons.prems show ?case by (auto simp: vm_run)
qed

lemma push_all_overflow:
  "invar s \<Longrightarrow> room s < length vs \<Longrightarrow>
     fst (push_all psh vs s) = Inl (VmException ''stack overflow'')"
proof (induction vs arbitrary: s)
  case Nil
  then show ?case by simp
next
  case (Cons v vs)
  show ?case
  proof (cases "room s = 0")
    case True
    with Cons.prems show ?thesis by (simp add: vm_run push_full)
  next
    case False
    with Cons.prems obtain s1 where "psh v s = (Inr (), s1)" "invar s1" "room s1 = room s - 1"
      using push_ok [of s v] by auto
    with Cons.IH [of s1] Cons.prems False show ?thesis by (simp add: vm_run)
  qed
qed

lemma pop_many_ok:
  "invar s \<Longrightarrow> contents s = vs @ ws \<Longrightarrow> \<exists>s'. pop_many pp (length vs) s = (Inr vs, s') \<and> invar s' \<and>
     contents s' = ws \<and> room s' = room s + length vs"
proof (induction vs arbitrary: s)
  case Nil
  then show ?case by (simp add: vm_run)
next
  case (Cons v vs)
  then obtain s1 where s1: "pp s = (Inr v, s1)" "invar s1" "contents s1 = vs @ ws"
    "room s1 = room s + 1"
    using pop_ok [of s v "vs @ ws"] by auto
  with Cons.IH [of s1] show ?case by (auto simp: vm_run)
qed

text \<open>Last in, first out, for any number of words that fit.\<close>

lemma push_all_pop_many:
  assumes "invar s" and "length vs \<le> room s"
  shows "\<exists>s'. vseq (push_all psh vs) (pop_many pp (length vs)) s = (Inr (rev vs), s') \<and>
    invar s' \<and> contents s' = contents s \<and> room s' = room s"
proof -
  obtain s1 where "push_all psh vs s = (Inr (), s1)" "invar s1"
    "contents s1 = rev vs @ contents s" "room s1 = room s - length vs"
    using push_all_ok [OF assms] by auto
  moreover from this obtain s2 where "pop_many pp (length (rev vs)) s1 = (Inr (rev vs), s2)"
    "invar s2" "contents s2 = contents s" "room s2 = room s1 + length (rev vs)"
    using pop_many_ok [of s1 "rev vs"] by blast
  ultimately show ?thesis using assms(2) by (simp add: vm_run)
qed

end

definition stack_contents :: "region_layout \<Rightarrow> phys_mem \<times> Address \<Rightarrow> Word list" where
  "stack_contents l = (\<lambda>(pm, sp). map (\<lambda>i. load_word (pm_memory pm) (unat sp + 4 * i))
     [0..<(stack_end l - unat sp) div 4])"

definition stack_room :: "region_layout \<Rightarrow> phys_mem \<times> Address \<Rightarrow> nat" where
  "stack_room l = (\<lambda>(pm, sp). (unat sp - stack_start l) div 4)"

definition stack_inv :: "region_layout \<Rightarrow> phys_mem \<times> Address \<Rightarrow> bool" where
  "stack_inv l = (\<lambda>(pm, sp). layout_ok (pm_size pm) l \<and> stack_start l \<le> unat sp \<and>
     unat sp \<le> stack_end l \<and> 4 dvd stack_end l - unat sp)"

lemma stack_contents_Cons:
  assumes "unat sp + 4 \<le> stack_end l" and "unat sp < 2 ^ 32 - 4"
  shows "stack_contents l (pm, sp) = load_word (pm_memory pm) (unat sp) # stack_contents l (pm, sp + 4)"
proof -
  have sp: "unat (sp + 4) = unat sp + 4"
    using assms(2) by (subst unat_add_u32) simp_all
  have "(stack_end l - unat sp) div 4 = Suc ((stack_end l - unat (sp + 4)) div 4)"
    using assms(1) sp by (simp add: div_eq_dividend_iff le_div_geq)
  then show ?thesis
    by (simp add: stack_contents_def sp map_upt_Suc algebra_simps del: upt_Suc)
qed

lemma stack_contents_store:
  assumes "n + 4 \<le> unat sp"
  shows "stack_contents l (pm\<lparr>pm_memory := store_word (pm_memory pm) n v\<rparr>, sp) =
    stack_contents l (pm, sp)"
  using assms by (simp add: stack_contents_def load_store_other)

interpretation stk: word_stack "pushWord l" "popWord l" "stack_contents l" "stack_room l" "stack_inv l"
  for l
proof unfold_locales
  fix s v
  assume inv: "stack_inv l s" and room: "0 < stack_room l s"
  obtain pm sp where s: "s = (pm, sp)" by (cases s)
  let ?s' = "(pm\<lparr>pm_memory := store_word (pm_memory pm) (unat sp - 4) v\<rparr>, sp - 4)"
  from inv room s have ok: "layout_ok (pm_size pm) l"
    and sp: "stack_start l + 4 \<le> unat sp" "unat sp \<le> stack_end l" "4 dvd stack_end l - unat sp"
    by (auto simp: stack_inv_def stack_room_def div_greater_zero_iff)
  have sub: "unat (sp - 4) = unat sp - 4"
    using sp by (subst unat_sub_le) (simp_all add: word_le_nat_alt)
  have "4 dvd (stack_end l - unat sp) + 4" using sp(3) by (rule dvd_add) simp
  moreover have "stack_end l - (unat sp - 4) = (stack_end l - unat sp) + 4" using sp by simp
  ultimately have "4 dvd stack_end l - (unat sp - 4)" by (simp only:)
  then have "stack_inv l ?s'"
    using ok sp(2) sub diff_le_mono [OF sp(1), of 4] by (simp add: stack_inv_def)
  moreover have "unat sp - 4 < 4294967292"
    using sp(1) unat_u32_lt [of sp] by linarith
  then have "stack_contents l ?s' = v # stack_contents l s"
    using sp sub stack_contents_Cons [of "sp - 4" l]
    by (simp add: s load_store_same stack_contents_store)
  moreover have "stack_room l ?s' = stack_room l s - 1"
    using sp sub by (simp add: stack_room_def s le_div_geq)
  ultimately show "\<exists>s'. pushWord l v s = (Inr (), s') \<and> stack_inv l s' \<and>
      stack_contents l s' = v # stack_contents l s \<and> stack_room l s' = stack_room l s - 1"
    using ok sp by (auto simp: s pushWord_eq)
next
  fix s v
  assume "stack_inv l s" and "stack_room l s = 0"
  then show "pushWord l v s = (Inl (VmException ''stack overflow''), s)"
    by (auto simp: stack_inv_def stack_room_def pushWord_eq div_eq_0_iff split: prod.splits)
next
  fix s v vs
  assume inv: "stack_inv l s" and c: "stack_contents l s = v # vs"
  obtain pm sp where s: "s = (pm, sp)" by (cases s)
  from inv s have ok: "layout_ok (pm_size pm) l" and sp: "stack_start l \<le> unat sp"
    "4 dvd stack_end l - unat sp"
    by (auto simp: stack_inv_def)
  from c s have e: "unat sp + 4 \<le> stack_end l"
    by (auto simp: stack_contents_def upt_eq_Cons_conv)
  have lt: "unat sp < 2 ^ 32 - 4" using e layout_bounds [OF ok] by simp
  then have add: "unat (sp + 4) = unat sp + 4" by (subst unat_add_u32) simp_all
  have "4 dvd stack_end l - unat sp - 4" by (rule dvd_diff_nat [OF sp(2)]) simp
  then have "stack_inv l (pm, sp + 4)" using ok sp e add by (simp add: stack_inv_def)
  moreover have "stack_room l (pm, sp + 4) = stack_room l s + 1"
    using sp(1) add by (simp add: stack_room_def s le_div_geq)
  ultimately show "\<exists>s'. popWord l s = (Inr v, s') \<and> stack_inv l s' \<and>
      stack_contents l s' = vs \<and> stack_room l s' = stack_room l s + 1"
    using c ok sp e stack_contents_Cons [OF e lt, of pm] by (auto simp: s popWord_eq)
next
  fix s
  assume "stack_inv l s" and "stack_contents l s = []"
  then show "popWord l s = (Inl (VmException ''stack underflow''), s)"
    by (auto simp: stack_inv_def stack_contents_def popWord_eq div_eq_0_iff elim!: dvdE split: prod.splits)
qed

lemma stack_pointer_unique:
  assumes "stack_inv l (pm, sp)" and "stack_inv l (pm', sp')"
    and "stack_room l (pm', sp') = stack_room l (pm, sp)"
  shows "sp' = sp"
proof -
  have div4: "a = b" if "a div 4 = b div 4" and "a + 4 * m = b + 4 * n" for a b m n :: nat
    using that by (metis mod_mult_self2 mult_div_mod_eq)
  from assms obtain m n where "stack_end l - unat sp = 4 * m" "stack_end l - unat sp' = 4 * n"
    "stack_start l \<le> unat sp" "unat sp \<le> stack_end l" "stack_start l \<le> unat sp'" "unat sp' \<le> stack_end l"
    unfolding stack_inv_def prod.case dvd_def by blast
  then have "unat sp' - stack_start l = unat sp - stack_start l"
    using assms(3) div4 [of "unat sp' - stack_start l" "unat sp - stack_start l" n m]
    by (simp add: stack_room_def)
  then have "unat sp' = unat sp"
    using \<open>stack_start l \<le> unat sp\<close> \<open>stack_start l \<le> unat sp'\<close> by simp
  then show ?thesis by (simp only: word_unat_eq_iff)
qed

section \<open>Loading and fetching code\<close>

text \<open>In 32 bits the address of a code word is the obvious one, modulo the word size.\<close>

lemma codeWordAddress_wraps: "codeWordAddress l pc = codeAddress l + 4 * pc"
proof -
  have "unat (ucast pc * 4 :: u64) = unat pc * 4"
    using unat_u32_lt [of pc] by (simp add: unat_word_ariths del: unat_u32_lt)
  then have "unat (ucast (codeAddress l) + ucast pc * 4 :: u64) = unat (codeAddress l) + unat pc * 4"
    using unat_u32_lt [of pc] unat_u32_lt [of "codeAddress l"]
    by (simp add: unat_add_u64 del: unat_u32_lt)
  then have "word_of_nat (unat (ucast (codeAddress l) + ucast pc * 4 :: u64)) = codeAddress l + 4 * pc"
    by (simp add: mult.commute)
  then show ?thesis by (simp add: codeWordAddress_def)
qed

lemma codeWordAddress_eq:
  assumes "layout_ok psize l" and "code_start l + 4 * unat pc < 2 ^ 32"
  shows "unat (codeWordAddress l pc) = code_start l + 4 * unat pc"
proof -
  have "unat (4 * pc) = 4 * unat pc"
    using assms(2) by (simp add: unat_word_ariths)
  then show ?thesis
    using assms layout_addresses(1) [OF assms(1)]
    by (simp add: codeWordAddress_wraps unat_add_u32)
qed

lemma codeWordAddress_mod:
  assumes "layout_ok psize l"
  shows "unat (codeWordAddress l pc) = (code_start l + 4 * unat pc) mod 2 ^ 32"
  using layout_addresses(1) [OF assms] by (simp add: codeWordAddress_wraps unat_word_ariths mod_simps)

text \<open>Every word of the memory at a distance of whole words from the code is at some program counter.\<close>

lemma every_word_has_pc:
  assumes "layout_ok psize l" and "a < 2 ^ 32" and "a mod 4 = code_start l mod 4"
  shows "\<exists>pc :: Address. (code_start l + 4 * unat pc) mod 2 ^ 32 = a"
proof -
  define d where "d = a + 2 ^ 32 - code_start l"
  have c: "code_start l < 2 ^ 32" using layout_bounds [OF assms(1)] by (simp add: stack_end_def)
  then have d: "code_start l + d = a + 2 ^ 32" by (simp add: d_def)
  have "(a + 4 * 2 ^ 30) mod 4 = a mod 4" by (rule mod_mult_self2)
  with d assms(3) have "(code_start l + d) mod 4 = code_start l mod 4" by simp
  then have "d mod 4 = 0" by presburger
  then obtain n where n: "d = 4 * n" by auto
  have "unat (of_nat n :: Address) = n mod 2 ^ 32" by (simp add: unat_of_nat)
  then have "(code_start l + 4 * unat (of_nat n :: Address)) mod 2 ^ 32 = (code_start l + 4 * n) mod 2 ^ 32"
    by (metis mod_add_right_eq mod_mult_right_eq)
  also have "\<dots> = a" using d n assms(2) by simp
  finally show ?thesis by blast
qed

lemma loadCode_from_seq:
  "loadCode_from l i ws = write_seq writeWord (map (\<lambda>(k, w). (codeWordAddress l (word_of_nat k), w)) (enumerate i ws))"
  by (induction ws arbitrary: i) (simp_all add: writeCodeWord_def)

lemma write_seq_sizes:
  "write_seq writeWord avs pm = (r, pm') \<Longrightarrow>
     pm_size pm' = pm_size pm \<and> nextFreeAddress pm' = nextFreeAddress pm"
proof (induction avs arbitrary: pm)
  case Nil
  then show ?case by (simp add: vm_run)
next
  case (Cons av avs)
  then show ?case
    by (cases av; cases "in_range pm (fst av) 4") (fastforce simp: vm_run mem_simps)+
qed

lemma write_seq_frame:
  "write_seq writeWord avs pm = (r, pm') \<Longrightarrow>
    \<forall>(a, v) \<in> set avs. j < unat a \<or> unat a + 4 \<le> j \<Longrightarrow> pm_memory pm' j = pm_memory pm j"
proof (induction avs arbitrary: pm)
  case Nil
  then show ?case by (simp add: vm_run)
next
  case (Cons av avs)
  obtain a v where av: "av = (a, v)" by (cases av)
  show ?case
  proof (cases "in_range pm a 4")
    case True
    with Cons.prems av show ?thesis
      using Cons.IH [of "pm\<lparr>pm_memory := store_word (pm_memory pm) (unat a) v\<rparr>"]
      by (simp add: vm_run mem_simps store_word_other)
  next
    case False
    then show ?thesis using Cons.prems(1) av by (auto simp: vm_run mem_simps)
  qed
qed

text \<open>Loading a program that fills the code segment makes every word of it fetchable.\<close>

lemma loadCode_ok:
  assumes ok: "layout_ok (pm_size pm) l" and len: "4 * length code \<le> unat (ml_codeSize l)"
  shows "\<exists>pm'. loadCode l code pm = (Inr (), pm') \<and>
    (\<forall>i < length code. readCodeWord l (word_of_nat i) pm' = (Inr (code ! i), pm')) \<and>
    (\<forall>j. j < code_start l \<or> code_start l + 4 * length code \<le> j \<longrightarrow> pm_memory pm' j = pm_memory pm j) \<and>
    pm_size pm' = pm_size pm \<and> nextFreeAddress pm' = nextFreeAddress pm"
proof -
  let ?avs = "map (\<lambda>(k, w). (codeWordAddress l (word_of_nat k), w)) (enumerate 0 code)"
  have bound: "code_start l + 4 * i + 4 \<le> unat (pm_size pm)" "unat (pm_size pm) < 2 ^ 32"
    if "i < length code" for i
    using that len layout_bounds [OF ok] by (simp_all add: stack_end_def)
  have addr: "unat (codeWordAddress l (word_of_nat i)) = code_start l + 4 * i" if "i < length code" for i
  proof -
    have "unat (word_of_nat i :: Address) = i"
      using bound [OF that] by (simp add: unat_of_nat)
    then show ?thesis using bound [OF that] codeWordAddress_eq [OF ok, of "word_of_nat i"] by simp
  qed
  have mem: "\<exists>i < length code. a = codeWordAddress l (word_of_nat i) \<and> v = code ! i"
    if "(a, v) \<in> set ?avs" for a v
    using that by (auto simp: in_set_enumerate_eq)
  have valid: "in_range pm a 4" if "(a, v) \<in> set ?avs" for a v
    using mem [OF that] addr bound by (auto simp: in_range_def)
  have apart: "sorted_wrt words_apart (map fst ?avs)"
    by (auto simp: sorted_wrt_iff_nth_less nth_enumerate_eq words_apart_def addr)
  have "\<exists>m'. write_seq writeWord ?avs pm = (Inr (), m') \<and>
      (\<lambda>a. in_range m' a 4) = (\<lambda>a. in_range pm a 4) \<and> (\<forall>(a, v) \<in> set ?avs. phys_word_at m' a = v) \<and>
      (\<forall>b. (\<forall>a \<in> fst ` set ?avs. words_apart a b) \<longrightarrow> phys_word_at m' b = phys_word_at pm b)"
    using valid apart by (rule phys.write_seq_word_at)
  then obtain pm' where pm': "write_seq writeWord ?avs pm = (Inr (), pm')"
    "(\<lambda>a. in_range pm' a 4) = (\<lambda>a. in_range pm a 4)" "\<forall>(a, v) \<in> set ?avs. phys_word_at pm' a = v"
    by blast
  have "readCodeWord l (word_of_nat i) pm' = (Inr (code ! i), pm')" if "i < length code" for i
  proof -
    have i: "(codeWordAddress l (word_of_nat i), code ! i) \<in> set ?avs"
      using that by (force simp: in_set_enumerate_eq)
    then have "in_range pm' (codeWordAddress l (word_of_nat i)) 4"
      using valid [OF i] pm'(2) by meson
    then show ?thesis using phys.read_valid pm'(3) i by (auto simp: readCodeWord_def)
  qed
  moreover have "pm_memory pm' j = pm_memory pm j"
    if "j < code_start l \<or> code_start l + 4 * length code \<le> j" for j
  proof -
    have "j < unat a \<or> unat a + 4 \<le> j" if av: "(a, v) \<in> set ?avs" for a v
      using mem [OF av] addr \<open>j < code_start l \<or> code_start l + 4 * length code \<le> j\<close> by auto
    then show ?thesis using write_seq_frame [OF pm'(1), of j] by blast
  qed
  moreover have "loadCode l code pm = (Inr (), pm')"
    using pm'(1) by (simp add: loadCode_def loadCode_from_seq)
  moreover have "pm_size pm' = pm_size pm \<and> nextFreeAddress pm' = nextFreeAddress pm"
    using pm'(1) by (rule write_seq_sizes)
  ultimately show ?thesis by blast
qed

section \<open>Properties\<close>

text \<open>The layout of the stack tests (\<^verbatim>\<open>tests/memory_test.cpp\<close>), used by the witnesses.\<close>

definition sample_layout :: region_layout where
  "sample_layout = MemoryRegionLayout
    \<lparr>ml_codeSize := 64, ml_dataOffset := 64, ml_dataSize := 64,
     ml_stackOffset := 128, ml_stackSize := 256\<rparr>"

lemma sample_layout_ok: "layout_ok 65536 sample_layout"
  by (simp add: layout_ok_def sample_layout_def MemoryRegionLayout_def)

lemmas sample_layout_simps =
  sample_layout_def MemoryRegionLayout_def code_start_def data_start_def stack_start_def stack_end_def

text \<open>C23: Within the data segment a word that was written is read back, words apart from it keep their
  value, and no byte outside the data segment changes.\<close>

theorem data_word_write_read:
  assumes "layout_ok (pm_size pm) l" and "unat off + 4 \<le> unat (ml_dataSize l)"
  shows "\<exists>pm'. writeDataWord l off v pm = (Inr (), pm') \<and> readDataWord l off pm' = (Inr v, pm') \<and>
    (\<forall>off'. words_apart off off' \<longrightarrow> fst (readDataWord l off' pm') = fst (readDataWord l off' pm)) \<and>
    (\<forall>j. j < data_start l \<or> data_start l + unat (ml_dataSize l) \<le> j \<longrightarrow>
       pm_memory pm' j = pm_memory pm j)"
proof -
  let ?pm' = "pm\<lparr>pm_memory := store_word (pm_memory pm) (data_start l + unat off) v\<rparr>"
  have "fst (readDataWord l off' ?pm') = fst (readDataWord l off' pm)" if "words_apart off off'" for off'
  proof (cases "unat off' + 4 \<le> unat (ml_dataSize l)")
    case True
    with assms that show ?thesis by (auto simp: mem_simps words_apart_def load_store_other)
  qed (simp add: mem_simps)
  moreover have "pm_memory ?pm' j = pm_memory pm j"
    if "j < data_start l \<or> data_start l + unat (ml_dataSize l) \<le> j" for j
    using that assms by (auto intro: store_word_other)
  ultimately show ?thesis
    using assms by (simp add: mem_simps load_store_same)
qed

theorem data_word_write_read_witness:
  "\<exists>pm'. writeDataWord sample_layout 4 77 (PhysicalMemory 65536) = (Inr (), pm') \<and>
     readDataWord sample_layout 4 pm' = (Inr 77, pm') \<and> pm_memory pm' 63 = 0"
  using data_word_write_read [of "PhysicalMemory 65536" sample_layout 4 77] sample_layout_ok
  by (auto simp: PhysicalMemory_def sample_layout_simps)

text \<open>A data access that does not lie wholly in the data segment throws the segment error and
  changes nothing, in whatever state the layout and the memory are.\<close>

lemma data_segment_is_checked:
  assumes "unat (ml_dataSize l) < unat off + 4"
  shows "readDataWord l off pm = (Inl (segment_error ''data'' off), pm) \<and>
    writeDataWord l off v pm = (Inl (segment_error ''data'' off), pm)"
  using assms by (simp add: mem_simps)

theorem data_segment_is_checked_witness:
  "fst (readDataWord sample_layout 61 (PhysicalMemory 65536)) = Inl (segment_error ''data'' 61)"
  using data_segment_is_checked [of sample_layout 61 "PhysicalMemory 65536"]
  by (simp add: sample_layout_simps)

text \<open>C22: The stack is last in, first out for any number of words that fit: pushing them and popping as
  many returns them in reverse order and leaves the stack as it was.\<close>

theorem stack_lifo:
  assumes "stack_inv l (pm, sp)" and "length vs \<le> stack_room l (pm, sp)"
  shows "\<exists>pm'. vseq (push_all (pushWord l) vs) (pop_many (popWord l) (length vs)) (pm, sp)
      = (Inr (rev vs), (pm', sp)) \<and>
    stack_contents l (pm', sp) = stack_contents l (pm, sp)"
proof -
  obtain pm' sp' where "vseq (push_all (pushWord l) vs) (pop_many (popWord l) (length vs)) (pm, sp)
      = (Inr (rev vs), (pm', sp'))" "stack_inv l (pm', sp')"
    "stack_contents l (pm', sp') = stack_contents l (pm, sp)"
    "stack_room l (pm', sp') = stack_room l (pm, sp)"
    using stk.push_all_pop_many [OF assms] by (metis surj_pair)
  moreover from this have "sp' = sp" using assms(1) stack_pointer_unique by metis
  ultimately show ?thesis by auto
qed

theorem stack_lifo_witness:
  "stack_inv sample_layout (PhysicalMemory 65536, 380) \<and>
   (\<exists>pm'. vseq (push_all (pushWord sample_layout) [7, 8, 9]) (pop_many (popWord sample_layout) 3)
      (PhysicalMemory 65536, 380) = (Inr [9, 8, 7], (pm', 380)))"
proof -
  have inv: "stack_inv sample_layout (PhysicalMemory 65536, 380)"
    using sample_layout_ok by (simp add: stack_inv_def PhysicalMemory_def sample_layout_simps)
  have "length [7, 8, 9 :: Word] \<le> stack_room sample_layout (PhysicalMemory 65536, 380)"
    by (simp add: stack_room_def sample_layout_simps)
  from stack_lifo [OF inv this] inv show ?thesis by (auto simp: numeral_3_eq_3)
qed

text \<open>A stack that has not enough room for the words pushed ends in the stack overflow exception, and
  a push at the limit changes neither the memory nor the stack pointer.\<close>

lemma stack_overflow_detected:
  assumes "stack_inv l s" and "stack_room l s < length vs"
  shows "fst (push_all (pushWord l) vs s) = Inl (VmException ''stack overflow'') \<and>
    (stack_room l s = 0 \<longrightarrow> snd (push_all (pushWord l) vs s) = s)"
proof -
  have "snd (push_all (pushWord l) vs s) = s" if "stack_room l s = 0"
    using that assms stk.push_full [of l s] by (cases vs) (simp_all add: vm_run)
  then show ?thesis using stk.push_all_overflow [OF assms] by simp
qed

theorem stack_overflow_detected_witness:
  "fst (push_all (pushWord sample_layout) (replicate 64 5) (PhysicalMemory 65536, 380))
     = Inl (VmException ''stack overflow'')"
proof -
  have "stack_inv sample_layout (PhysicalMemory 65536, 380)"
    using sample_layout_ok by (simp add: stack_inv_def PhysicalMemory_def sample_layout_simps)
  moreover have "stack_room sample_layout (PhysicalMemory 65536, 380) < length (replicate 64 (5 :: Word))"
    by (simp only: length_replicate) (simp add: stack_room_def sample_layout_simps)
  ultimately show ?thesis using stack_overflow_detected by blast
qed

text \<open>Loading a program that fits in the code segment makes exactly its words fetchable, in order,
  and changes no byte outside the words loaded.\<close>

lemma load_code_fetch:
  assumes "layout_ok (pm_size pm) l" and "4 * length code \<le> unat (ml_codeSize l)"
  shows "\<exists>pm'. loadCode l code pm = (Inr (), pm') \<and>
    (\<forall>i < length code. readCodeWord l (word_of_nat i) pm' = (Inr (code ! i), pm')) \<and>
    (\<forall>j. j < code_start l \<or> code_start l + 4 * length code \<le> j \<longrightarrow> pm_memory pm' j = pm_memory pm j)"
  using loadCode_ok [OF assms] by blast

theorem load_code_fetch_witness:
  "\<exists>pm'. loadCode sample_layout [0x17000000, 42] (PhysicalMemory 65536) = (Inr (), pm') \<and>
     readCodeWord sample_layout 1 pm' = (Inr 42, pm')"
  using load_code_fetch [of "PhysicalMemory 65536" sample_layout "[0x17000000, 42]"] sample_layout_ok
  by (auto simp: PhysicalMemory_def sample_layout_simps less_Suc_eq)

end
