(* ===== verification/Instructions.thy ===== *)
theory Instructions
  imports Process_Memory
begin

text \<open>
  The instruction set (\<^verbatim>\<open>include/vm/isa\<close>, \<^verbatim>\<open>src/vm/isa\<close>): one definition per handler of
  \<^verbatim>\<open>arithmetic_handlers.cpp\<close>, \<^verbatim>\<open>logic_handlers.cpp\<close>, \<^verbatim>\<open>jump_handlers.cpp\<close>,
  \<^verbatim>\<open>memory_handlers.cpp\<close>, \<^verbatim>\<open>stack_handlers.cpp\<close>, \<^verbatim>\<open>control_handlers.cpp\<close>, the helpers they
  share, and the registry that dispatches on the opcode. \<^verbatim>\<open>IInstructionHandler\<close> is the locale
  \<open>instruction_handler\<close>, interpreted on the registry.
\<close>

section \<open>Execution context\<close>

datatype execution_result = ER_Continue | ER_Halt | ER_Yield | ER_Jump | ER_Error

text \<open>
  \<^verbatim>\<open>struct ExecutionContext\<close>: references to the processor context and to the memory of the
  process (its layout and the physical memory behind it), and the pointer to the process
  control block, of which the handlers touch only \<^verbatim>\<open>lastError_\<close>: \<open>None\<close> is the null pointer.
\<close>

record exec_context =
  ec_cpu :: cpu_context
  ec_memory :: region_layout
  ec_phys :: phys_mem
  ec_process :: "string option option"

definition ec_registers :: "exec_context \<Rightarrow> register_file" where
  "ec_registers c = cx_registers (ec_cpu c)"

definition with_registers :: "(register_file \<Rightarrow> register_file) \<Rightarrow> exec_context \<Rightarrow> exec_context" where
  "with_registers f c = c\<lparr>ec_cpu := (ec_cpu c)\<lparr>cx_registers := f (cx_registers (ec_cpu c))\<rparr>\<rparr>"

type_synonym handler = "decoded_instruction \<Rightarrow> (exec_context, execution_result) vm"

text \<open>\<^verbatim>\<open>ctx.cpu.registers().get\<close>, \<^verbatim>\<open>set\<close> and the operations that cannot fail.\<close>

definition get_register :: "u8 \<Rightarrow> (exec_context, Word) vm" where
  "get_register index = vread (\<lambda>c. reg_get (ec_registers c) index)"

definition set_register :: "u8 \<Rightarrow> Word \<Rightarrow> (exec_context, unit) vm" where
  "set_register index value =
    vupdate (\<lambda>c. case reg_set index value (ec_registers c) of
                   Inl e \<Rightarrow> Inl e | Inr r \<Rightarrow> Inr (with_registers (\<lambda>_. r) c))"

definition on_registers :: "(register_file \<Rightarrow> register_file) \<Rightarrow> (exec_context, unit) vm" where
  "on_registers f = vmodify (with_registers f)"

text \<open>\<^verbatim>\<open>ctx.memory\<close>: an operation of the process memory on the physical memory.\<close>

definition on_memory :: "(region_layout \<Rightarrow> (phys_mem, 'a) vm) \<Rightarrow> (exec_context, 'a) vm" where
  "on_memory m = (\<lambda>c. case m (ec_memory c) (ec_phys c) of (r, pm) \<Rightarrow> (r, c\<lparr>ec_phys := pm\<rparr>))"

text \<open>A stack operation with \<^verbatim>\<open>ctx.cpu.registers().sp()\<close> passed by reference.\<close>

definition on_stack :: "(region_layout \<Rightarrow> (phys_mem \<times> Address, 'a) vm) \<Rightarrow> (exec_context, 'a) vm" where
  "on_stack m = (\<lambda>c. case m (ec_memory c) (ec_phys c, rf_sp (ec_registers c)) of
     (r, (pm, sp)) \<Rightarrow> (r, with_registers (setSp sp) (c\<lparr>ec_phys := pm\<rparr>)))"

section \<open>Helpers\<close>

definition readOperand :: "decoded_instruction \<Rightarrow> (exec_context, Word) vm" where
  "readOperand i =
    (if d_rs2 i = kImmediateMarker then vreturn (scast (d_imm i)) else get_register (d_rs2 i))"

fun takeJump :: "cpu_flags \<Rightarrow> opcode \<Rightarrow> bool" where
  "takeJump flags OP_JE = fl_zero flags"
| "takeJump flags OP_JNE = (\<not> fl_zero flags)"
| "takeJump flags OP_JG = (\<not> fl_zero flags \<and> \<not> fl_sign flags)"
| "takeJump flags OP_JGE = (\<not> fl_sign flags)"
| "takeJump flags OP_JL = fl_sign flags"
| "takeJump flags OP_JLE = (fl_zero flags \<or> fl_sign flags)"
| "takeJump flags _ = False"

definition setExecutionError :: "string \<Rightarrow> (exec_context, unit) vm" where
  "setExecutionError message =
    vmodify (\<lambda>c. case ec_process c of
                   None \<Rightarrow> c | Some _ \<Rightarrow> c\<lparr>ec_process := Some (Some message)\<rparr>)"

section \<open>Arithmetic handlers\<close>

text \<open>The common end of a handler: \<^verbatim>\<open>advancePc(); return ExecutionResult::Continue;\<close>.\<close>

definition advance_and_continue :: "(exec_context, execution_result) vm" where
  "advance_and_continue = vseq (on_registers advancePc) (vreturn ER_Continue)"

definition handle_ADD :: handler where
  "handle_ADD i =
    vbind (get_register (d_rs1 i)) (\<lambda>lhs.
    vbind (readOperand i) (\<lambda>rhs.
    let result = lhs + rhs in
    vseq (set_register (d_rd i) result)
    (vseq (on_registers (updateFlags result)) advance_and_continue)))"

definition handle_SUB :: handler where
  "handle_SUB i =
    vbind (get_register (d_rs1 i)) (\<lambda>lhs.
    vbind (readOperand i) (\<lambda>rhs.
    let result = lhs - rhs in
    vseq (set_register (d_rd i) result)
    (vseq (on_registers (updateFlagsSub lhs rhs result)) advance_and_continue)))"

definition handle_MUL :: handler where
  "handle_MUL i =
    vbind (get_register (d_rs1 i)) (\<lambda>lhs.
    vbind (readOperand i) (\<lambda>rhs.
    let result = lhs * rhs in
    vseq (set_register (d_rd i) result)
    (vseq (on_registers (updateFlags result)) advance_and_continue)))"

definition handle_DIV :: handler where
  "handle_DIV i =
    vbind (get_register (d_rs1 i)) (\<lambda>lhs.
    vbind (readOperand i) (\<lambda>rhs.
    if rhs = 0 then vseq (setExecutionError ''division by zero'') (vreturn ER_Error)
    else let result = lhs div rhs in
    vseq (set_register (d_rd i) result)
    (vseq (on_registers (updateFlags result)) advance_and_continue)))"

definition handle_MOD :: handler where
  "handle_MOD i =
    vbind (get_register (d_rs1 i)) (\<lambda>lhs.
    vbind (readOperand i) (\<lambda>rhs.
    if rhs = 0 then vseq (setExecutionError ''modulo by zero'') (vreturn ER_Error)
    else let result = lhs mod rhs in
    vseq (set_register (d_rd i) result)
    (vseq (on_registers (updateFlags result)) advance_and_continue)))"

definition handle_INC :: handler where
  "handle_INC i =
    vbind (get_register (d_rd i)) (\<lambda>old.
    let value = old + 1 in
    vseq (set_register (d_rd i) value)
    (vseq (on_registers (updateFlags value)) advance_and_continue))"

definition handle_DEC :: handler where
  "handle_DEC i =
    vbind (get_register (d_rd i)) (\<lambda>oldValue.
    let value = oldValue - 1 in
    vseq (set_register (d_rd i) value)
    (vseq (on_registers (updateFlagsSub oldValue 1 value)) advance_and_continue))"

section \<open>Logic handlers\<close>

definition handle_AND :: handler where
  "handle_AND i =
    vbind (get_register (d_rs1 i)) (\<lambda>lhs.
    vbind (readOperand i) (\<lambda>rhs.
    let result = and lhs rhs in
    vseq (set_register (d_rd i) result)
    (vseq (on_registers (updateFlags result)) advance_and_continue)))"

definition handle_OR :: handler where
  "handle_OR i =
    vbind (get_register (d_rs1 i)) (\<lambda>lhs.
    vbind (readOperand i) (\<lambda>rhs.
    let result = or lhs rhs in
    vseq (set_register (d_rd i) result)
    (vseq (on_registers (updateFlags result)) advance_and_continue)))"

definition handle_XOR :: handler where
  "handle_XOR i =
    vbind (get_register (d_rs1 i)) (\<lambda>lhs.
    vbind (readOperand i) (\<lambda>rhs.
    let result = xor lhs rhs in
    vseq (set_register (d_rd i) result)
    (vseq (on_registers (updateFlags result)) advance_and_continue)))"

definition handle_NOT :: handler where
  "handle_NOT i =
    vbind (get_register (d_rd i)) (\<lambda>old.
    let value = not old in
    vseq (set_register (d_rd i) value)
    (vseq (on_registers (updateFlags value)) advance_and_continue))"

definition handle_CMP :: handler where
  "handle_CMP i =
    vbind (get_register (d_rs1 i)) (\<lambda>lhs.
    vbind (readOperand i) (\<lambda>rhs.
    let result = lhs - rhs in
    vseq (on_registers (updateFlagsSub lhs rhs result)) advance_and_continue))"

section \<open>Jump handlers\<close>

definition handle_JMP :: handler where
  "handle_JMP i = vseq (on_registers (setPc (scast (d_imm i)))) (vreturn ER_Jump)"

definition handle_conditional_jump :: handler where
  "handle_conditional_jump i =
    vbind (vgets (\<lambda>c. rf_flags (ec_registers c))) (\<lambda>flags.
      if takeJump flags (d_opcode i)
      then vseq (on_registers (setPc (scast (d_imm i)))) (vreturn ER_Jump)
      else advance_and_continue)"

section \<open>Memory handlers\<close>

definition handle_MOV :: handler where
  "handle_MOV i =
    vbind (readOperand i) (\<lambda>value.
    vseq (set_register (d_rd i) value) advance_and_continue)"

definition handle_LOAD :: handler where
  "handle_LOAD i =
    (let offset = scast (d_imm i) in
     vbind (on_memory (\<lambda>l. readDataWord l offset)) (\<lambda>value.
     vseq (set_register (d_rd i) value) advance_and_continue))"

definition handle_STORE :: handler where
  "handle_STORE i =
    (let offset = scast (d_imm i) in
     vbind (get_register (d_rd i)) (\<lambda>value.
     vseq (on_memory (\<lambda>l. writeDataWord l offset value)) advance_and_continue))"

section \<open>Stack handlers\<close>

text \<open>\<^verbatim>\<open>catch\<close> records the message and returns \<^verbatim>\<open>Error\<close>: the code after the \<^verbatim>\<open>try\<close> is not reached.\<close>

definition try_stack ::
  "(exec_context, unit) vm \<Rightarrow> (exec_context, execution_result) vm \<Rightarrow> (exec_context, execution_result) vm" where
  "try_stack body rest =
    vbind (vcatch (vseq body (vreturn True))
            (\<lambda>what. vseq (setExecutionError what) (vreturn False)))
      (\<lambda>completed. if completed then rest else vreturn ER_Error)"

definition handle_PUSH :: handler where
  "handle_PUSH i =
    vbind (readOperand i) (\<lambda>value.
      try_stack (on_stack (\<lambda>l. pushWord l value)) advance_and_continue)"

definition handle_POP :: handler where
  "handle_POP i =
    try_stack (vbind (on_stack popWord) (\<lambda>value. set_register (d_rd i) value))
      advance_and_continue"

definition handle_RET :: handler where
  "handle_RET i =
    try_stack (vbind (on_stack popWord) (\<lambda>returnPc. on_registers (setPc returnPc)))
      (vreturn ER_Jump)"

section \<open>Control handlers\<close>

definition handle_NOP :: handler where
  "handle_NOP i = advance_and_continue"

definition handle_HALT :: handler where
  "handle_HALT i =
    vseq (vmodify (\<lambda>c. c\<lparr>ec_cpu := setHalted True (ec_cpu c)\<rparr>)) (vreturn ER_Halt)"

section \<open>Registry\<close>

type_synonym handler_map = "opcode \<rightharpoonup> handler"

definition registerArithmeticHandlers :: "handler_map \<Rightarrow> handler_map" where
  "registerArithmeticHandlers handlers = handlers
    (OP_ADD \<mapsto> handle_ADD, OP_SUB \<mapsto> handle_SUB, OP_MUL \<mapsto> handle_MUL, OP_DIV \<mapsto> handle_DIV,
     OP_MOD \<mapsto> handle_MOD, OP_INC \<mapsto> handle_INC, OP_DEC \<mapsto> handle_DEC)"

definition registerLogicHandlers :: "handler_map \<Rightarrow> handler_map" where
  "registerLogicHandlers handlers = handlers
    (OP_AND \<mapsto> handle_AND, OP_OR \<mapsto> handle_OR, OP_XOR \<mapsto> handle_XOR, OP_NOT \<mapsto> handle_NOT,
     OP_CMP \<mapsto> handle_CMP)"

definition registerJumpHandlers :: "handler_map \<Rightarrow> handler_map" where
  "registerJumpHandlers handlers = handlers
    (OP_JMP \<mapsto> handle_JMP, OP_JE \<mapsto> handle_conditional_jump, OP_JNE \<mapsto> handle_conditional_jump,
     OP_JG \<mapsto> handle_conditional_jump, OP_JGE \<mapsto> handle_conditional_jump,
     OP_JL \<mapsto> handle_conditional_jump, OP_JLE \<mapsto> handle_conditional_jump)"

definition registerMemoryHandlers :: "handler_map \<Rightarrow> handler_map" where
  "registerMemoryHandlers handlers = handlers
    (OP_MOV \<mapsto> handle_MOV, OP_LOAD \<mapsto> handle_LOAD, OP_STORE \<mapsto> handle_STORE)"

definition registerStackHandlers :: "handler_map \<Rightarrow> handler_map" where
  "registerStackHandlers handlers = handlers
    (OP_PUSH \<mapsto> handle_PUSH, OP_POP \<mapsto> handle_POP, OP_RET \<mapsto> handle_RET)"

definition registerControlHandlers :: "handler_map \<Rightarrow> handler_map" where
  "registerControlHandlers handlers = handlers(OP_NOP \<mapsto> handle_NOP, OP_HALT \<mapsto> handle_HALT)"

definition default_handlers :: handler_map where
  "default_handlers =
    registerControlHandlers (registerStackHandlers (registerMemoryHandlers (registerJumpHandlers
      (registerLogicHandlers (registerArithmeticHandlers Map.empty)))))"

definition registry_execute :: handler where
  "registry_execute i =
    (case default_handlers (d_opcode i) of
       None \<Rightarrow> vthrow (VmException ''unknown opcode'')
     | Some handler \<Rightarrow> handler i)"

section \<open>What a handler may change\<close>

text \<open>
  The frame of a handler: the layout, the size of the memory, the allocator and the scheduling
  fields stay, registers stay sixteen, and with a well-formed layout only bytes of the data
  and stack segments of the process are written.
\<close>

definition ctx_frame :: "exec_context \<Rightarrow> exec_context \<Rightarrow> bool" where
  "ctx_frame c c' \<longleftrightarrow>
    ec_memory c' = ec_memory c \<and>
    pm_size (ec_phys c') = pm_size (ec_phys c) \<and>
    nextFreeAddress (ec_phys c') = nextFreeAddress (ec_phys c) \<and>
    cx_timeSliceLeft (ec_cpu c') = cx_timeSliceLeft (ec_cpu c) \<and>
    cx_shouldYield (ec_cpu c') = cx_shouldYield (ec_cpu c) \<and>
    (cx_halted (ec_cpu c) \<longrightarrow> cx_halted (ec_cpu c')) \<and>
    (regs_ok (ec_registers c) \<longrightarrow> regs_ok (ec_registers c')) \<and>
    (ec_process c' = None \<longleftrightarrow> ec_process c = None) \<and>
    (layout_ok (pm_size (ec_phys c)) (ec_memory c) \<longrightarrow>
      (\<forall>j. j < data_start (ec_memory c) \<or> stack_end (ec_memory c) \<le> j \<longrightarrow>
        pm_memory (ec_phys c') j = pm_memory (ec_phys c) j))"

interpretation ctx: frame_relation ctx_frame
  by unfold_locales (auto simp: ctx_frame_def)

lemma frame_get_register: "respecting ctx_frame (get_register i)"
  by (simp add: get_register_def ctx.respects_read)

lemma frame_set_register: "respecting ctx_frame (set_register i v)"
  unfolding set_register_def
  by (rule ctx.respects_update)
    (auto simp: ctx_frame_def with_registers_def ec_registers_def split: sum.splits dest: regs_ok_set)

lemma frame_on_registers:
  "(\<And>r. regs_ok (f r) = regs_ok r) \<Longrightarrow> respecting ctx_frame (on_registers f)"
  unfolding on_registers_def
  by (rule respects_modify) (auto simp: ctx_frame_def with_registers_def ec_registers_def)

lemma frame_setExecutionError: "respecting ctx_frame (setExecutionError msg)"
  unfolding setExecutionError_def
  by (rule respects_modify) (auto simp: ctx_frame_def ec_registers_def split: option.split)

lemma readDataWord_keeps: "snd (readDataWord l off pm) = pm"
  by (simp add: readDataWord_def readWord_def validateRange_def validateDataOffset_def vm_run Let_def
      split: sum.split)

lemma frame_read_data: "respecting ctx_frame (on_memory (\<lambda>l. readDataWord l off))"
proof (rule respectsI)
  fix c :: exec_context
  show "ctx_frame c (snd (on_memory (\<lambda>l. readDataWord l off) c))"
    using readDataWord_keeps [of "ec_memory c" off "ec_phys c"]
    by (auto simp: on_memory_def ctx_frame_def ec_registers_def split: prod.split)
qed

lemma writeDataWord_sizes:
  "writeDataWord l off v pm = (r, pm') \<Longrightarrow>
     pm_size pm' = pm_size pm \<and> nextFreeAddress pm' = nextFreeAddress pm"
  by (auto simp: writeDataWord_def writeWord_def validateRange_def validateDataOffset_def vm_run Let_def
      split: sum.splits if_splits)

lemma writeDataWord_frame:
  assumes "layout_ok (pm_size pm) l" and "j < data_start l \<or> stack_end l \<le> j"
  shows "pm_memory (snd (writeDataWord l off v pm)) j = pm_memory pm j"
proof (cases "unat off + 4 \<le> unat (ml_dataSize l)")
  case True
  then have "j < data_start l + unat off \<or> data_start l + unat off + 4 \<le> j"
    using assms layout_bounds [OF assms(1)] by (auto simp: stack_end_def)
  with assms True show ?thesis by (simp add: mem_simps store_word_other)
next
  case False
  then show ?thesis by (simp add: mem_simps)
qed

lemma frame_write_data: "respecting ctx_frame (on_memory (\<lambda>l. writeDataWord l off v))"
proof (rule respectsI)
  fix c :: exec_context
  obtain r pm' where w: "writeDataWord (ec_memory c) off v (ec_phys c) = (r, pm')"
    by (cases "writeDataWord (ec_memory c) off v (ec_phys c)")
  with writeDataWord_sizes [OF w] writeDataWord_frame [of "ec_phys c" "ec_memory c" _ off v]
  show "ctx_frame c (snd (on_memory (\<lambda>l. writeDataWord l off v) c))"
    by (auto simp: on_memory_def ctx_frame_def ec_registers_def)
qed

lemma stack_op_frames:
  "pushWord l v (pm, sp) = (r, (pm', sp')) \<Longrightarrow>
     pm_size pm' = pm_size pm \<and> nextFreeAddress pm' = nextFreeAddress pm"
  "popWord l (pm, sp) = (q, (pm', sp')) \<Longrightarrow> pm' = pm"
  by (auto simp: pushWord_def popWord_def writeWord_def readWord_def validateRange_def
      validateStackAccess_def vm_run Let_def split: sum.splits if_splits)

lemma pushWord_memory_frame:
  assumes "layout_ok (pm_size pm) l" and "j < data_start l \<or> stack_end l \<le> j"
  shows "pm_memory (fst (snd (pushWord l v (pm, sp)))) j = pm_memory pm j"
  using assms layout_bounds [OF assms(1)] by (auto simp: pushWord_eq intro!: store_word_other)

lemma frame_push: "respecting ctx_frame (on_stack (\<lambda>l. pushWord l v))"
proof (rule respectsI)
  fix c :: exec_context
  obtain r pm' sp' where w: "pushWord (ec_memory c) v (ec_phys c, rf_sp (ec_registers c)) = (r, (pm', sp'))"
    by (metis prod.exhaust)
  with stack_op_frames(1) [OF w] pushWord_memory_frame [of "ec_phys c" "ec_memory c" _ v "rf_sp (ec_registers c)"]
  show "ctx_frame c (snd (on_stack (\<lambda>l. pushWord l v) c))"
    by (auto simp: on_stack_def ctx_frame_def ec_registers_def with_registers_def)
qed

lemma frame_pop: "respecting ctx_frame (on_stack popWord)"
proof (rule respectsI)
  fix c :: exec_context
  obtain r pm' sp' where w: "popWord (ec_memory c) (ec_phys c, rf_sp (ec_registers c)) = (r, (pm', sp'))"
    by (metis prod.exhaust)
  with stack_op_frames(2) [OF w] show "ctx_frame c (snd (on_stack popWord c))"
    by (simp add: on_stack_def ctx_frame_def ec_registers_def with_registers_def)
qed

lemma frame_readOperand: "respecting ctx_frame (readOperand i)"
  by (auto simp: readOperand_def intro: ctx.respects_intros frame_get_register)

lemma frame_advance: "respecting ctx_frame advance_and_continue"
  by (auto simp: advance_and_continue_def intro!: ctx.respects_intros frame_on_registers)

lemma frame_try_stack:
  "respecting ctx_frame body \<Longrightarrow> respecting ctx_frame rest \<Longrightarrow> respecting ctx_frame (try_stack body rest)"
  by (auto simp: try_stack_def intro!: ctx.respects_intros frame_setExecutionError)

lemma frame_halt:
  "respecting ctx_frame (vmodify (\<lambda>c. c\<lparr>ec_cpu := setHalted True (ec_cpu c)\<rparr>))"
  by (rule respects_modify) (simp add: ctx_frame_def ec_registers_def setHalted_def)

lemmas all_handler_defs [handler_defs] =
  handle_ADD_def handle_SUB_def handle_MUL_def handle_DIV_def handle_MOD_def handle_INC_def
  handle_DEC_def handle_AND_def handle_OR_def handle_XOR_def handle_NOT_def handle_CMP_def
  handle_JMP_def handle_conditional_jump_def handle_MOV_def handle_LOAD_def handle_STORE_def
  handle_PUSH_def handle_POP_def handle_RET_def handle_NOP_def handle_HALT_def

lemmas register_handlers_defs =
  default_handlers_def registerArithmeticHandlers_def registerLogicHandlers_def
  registerJumpHandlers_def registerMemoryHandlers_def registerStackHandlers_def
  registerControlHandlers_def

lemmas handler_frames =
  frame_get_register frame_set_register frame_on_registers frame_setExecutionError frame_read_data
  frame_write_data frame_push frame_pop frame_readOperand frame_advance frame_try_stack frame_halt

lemma handlers_frame:
  "default_handlers op = Some h \<Longrightarrow> respecting ctx_frame (h i)"
  by (cases op) (auto simp: register_handlers_defs handler_defs Let_def
      intro!: ctx.respects_intros handler_frames)

lemma registry_frame: "respecting ctx_frame (registry_execute i)"
  by (auto simp: registry_execute_def intro: handlers_frame ctx.respects_intros split: option.split)

text \<open>
  The interface \<^verbatim>\<open>IInstructionHandler\<close>: whatever is executed through it stays within the frame,
  and so does any sequence of instructions.
\<close>

fun execute_all :: "handler \<Rightarrow> decoded_instruction list \<Rightarrow> (exec_context, execution_result list) vm" where
  "execute_all execute [] = vreturn []"
| "execute_all execute (i # is) =
     vbind (execute i) (\<lambda>r. vbind (execute_all execute is) (\<lambda>rs. vreturn (r # rs)))"

locale instruction_handler =
  fixes execute :: handler
  assumes execute_frame: "respecting ctx_frame (execute i)"
begin

lemma execute_all_frame: "respecting ctx_frame (execute_all execute is)"
  by (induction "is") (auto intro!: ctx.respects_intros execute_frame)

lemma execute_all_isolated:
  assumes "execute_all execute is c = (r, c')" and "layout_ok (pm_size (ec_phys c)) (ec_memory c)"
    and "j < data_start (ec_memory c) \<or> stack_end (ec_memory c) \<le> j"
  shows "pm_memory (ec_phys c') j = pm_memory (ec_phys c) j"
  using respectsD [OF execute_all_frame assms(1)] assms(2,3) by (auto simp: ctx_frame_def)

lemma execute_all_keeps:
  assumes "execute_all execute is c = (r, c')" and "regs_ok (ec_registers c)"
  shows "regs_ok (ec_registers c') \<and> ec_memory c' = ec_memory c"
  using respectsD [OF execute_all_frame assms(1)] assms(2) by (simp add: ctx_frame_def)

end

interpretation registry: instruction_handler registry_execute
  by unfold_locales (rule registry_frame)

section \<open>What the handlers compute\<close>

definition decoded_ok :: "decoded_instruction \<Rightarrow> bool" where
  "decoded_ok i \<longleftrightarrow> d_rd i < 16 \<and> d_rs1 i < 16 \<and> d_rs2 i < 16"

lemma decoded_ok_decode [simp]: "decoded_ok (decodeInstruction raw)"
  by (simp add: decoded_ok_def decode_register_bound)

abbreviation gpr :: "exec_context \<Rightarrow> u8 \<Rightarrow> Word" where
  "gpr c r \<equiv> rf_gpr (ec_registers c) ! unat r"

text \<open>The value of the second operand: the immediate when \<open>rs2\<close> is the marker.\<close>

definition operand_value :: "decoded_instruction \<Rightarrow> exec_context \<Rightarrow> Word" where
  "operand_value i c = (if d_rs2 i = kImmediateMarker then scast (d_imm i) else gpr c (d_rs2 i))"

definition write_register :: "u8 \<Rightarrow> Word \<Rightarrow> register_file \<Rightarrow> register_file" where
  "write_register rd v r = r\<lparr>rf_gpr := (rf_gpr r)[unat rd := v]\<rparr>"

lemma run_get_register: "i < 16 \<Longrightarrow> get_register i c = (Inr (gpr c i), c)"
  by (simp add: get_register_def vread_def reg_get_ok)

lemma run_set_register:
  "i < 16 \<Longrightarrow> set_register i v c = (Inr (), with_registers (write_register i v) c)"
  by (simp add: set_register_def vupdate_def reg_set_ok write_register_def with_registers_def ec_registers_def)

lemma run_on_registers: "on_registers f c = (Inr (), with_registers f c)"
  by (simp add: on_registers_def vmodify_def)

lemma run_readOperand: "decoded_ok i \<Longrightarrow> readOperand i c = (Inr (operand_value i c), c)"
  by (simp add: readOperand_def operand_value_def run_get_register decoded_ok_def vreturn_def)

lemma run_advance: "advance_and_continue c = (Inr ER_Continue, with_registers advancePc c)"
  by (simp add: advance_and_continue_def run_on_registers vm_run)

lemma with_registers_twice: "with_registers f (with_registers g c) = with_registers (\<lambda>r. f (g r)) c"
  by (simp add: with_registers_def)

lemmas run_handler =
  run_get_register run_set_register run_on_registers run_readOperand run_advance with_registers_twice

text \<open>
  The arithmetic and logic instructions as a table: operation on words and the flag update.
\<close>

fun alu_operation :: "opcode \<Rightarrow> Word \<Rightarrow> Word \<Rightarrow> Word option" where
  "alu_operation OP_ADD l r = Some (l + r)"
| "alu_operation OP_SUB l r = Some (l - r)"
| "alu_operation OP_MUL l r = Some (l * r)"
| "alu_operation OP_DIV l r = (if r = 0 then None else Some (l div r))"
| "alu_operation OP_MOD l r = (if r = 0 then None else Some (l mod r))"
| "alu_operation OP_AND l r = Some (and l r)"
| "alu_operation OP_OR l r = Some (or l r)"
| "alu_operation OP_XOR l r = Some (xor l r)"
| "alu_operation _ l r = None"

definition alu_flags :: "opcode \<Rightarrow> Word \<Rightarrow> Word \<Rightarrow> Word \<Rightarrow> register_file \<Rightarrow> register_file" where
  "alu_flags op l r v = (if op = OP_SUB then updateFlagsSub l r v else updateFlags v)"

lemma registry_alu:
  assumes "decoded_ok i" and "alu_operation (d_opcode i) (gpr c (d_rs1 i)) (operand_value i c) = Some v"
  shows "registry_execute i c = (Inr ER_Continue,
    with_registers (\<lambda>r. advancePc (alu_flags (d_opcode i) (gpr c (d_rs1 i)) (operand_value i c) v
      (write_register (d_rd i) v r))) c)"
  using assms
  by (cases "d_opcode i")
    (auto simp: registry_execute_def register_handlers_defs handler_defs vbind_def vseq_def Let_def
      run_handler decoded_ok_def alu_flags_def split: if_splits)


lemma registry_division_by_zero:
  assumes "decoded_ok i" and "operand_value i c = 0"
  shows "d_opcode i = OP_DIV \<Longrightarrow> registry_execute i c =
      (Inr ER_Error, snd (setExecutionError ''division by zero'' c))"
    and "d_opcode i = OP_MOD \<Longrightarrow> registry_execute i c =
      (Inr ER_Error, snd (setExecutionError ''modulo by zero'' c))"
  using assms
  by (simp_all add: registry_execute_def register_handlers_defs handler_defs vbind_def vseq_def
      run_handler decoded_ok_def setExecutionError_def vmodify_def vreturn_def)

lemma registry_cmp:
  assumes "decoded_ok i" and "d_opcode i = OP_CMP"
  shows "registry_execute i c = (Inr ER_Continue, with_registers (\<lambda>r. advancePc
    (updateFlagsSub (gpr c (d_rs1 i)) (operand_value i c) (gpr c (d_rs1 i) - operand_value i c) r)) c)"
  using assms
  by (simp add: registry_execute_def register_handlers_defs handler_defs vbind_def vseq_def Let_def
      run_handler decoded_ok_def)

definition conditional_jumps :: "opcode set" where
  "conditional_jumps = {OP_JE, OP_JNE, OP_JG, OP_JGE, OP_JL, OP_JLE}"

lemma registry_conditional_jump:
  assumes "d_opcode i \<in> conditional_jumps"
  shows "registry_execute i c =
    (if takeJump (rf_flags (ec_registers c)) (d_opcode i)
     then (Inr ER_Jump, with_registers (setPc (scast (d_imm i))) c)
     else (Inr ER_Continue, with_registers advancePc c))"
  using assms
  by (auto simp: conditional_jumps_def registry_execute_def register_handlers_defs handler_defs
      vbind_def vseq_def run_handler vgets_def vreturn_def)

lemma registry_mov:
  "decoded_ok i \<Longrightarrow> d_opcode i = OP_MOV \<Longrightarrow> registry_execute i c =
    (Inr ER_Continue, with_registers (\<lambda>r. advancePc (write_register (d_rd i) (operand_value i c) r)) c)"
  by (simp add: registry_execute_def register_handlers_defs handler_defs vbind_def vseq_def
      run_handler decoded_ok_def)

text \<open>The stack state that the registers and the memory of a context make up.\<close>

definition ctx_stack :: "exec_context \<Rightarrow> phys_mem \<times> Address" where
  "ctx_stack c = (ec_phys c, rf_sp (ec_registers c))"

definition with_stack :: "phys_mem \<times> Address \<Rightarrow> exec_context \<Rightarrow> exec_context" where
  "with_stack s c = with_registers (setSp (snd s)) (c\<lparr>ec_phys := fst s\<rparr>)"

lemma ctx_stack_with [simp]: "ctx_stack (with_stack s c) = s"
  by (simp add: ctx_stack_def with_stack_def with_registers_def ec_registers_def setSp_def)

lemma with_stack_same [simp]: "with_stack (ctx_stack c) c = c"
  by (simp add: ctx_stack_def with_stack_def with_registers_def ec_registers_def setSp_def)

lemma on_stack_eq:
  "on_stack m c = (fst (m (ec_memory c) (ctx_stack c)), with_stack (snd (m (ec_memory c) (ctx_stack c))) c)"
  by (simp add: on_stack_def ctx_stack_def with_stack_def split: prod.split)

lemma registry_push:
  assumes "decoded_ok i" and "d_opcode i = OP_PUSH"
  shows "registry_execute i c =
    (case pushWord (ec_memory c) (operand_value i c) (ctx_stack c) of
       (Inr _, s) \<Rightarrow> (Inr ER_Continue, with_registers advancePc (with_stack s c))
     | (Inl (VmException msg), s) \<Rightarrow> (Inr ER_Error, snd (setExecutionError msg (with_stack s c)))
     | (Inl e, s) \<Rightarrow> (Inl e, with_stack s c))"
  using assms
  by (cases "pushWord (ec_memory c) (operand_value i c) (ctx_stack c)")
    (auto simp: registry_execute_def register_handlers_defs handler_defs try_stack_def on_stack_eq
      vbind_def vseq_def vcatch_def vreturn_def vmodify_def setExecutionError_def run_handler
      split: sum.split option.split vm_exception.split)

lemma registry_pop:
  assumes "decoded_ok i" and "d_opcode i = OP_POP"
  shows "registry_execute i c =
    (case popWord (ec_memory c) (ctx_stack c) of
       (Inr v, s) \<Rightarrow> (Inr ER_Continue,
         with_registers (\<lambda>r. advancePc (write_register (d_rd i) v r)) (with_stack s c))
     | (Inl (VmException msg), s) \<Rightarrow> (Inr ER_Error, snd (setExecutionError msg (with_stack s c)))
     | (Inl e, s) \<Rightarrow> (Inl e, with_stack s c))"
  using assms
  by (cases "popWord (ec_memory c) (ctx_stack c)")
    (auto simp: registry_execute_def register_handlers_defs handler_defs try_stack_def on_stack_eq
      vbind_def vseq_def vcatch_def vreturn_def vmodify_def setExecutionError_def run_handler
      decoded_ok_def split: sum.split option.split vm_exception.split)

lemma registry_ret:
  assumes "d_opcode i = OP_RET"
  shows "registry_execute i c =
    (case popWord (ec_memory c) (ctx_stack c) of
       (Inr v, s) \<Rightarrow> (Inr ER_Jump, with_registers (setPc v) (with_stack s c))
     | (Inl (VmException msg), s) \<Rightarrow> (Inr ER_Error, snd (setExecutionError msg (with_stack s c)))
     | (Inl e, s) \<Rightarrow> (Inl e, with_stack s c))"
  using assms
  by (cases "popWord (ec_memory c) (ctx_stack c)")
    (auto simp: registry_execute_def register_handlers_defs handler_defs try_stack_def on_stack_eq
      vbind_def vseq_def vcatch_def vreturn_def vmodify_def setExecutionError_def run_handler
      split: sum.split option.split vm_exception.split)

lemma registry_load:
  assumes "decoded_ok i" and "d_opcode i = OP_LOAD" and "layout_ok (pm_size (ec_phys c)) (ec_memory c)"
  shows "registry_execute i c =
    (if unat (scast (d_imm i) :: Address) + 4 \<le> unat (ml_dataSize (ec_memory c))
     then (Inr ER_Continue, with_registers (\<lambda>r. advancePc (write_register (d_rd i)
       (load_word (pm_memory (ec_phys c)) (data_start (ec_memory c) + unat (scast (d_imm i) :: Address))) r)) c)
     else (Inl (segment_error ''data'' (scast (d_imm i))), c))"
  using assms
  by (simp add: registry_execute_def register_handlers_defs handler_defs on_memory_def vbind_def vseq_def
      run_handler decoded_ok_def mem_simps not_le)

lemma registry_store:
  assumes "decoded_ok i" and "d_opcode i = OP_STORE" and "layout_ok (pm_size (ec_phys c)) (ec_memory c)"
  shows "registry_execute i c =
    (if unat (scast (d_imm i) :: Address) + 4 \<le> unat (ml_dataSize (ec_memory c))
     then (Inr ER_Continue, with_registers advancePc (c\<lparr>ec_phys := (ec_phys c)\<lparr>pm_memory :=
       store_word (pm_memory (ec_phys c)) (data_start (ec_memory c) + unat (scast (d_imm i) :: Address))
         (gpr c (d_rd i))\<rparr>\<rparr>))
     else (Inl (segment_error ''data'' (scast (d_imm i))), c))"
  using assms
  by (simp add: registry_execute_def register_handlers_defs handler_defs on_memory_def vbind_def vseq_def
      run_handler decoded_ok_def mem_simps not_le)

lemma registry_simple:
  "d_opcode i = OP_NOP \<Longrightarrow> registry_execute i c = (Inr ER_Continue, with_registers advancePc c)"
  "d_opcode i = OP_JMP \<Longrightarrow> registry_execute i c = (Inr ER_Jump, with_registers (setPc (scast (d_imm i))) c)"
  "d_opcode i = OP_HALT \<Longrightarrow> registry_execute i c =
     (Inr ER_Halt, c\<lparr>ec_cpu := setHalted True (ec_cpu c)\<rparr>)"
  "d_opcode i = OP_CALL \<Longrightarrow> registry_execute i c = (Inl (VmException ''unknown opcode''), c)"
  "d_opcode i = OP_unnamed b \<Longrightarrow> registry_execute i c = (Inl (VmException ''unknown opcode''), c)"
  by (simp_all add: registry_execute_def register_handlers_defs handler_defs vbind_def vseq_def
      run_handler vmodify_def vreturn_def vthrow_def)

lemma registry_unary:
  assumes "decoded_ok i"
  shows "d_opcode i = OP_INC \<Longrightarrow> registry_execute i c = (Inr ER_Continue,
      with_registers (\<lambda>r. advancePc (updateFlags (gpr c (d_rd i) + 1)
        (write_register (d_rd i) (gpr c (d_rd i) + 1) r))) c)"
    and "d_opcode i = OP_DEC \<Longrightarrow> registry_execute i c = (Inr ER_Continue,
      with_registers (\<lambda>r. advancePc (updateFlagsSub (gpr c (d_rd i)) 1 (gpr c (d_rd i) - 1)
        (write_register (d_rd i) (gpr c (d_rd i) - 1) r))) c)"
    and "d_opcode i = OP_NOT \<Longrightarrow> registry_execute i c = (Inr ER_Continue,
      with_registers (\<lambda>r. advancePc (updateFlags (not (gpr c (d_rd i)))
        (write_register (d_rd i) (not (gpr c (d_rd i))) r))) c)"
  using assms
  by (simp_all add: registry_execute_def register_handlers_defs handler_defs vbind_def vseq_def Let_def
      run_handler decoded_ok_def)

section \<open>Properties of the instruction set\<close>

text \<open>What the arithmetic and logic instructions mean on the integers.\<close>

fun alu_integer :: "opcode \<Rightarrow> int \<Rightarrow> int \<Rightarrow> int option" where
  "alu_integer OP_ADD a b = Some (a + b)"
| "alu_integer OP_SUB a b = Some (a - b)"
| "alu_integer OP_MUL a b = Some (a * b)"
| "alu_integer OP_DIV a b = (if b = 0 then None else Some (a div b))"
| "alu_integer OP_MOD a b = (if b = 0 then None else Some (a mod b))"
| "alu_integer OP_AND a b = Some (and a b)"
| "alu_integer OP_OR a b = Some (or a b)"
| "alu_integer OP_XOR a b = Some (xor a b)"
| "alu_integer _ a b = None"

lemma word_bits_of_int:
  fixes l r :: Word
  shows "word_of_int (and (uint l) (uint r)) = and l r" "word_of_int (or (uint l) (uint r)) = or l r"
    "word_of_int (xor (uint l) (uint r)) = xor l r"
  by (simp_all add: of_int_and_eq of_int_or_eq of_int_xor_eq)

lemma alu_operation_integer:
  fixes l r :: Word
  assumes "alu_integer op (uint l) (uint r) = Some n"
  shows "alu_operation op l r = Some (word_of_int n)"
proof -
  have "r = 0 \<longleftrightarrow> uint r = 0" by (simp add: unsigned_eq_0_iff)
  with assms show ?thesis
    by (cases op) (auto simp: word_div_def word_mod_def word_bits_of_int split: if_splits)
qed

lemma with_registers_frames [frame_simps]:
  "ec_registers (with_registers f c) = f (ec_registers c)"
  "ec_phys (with_registers f c) = ec_phys c"
  "ec_memory (with_registers f c) = ec_memory c"
  "ec_process (with_registers f c) = ec_process c"
  by (simp_all add: with_registers_def ec_registers_def)

lemma write_register_frames [frame_simps]:
  "rf_gpr (write_register k v r) = (rf_gpr r)[unat k := v]"
  "rf_pc (write_register k v r) = rf_pc r" "rf_sp (write_register k v r) = rf_sp r"
  "rf_flags (write_register k v r) = rf_flags r"
  by (simp_all add: write_register_def)

lemma alu_flags_frames [frame_simps]:
  "rf_gpr (alu_flags op l r v f) = rf_gpr f" "rf_pc (alu_flags op l r v f) = rf_pc f"
  "rf_sp (alu_flags op l r v f) = rf_sp f"
  "fl_zero (rf_flags (alu_flags op l r v f)) = (v = 0)"
  "fl_sign (rf_flags (alu_flags op l r v f)) = is_negative v"
  by (simp_all add: alu_flags_def register_defs)

lemma flags_advance [frame_simps]:
  "rf_flags (advancePc r) = rf_flags r" "rf_flags (setPc a r) = rf_flags r"
  "rf_flags (setSp a r) = rf_flags r"
  by (simp_all add: register_defs)

lemma is_negative_uint: "is_negative w \<longleftrightarrow> 2 ^ 31 \<le> uint (w :: Word)"
proof -
  have u: "0 \<le> uint w" "uint w < 4294967296"
    using uint_lt2p [of w] by simp_all
  have "sint w = (uint w + 2147483648) mod 4294967296 - 2147483648"
    by (simp add: sint_uint signed_take_bit_eq_take_bit_shift take_bit_eq_mod)
  also have "\<dots> = (if 2147483648 \<le> uint w then uint w - 4294967296 else uint w)"
    proof (subst wrap_once)
    show "(if uint w < - 2147483648 then uint w + 4294967296
        else if 2147483648 \<le> uint w then uint w - 4294967296 else uint w) =
       (if 2147483648 \<le> uint w then uint w - 4294967296 else uint w)"
      using u by (simp add: not_less order_trans [of _ 0])
  qed (use u in linarith)+
  finally show ?thesis using u by (simp add: is_negative_def)
qed

lemma stack_frames [frame_simps]:
  "rf_gpr (ec_registers (with_stack s c)) = rf_gpr (ec_registers c)"
  "rf_pc (ec_registers (with_stack s c)) = rf_pc (ec_registers c)"
  "rf_sp (ec_registers (with_stack s c)) = snd s"
  "ec_memory (with_stack s c) = ec_memory c" "ec_process (with_stack s c) = ec_process c"
  "ctx_stack (with_registers advancePc c) = ctx_stack c"
  by (simp_all add: with_stack_def frame_simps ctx_stack_def, simp_all add: ec_registers_def)

lemma ctx_stack_write [simp]: "ctx_stack (with_registers (\<lambda>r. advancePc (write_register k v r)) c) = ctx_stack c"
  by (simp add: ctx_stack_def frame_simps)

lemma registry_stack_total:
  assumes "decoded_ok i" and "layout_ok (pm_size (ec_phys c)) (ec_memory c)"
    and "d_opcode i \<in> {OP_PUSH, OP_POP, OP_RET}"
  shows "fst (registry_execute i c) \<noteq> Inl e"
  using assms
  by (auto simp: registry_push registry_pop registry_ret ctx_stack_def pushWord_eq popWord_eq
      split: if_split_asm)

text \<open>C20: An arithmetic or logic instruction computes its operation on the unsigned integers in the
  registers modulo \<open>2 ^ 32\<close>, writes it to \<open>rd\<close> and to no other register, sets the zero and sign
  flags from it, advances the program counter by one and touches neither memory nor stack.
\<close>

theorem arithmetic_instruction_semantics:
  assumes "decoded_ok i" and "regs_ok (ec_registers c)"
    and "alu_integer (d_opcode i) (uint (gpr c (d_rs1 i))) (uint (operand_value i c)) = Some n"
  shows "\<exists>c'. registry_execute i c = (Inr ER_Continue, c') \<and>
    uint (gpr c' (d_rd i)) = n mod 2 ^ 32 \<and>
    (\<forall>k < 16. k \<noteq> d_rd i \<longrightarrow> gpr c' k = gpr c k) \<and>
    fl_zero (rf_flags (ec_registers c')) = (n mod 2 ^ 32 = 0) \<and>
    fl_sign (rf_flags (ec_registers c')) = (2 ^ 31 \<le> n mod 2 ^ 32) \<and>
    rf_pc (ec_registers c') = rf_pc (ec_registers c) + 1 \<and>
    ctx_stack c' = ctx_stack c \<and> ec_memory c' = ec_memory c \<and> ec_process c' = ec_process c"
proof -
  let ?r = "\<lambda>r. advancePc (alu_flags (d_opcode i) (gpr c (d_rs1 i)) (operand_value i c) (word_of_int n)
      (write_register (d_rd i) (word_of_int n) r))"
  have "registry_execute i c = (Inr ER_Continue, with_registers ?r c)"
    using assms by (intro registry_alu alu_operation_integer)
  moreover have "(word_of_int n :: Word) = 0 \<longleftrightarrow> n mod 2 ^ 32 = 0"
    by (simp add: word_of_int_eq_0_iff dvd_eq_mod_eq_0)
  moreover have "unat (d_rd i) < length (rf_gpr (ec_registers c))"
    using assms by (simp add: decoded_ok_def regs_ok_def word_less_nat_alt)
  moreover have "uint (word_of_int n :: Word) = n mod 2 ^ 32"
    by (simp add: uint_word_of_int)
  ultimately show ?thesis
    by (auto simp: frame_simps ctx_stack_def is_negative_uint word_unat_eq_iff)
qed


text \<open>C30: Dividing by zero is the only failing arithmetic: the handler answers \<^verbatim>\<open>Error\<close>, records the
  message in the control block, and leaves registers, flags, program counter and memory alone.
\<close>

theorem division_by_zero_is_reported:
  assumes "decoded_ok i" and "operand_value i c = 0" and "d_opcode i = OP_DIV \<or> d_opcode i = OP_MOD"
  shows "\<exists>c' message. registry_execute i c = (Inr ER_Error, c') \<and>
    message = (if d_opcode i = OP_DIV then ''division by zero'' else ''modulo by zero'') \<and>
    c' = c\<lparr>ec_process := (if ec_process c = None then None else Some (Some message))\<rparr>"
  using assms
  by (auto simp: registry_division_by_zero setExecutionError_def vmodify_def split: option.split)

text \<open>The relation that a conditional jump decides after \<^verbatim>\<open>CMP\<close>.\<close>

fun signed_relation :: "opcode \<Rightarrow> int \<Rightarrow> int \<Rightarrow> bool" where
  "signed_relation OP_JE a b = (a = b)"
| "signed_relation OP_JNE a b = (a \<noteq> b)"
| "signed_relation OP_JG a b = (a > b)"
| "signed_relation OP_JGE a b = (a \<ge> b)"
| "signed_relation OP_JL a b = (a < b)"
| "signed_relation OP_JLE a b = (a \<le> b)"
| "signed_relation _ a b = False"

lemma takeJump_compare:
  fixes l r :: Word
  assumes "op \<in> conditional_jumps"
  shows "takeJump (rf_flags (updateFlagsSub l r (l - r) rf)) op =
    (if sint (l - r) = sint l - sint r \<or> op = OP_JE \<or> op = OP_JNE
     then signed_relation op (sint l) (sint r) else \<not> signed_relation op (sint l) (sint r))"
proof -
  have eq: "l = r \<longleftrightarrow> sint l = sint r" by (metis signed_word_eqI)
  show ?thesis
    using assms sint_diff_cases [of l r] sint_u32_range [of l] sint_u32_range [of r]
    by (auto simp: conditional_jumps_def updateFlagsSub_flags eq split: if_splits)
qed

lemma compare_then_jump:
  assumes "decoded_ok i" and "d_opcode i = OP_CMP" and "d_opcode j \<in> conditional_jumps"
  shows "execute_all registry_execute [i, j] c =
    (let l = gpr c (d_rs1 i); r = operand_value i c;
         c1 = with_registers (\<lambda>rf. advancePc (updateFlagsSub l r (l - r) rf)) c
     in if takeJump (rf_flags (updateFlagsSub l r (l - r) (ec_registers c))) (d_opcode j)
        then (Inr [ER_Continue, ER_Jump], with_registers (setPc (scast (d_imm j))) c1)
        else (Inr [ER_Continue, ER_Continue], with_registers advancePc c1))"
  using assms
  by (simp add: registry_cmp registry_conditional_jump vm_run Let_def frame_simps)

text \<open>C21: A \<^verbatim>\<open>CMP\<close> followed by a conditional jump jumps exactly when the signed relation the jump is
  named after holds between the operands, as long as their difference fits in 32 bits.
\<close>

theorem compare_and_jump_decides:
  assumes "decoded_ok i" and "d_opcode i = OP_CMP" and "d_opcode j \<in> conditional_jumps"
    and "l = gpr c (d_rs1 i)" and "r = operand_value i c"
    and "- (2 ^ 31) \<le> sint l - sint r" and "sint l - sint r < 2 ^ 31"
  shows "\<exists>c'. execute_all registry_execute [i, j] c =
      (Inr [ER_Continue, if signed_relation (d_opcode j) (sint l) (sint r) then ER_Jump else ER_Continue], c') \<and>
    rf_pc (ec_registers c') =
      (if signed_relation (d_opcode j) (sint l) (sint r) then scast (d_imm j) else rf_pc (ec_registers c) + 2) \<and>
    rf_gpr (ec_registers c') = rf_gpr (ec_registers c)"
proof -
  have "sint (l - r) = sint l - sint r" using assms by (simp add: sint_diff_cases)
  then have "takeJump (rf_flags (updateFlagsSub l r (l - r) (ec_registers c))) (d_opcode j) =
      signed_relation (d_opcode j) (sint l) (sint r)"
    using assms takeJump_compare by simp
  with compare_then_jump [OF assms(1-3)] assms(4,5) show ?thesis
    by (simp add: Let_def frame_simps)
qed

text \<open>C38: When the difference overflows, the ordering jumps take the opposite branch: \<^verbatim>\<open>takeJump\<close>
  reads the sign flag alone and ignores the overflow flag that \<^verbatim>\<open>CMP\<close> set for it.
\<close>

theorem ordering_jump_ignores_overflow:
  assumes "decoded_ok i" and "d_opcode i = OP_CMP" and "d_opcode j \<in> {OP_JG, OP_JGE, OP_JL, OP_JLE}"
    and "l = gpr c (d_rs1 i)" and "r = operand_value i c" and "sint (l - r) \<noteq> sint l - sint r"
  shows "fst (execute_all registry_execute [i, j] c) =
    Inr [ER_Continue, if signed_relation (d_opcode j) (sint l) (sint r) then ER_Continue else ER_Jump]"
proof -
  have "d_opcode j \<in> conditional_jumps" "d_opcode j \<noteq> OP_JE" "d_opcode j \<noteq> OP_JNE"
    using assms(3) by (auto simp: conditional_jumps_def)
  with compare_then_jump [OF assms(1,2)] takeJump_compare assms(4-) show ?thesis
    by (simp add: Let_def)
qed

text \<open>\<^verbatim>\<open>PUSH\<close> followed by \<^verbatim>\<open>POP\<close> copies the operand into the destination register and restores the
  stack pointer, whenever the stack has room for one word.
\<close>

lemma push_pop_copies:
  assumes "decoded_ok i" and "decoded_ok j" and "d_opcode i = OP_PUSH" and "d_opcode j = OP_POP"
    and "regs_ok (ec_registers c)" and "stack_inv (ec_memory c) (ctx_stack c)"
    and "0 < stack_room (ec_memory c) (ctx_stack c)"
  shows "\<exists>c'. execute_all registry_execute [i, j] c = (Inr [ER_Continue, ER_Continue], c') \<and>
    rf_gpr (ec_registers c') = (rf_gpr (ec_registers c))[unat (d_rd j) := operand_value i c] \<and>
    rf_sp (ec_registers c') = rf_sp (ec_registers c) \<and>
    stack_contents (ec_memory c') (ctx_stack c') = stack_contents (ec_memory c) (ctx_stack c)"
proof -
  let ?v = "operand_value i c" and ?l = "ec_memory c"
  obtain s1 where s1: "pushWord ?l ?v (ctx_stack c) = (Inr (), s1)" "stack_inv ?l s1"
    "stack_contents ?l s1 = ?v # stack_contents ?l (ctx_stack c)"
    using stk.push_ok [OF assms(6,7)] by blast
  obtain s2 where s2: "popWord ?l s1 = (Inr ?v, s2)" "stack_contents ?l s2 = stack_contents ?l (ctx_stack c)"
    using stk.pop_ok [OF s1(2,3)] by blast
  have sp: "snd s2 = snd (ctx_stack c)"
    using s1(1) s2(1) s1(2) assms(6)
    by (cases "ctx_stack c"; cases s1) (auto simp: stack_inv_def pushWord_eq popWord_eq split: if_splits)
  let ?c1 = "with_registers advancePc (with_stack s1 c)"
  have "registry_execute i c = (Inr ER_Continue, ?c1)"
    using registry_push [OF assms(1,3), of c] s1 by simp
  moreover have "registry_execute j ?c1 = (Inr ER_Continue,
      with_registers (\<lambda>r. advancePc (write_register (d_rd j) ?v r)) (with_stack s2 ?c1))"
    using registry_pop [OF assms(2,4), of ?c1] s2 by (simp add: frame_simps)
  ultimately show ?thesis
    using s2(2) sp by (simp add: vm_run frame_simps) (simp add: ctx_stack_def)
qed

text \<open>C31: Pushing on a full stack and popping or returning on an empty one answers \<^verbatim>\<open>Error\<close> with the
  message of the memory in the control block; nothing else changes.
\<close>

theorem stack_errors_are_reported:
  assumes "decoded_ok i" and "stack_inv (ec_memory c) (ctx_stack c)"
    and "d_opcode i = OP_PUSH \<and> stack_room (ec_memory c) (ctx_stack c) = 0 \<and> message = ''stack overflow''
       \<or> (d_opcode i = OP_POP \<or> d_opcode i = OP_RET) \<and> stack_contents (ec_memory c) (ctx_stack c) = [] \<and>
         message = ''stack underflow''"
  shows "registry_execute i c = (Inr ER_Error,
    c\<lparr>ec_process := (if ec_process c = None then None else Some (Some message))\<rparr>)"
proof -
  have "snd (setExecutionError message c) =
      c\<lparr>ec_process := (if ec_process c = None then None else Some (Some message))\<rparr>"
    by (cases "ec_process c") (simp_all add: setExecutionError_def vmodify_def)
  with assms show ?thesis
    using stk.push_full [OF assms(2)] stk.pop_empty [OF assms(2)]
    by (auto simp: registry_push registry_pop registry_ret)
qed

text \<open>Memory isolation: whatever instructions a process executes, with any operands, every byte
  outside its data and stack segments keeps its value.
\<close>

lemma instructions_are_isolated:
  assumes "execute_all registry_execute is c = (r, c')" and "layout_ok (pm_size (ec_phys c)) (ec_memory c)"
    and "j < data_start (ec_memory c) \<or> stack_end (ec_memory c) \<le> j"
  shows "pm_memory (ec_phys c') j = pm_memory (ec_phys c) j"
  using assms by (rule registry.execute_all_isolated)

text \<open>C29: The registry throws for an opcode without a handler (\<^verbatim>\<open>CALL\<close> or an unnamed byte) and for a
  \<^verbatim>\<open>LOAD\<close> or \<^verbatim>\<open>STORE\<close> outside the data segment, and for nothing else.
\<close>

theorem registry_exceptions:
  assumes "decoded_ok i" and "layout_ok (pm_size (ec_phys c)) (ec_memory c)"
  shows "fst (registry_execute i c) = Inl e \<longleftrightarrow>
    (d_opcode i = OP_CALL \<or> \<not> is_named (d_opcode i)) \<and> e = VmException ''unknown opcode'' \<or>
    (d_opcode i = OP_LOAD \<or> d_opcode i = OP_STORE) \<and>
      unat (ml_dataSize (ec_memory c)) < unat (scast (d_imm i) :: Address) + 4 \<and>
      e = segment_error ''data'' (scast (d_imm i))"
proof (cases "alu_operation (d_opcode i) (gpr c (d_rs1 i)) (operand_value i c)")
  case None
  then show ?thesis
    using assms registry_stack_total [OF assms]
    by (cases "d_opcode i")
      (auto simp: registry_division_by_zero registry_cmp registry_conditional_jump conditional_jumps_def
        registry_mov registry_load registry_store registry_simple registry_unary
        split: if_splits)
next
  case (Some v)
  then show ?thesis
    using registry_alu [OF assms(1) Some] by (cases "d_opcode i") simp_all
qed

text \<open>Register 15 cannot be read as a second operand: its number is the immediate marker, so the
  decoded \<^verbatim>\<open>mov rd, r15\<close> loads the immediate field, for every content of the register.
\<close>

lemma register_15_reads_as_immediate:
  assumes "rd < 16" and "regs_ok (ec_registers c)"
  shows "\<exists>c'. registry_execute (decodeInstruction (encodeInstruction OP_MOV rd rs1 15 0)) c =
      (Inr ER_Continue, c') \<and> gpr c' rd = 0"
proof -
  let ?i = "decodeInstruction (encodeInstruction OP_MOV rd rs1 15 0)"
  have "d_opcode ?i = OP_MOV" "d_rd ?i = rd" "operand_value ?i c = 0"
    using assms(1) opcode_of_byte_byte [of OP_MOV]
    by (simp_all add: decode_encode operand_value_def kImmediateMarker_def nibble_id)
  then show ?thesis
    using assms registry_mov [OF decoded_ok_decode, of "encodeInstruction OP_MOV rd rs1 15 0" c]
    by (simp add: frame_simps regs_ok_def word_less_nat_alt)
qed

section \<open>Witnesses\<close>

text \<open>A context with its first registers set and an empty stack, and a decoded instruction.\<close>

definition sample_context :: "Word list \<Rightarrow> exec_context" where
  "sample_context rs = \<lparr>ec_cpu = CpuContext\<lparr>cx_registers := RegisterFile
       \<lparr>rf_gpr := rs @ replicate (16 - length rs) 0, rf_sp := 384\<rparr>\<rparr>,
     ec_memory = sample_layout, ec_phys = PhysicalMemory 65536, ec_process = Some None\<rparr>"

definition sample_instruction :: "opcode \<Rightarrow> u8 \<Rightarrow> u8 \<Rightarrow> u8 \<Rightarrow> u16 \<Rightarrow> decoded_instruction" where
  "sample_instruction op rd rs1 rs2 imm =
    \<lparr>d_opcode = op, d_rd = rd, d_rs1 = rs1, d_rs2 = rs2, d_imm = imm, d_raw = 0\<rparr>"

lemmas sample_simps = sample_context_def sample_instruction_def ec_registers_def CpuContext_def
  RegisterFile_def sample_layout_ok PhysicalMemory_def decoded_ok_def operand_value_def
  kImmediateMarker_def

theorem arithmetic_instruction_semantics_witness:
  "\<exists>c'. registry_execute (sample_instruction OP_SUB 2 0 1 0) (sample_context [3, 5]) = (Inr ER_Continue, c') \<and>
    uint (gpr c' 2) = 4294967294 \<and> fl_sign (rf_flags (ec_registers c'))"
  using arithmetic_instruction_semantics [of "sample_instruction OP_SUB 2 0 1 0" "sample_context [3, 5]" "-2"]
  by (auto simp: sample_simps regs_ok_def)

theorem division_by_zero_is_reported_witness:
  "\<exists>c'. registry_execute (sample_instruction OP_DIV 2 0 1 0) (sample_context [3, 0]) = (Inr ER_Error, c') \<and>
    ec_process c' = Some (Some ''division by zero'')"
  using division_by_zero_is_reported [of "sample_instruction OP_DIV 2 0 1 0" "sample_context [3, 0]"]
  by (auto simp: sample_simps)

theorem compare_and_jump_decides_witness:
  "\<exists>c'. execute_all registry_execute [sample_instruction OP_CMP 0 0 1 0, sample_instruction OP_JL 0 0 0 9]
      (sample_context [-3, 5]) = (Inr [ER_Continue, ER_Jump], c') \<and> rf_pc (ec_registers c') = 9"
  using compare_and_jump_decides [of "sample_instruction OP_CMP 0 0 1 0" "sample_instruction OP_JL 0 0 0 9" "-3" "sample_context [-3, 5]" 5]
  by (auto simp: sample_simps conditional_jumps_def)

theorem ordering_jump_ignores_overflow_witness:
  "fst (execute_all registry_execute [sample_instruction OP_CMP 0 0 1 0, sample_instruction OP_JL 0 0 0 9]
      (sample_context [0x80000000, 1])) = Inr [ER_Continue, ER_Continue]"
  using ordering_jump_ignores_overflow [of "sample_instruction OP_CMP 0 0 1 0" "sample_instruction OP_JL 0 0 0 9"
      "0x80000000" "sample_context [0x80000000, 1]" 1]
  by (auto simp: sample_simps)

theorem push_pop_copies_witness:
  "\<exists>c'. execute_all registry_execute [sample_instruction OP_PUSH 0 0 1 0, sample_instruction OP_POP 2 0 0 0]
      (sample_context [3, 5]) = (Inr [ER_Continue, ER_Continue], c') \<and> gpr c' 2 = 5"
  using push_pop_copies [of "sample_instruction OP_PUSH 0 0 1 0" "sample_instruction OP_POP 2 0 0 0" "sample_context [3, 5]"]
  by (auto simp: sample_simps regs_ok_def stack_inv_def ctx_stack_def stack_room_def sample_layout_simps
      layout_ok_def)

theorem stack_errors_are_reported_witness:
  "registry_execute (sample_instruction OP_RET 0 0 0 0) (sample_context []) =
     (Inr ER_Error, (sample_context [])\<lparr>ec_process := Some (Some ''stack underflow'')\<rparr>)"
  using stack_errors_are_reported [of "sample_instruction OP_RET 0 0 0 0" "sample_context []" "''stack underflow''"]
  by (auto simp: sample_simps stack_inv_def ctx_stack_def stack_contents_def sample_layout_simps layout_ok_def)

theorem instructions_are_isolated_witness:
  "pm_memory (ec_phys (snd (execute_all registry_execute
     [sample_instruction OP_STORE 0 0 0 60, sample_instruction OP_PUSH 0 0 15 7] (sample_context [3])))) 10 = 0"
  using instructions_are_isolated [of "[sample_instruction OP_STORE 0 0 0 60, sample_instruction OP_PUSH 0 0 15 7]"
      "sample_context [3]" _ _ 10, OF prod.collapse [symmetric]]
  by (simp add: sample_simps sample_layout_simps layout_ok_def)

theorem registry_exceptions_witness:
  "fst (registry_execute (sample_instruction OP_LOAD 0 0 0 61) (sample_context [])) = Inl (segment_error ''data'' 61)"
  using registry_exceptions [of "sample_instruction OP_LOAD 0 0 0 61" "sample_context []" "segment_error ''data'' 61"]
  by (simp add: sample_simps sample_layout_simps layout_ok_def)

lemma register_15_reads_as_immediate_witness:
  "\<exists>c'. registry_execute (decodeInstruction (encodeInstruction OP_MOV 1 15 15 0)) (sample_context (replicate 16 9)) =
      (Inr ER_Continue, c') \<and> gpr c' 1 = 0"
  by (rule register_15_reads_as_immediate) (simp_all add: sample_simps regs_ok_def)

end
