(* ===== verification/Process_Table.thy ===== *)
theory Process_Table
  imports Instructions
begin

text \<open>
  Processes (\<^verbatim>\<open>include/vm/process\<close>, \<^verbatim>\<open>src/vm/process\<close>): the control block, its states, and the
  table that owns the control blocks. A \<^verbatim>\<open>ProcessControlBlock*\<close> is the position of the block in
  the table: blocks are only ever appended, so a position stays valid, and \<^verbatim>\<open>refs_\<close> (the vector
  of pointers that the scheduler sees) is the same list.
\<close>

section \<open>Searching a list\<close>

fun first_index :: "('a \<Rightarrow> bool) \<Rightarrow> 'a list \<Rightarrow> nat option" where
  "first_index P [] = None"
| "first_index P (x # xs) = (if P x then Some 0 else map_option Suc (first_index P xs))"

lemma first_index_None [simp]: "first_index P xs = None \<longleftrightarrow> (\<forall>x \<in> set xs. \<not> P x)"
  by (induction xs) auto

lemma first_index_Some:
  "first_index P xs = Some i \<longleftrightarrow> i < length xs \<and> P (xs ! i) \<and> (\<forall>j < i. \<not> P (xs ! j))"
proof (induction xs arbitrary: i)
  case (Cons x xs)
  then show ?case by (cases i) (auto simp: less_Suc_eq_0_disj)
qed simp

lemma first_indexD:
  "first_index P xs = Some i \<Longrightarrow> i < length xs" "first_index P xs = Some i \<Longrightarrow> P (xs ! i)"
  by (simp_all add: first_index_Some)

section \<open>Process control block\<close>

datatype process_state = Ready | Running | Halted

type_synonym pcb_ref = nat

record pcb =
  p_id :: ProcessId
  p_name :: string
  p_state :: process_state
  p_context :: cpu_context
  p_memory :: region_layout
  p_lastError :: "string option"

definition ProcessControlBlock :: "ProcessId \<Rightarrow> string \<Rightarrow> region_layout \<Rightarrow> pcb" where
  "ProcessControlBlock pid name memory =
    \<lparr>p_id = pid, p_name = name, p_state = Ready, p_context = CpuContext, p_memory = memory,
     p_lastError = None\<rparr>"

definition setState :: "process_state \<Rightarrow> pcb \<Rightarrow> pcb" where
  "setState state p = p\<lparr>p_state := state\<rparr>"

definition setLastError :: "string \<Rightarrow> pcb \<Rightarrow> pcb" where
  "setLastError message p = p\<lparr>p_lastError := Some message\<rparr>"

definition clearLastError :: "pcb \<Rightarrow> pcb" where
  "clearLastError p = p\<lparr>p_lastError := None\<rparr>"

text \<open>\<^verbatim>\<open>process.context().\<dots>\<close>: an operation of the processor context inside the block.\<close>

definition on_context :: "(cpu_context \<Rightarrow> cpu_context) \<Rightarrow> pcb \<Rightarrow> pcb" where
  "on_context f p = p\<lparr>p_context := f (p_context p)\<rparr>"

section \<open>Process table\<close>

record process_table =
  pt_processes :: "pcb list"
  nextProcessId :: ProcessId

definition ProcessTable :: process_table where
  "ProcessTable = \<lparr>pt_processes = [], nextProcessId = 1\<rparr>"

definition emplace :: "pcb \<Rightarrow> process_table \<Rightarrow> pcb_ref \<times> process_table" where
  "emplace process t =
    (length (pt_processes t), t\<lparr>pt_processes := pt_processes t @ [process]\<rparr>)"

definition find_process :: "ProcessId \<Rightarrow> process_table \<Rightarrow> pcb_ref option" where
  "find_process pid t = first_index (\<lambda>p. p_id p = pid) (pt_processes t)"

definition allHalted :: "process_table \<Rightarrow> bool" where
  "allHalted t = (if pt_processes t = [] then True
                  else list_all (\<lambda>p. p_state p = Halted) (pt_processes t))"

definition nextId :: "process_table \<Rightarrow> ProcessId \<times> process_table" where
  "nextId t = (nextProcessId t, t\<lparr>nextProcessId := nextProcessId t + 1\<rparr>)"

text \<open>Change the block a pointer points to.\<close>

definition update_process :: "pcb_ref \<Rightarrow> (pcb \<Rightarrow> pcb) \<Rightarrow> pcb list \<Rightarrow> pcb list" where
  "update_process i f ps = ps[i := f (ps ! i)]"

section \<open>Lemmas\<close>

lemmas pcb_defs = setState_def setLastError_def clearLastError_def on_context_def

lemma pcb_frames [frame_simps]:
  "p_id (setState s p) = p_id p" "p_memory (setState s p) = p_memory p"
  "p_context (setState s p) = p_context p" "p_state (setState s p) = s"
  "p_id (on_context f p) = p_id p" "p_memory (on_context f p) = p_memory p"
  "p_state (on_context f p) = p_state p" "p_context (on_context f p) = f (p_context p)"
  by (simp_all add: pcb_defs)

lemma length_update_process [simp]: "length (update_process i f ps) = length ps"
  by (simp add: update_process_def)

lemma nth_update_process:
  "j < length ps \<Longrightarrow> update_process i f ps ! j = (if i = j then f (ps ! j) else ps ! j)"
  by (simp add: update_process_def nth_list_update)

lemma update_process_out: "length ps \<le> i \<Longrightarrow> update_process i f ps = ps"
  by (simp add: update_process_def list_update_beyond)

lemma map_update_process:
  "(\<And>p. g (f p) = g p) \<Longrightarrow> map g (update_process i f ps) = map g ps"
  by (cases "i < length ps")
    (simp_all add: update_process_def map_update list_update_same_conv list_update_beyond)

lemma allHalted_iff: "allHalted t \<longleftrightarrow> (\<forall>p \<in> set (pt_processes t). p_state p = Halted)"
  by (simp add: allHalted_def list_all_iff)

text \<open>
  The identifiers of the table are the numbers from one on, in the order of creation, as long
  as fewer than \<open>2 ^ 32 - 1\<close> processes exist; the counter is the next of them.
\<close>

definition table_ok :: "process_table \<Rightarrow> bool" where
  "table_ok t \<longleftrightarrow> length (pt_processes t) < 2 ^ 32 - 1 \<and>
    map (\<lambda>p. unat (p_id p)) (pt_processes t) = [1..<Suc (length (pt_processes t))] \<and>
    unat (nextProcessId t) = Suc (length (pt_processes t))"

lemma table_ok_ProcessTable: "table_ok ProcessTable"
  by (simp add: table_ok_def ProcessTable_def)

lemma table_ok_nth:
  assumes "table_ok t" and "i < length (pt_processes t)"
  shows "unat (p_id (pt_processes t ! i)) = Suc i"
proof -
  have "map (\<lambda>p. unat (p_id p)) (pt_processes t) ! i = [1..<Suc (length (pt_processes t))] ! i"
    using assms(1) by (simp add: table_ok_def)
  with assms(2) show ?thesis by (simp del: upt_Suc)
qed

lemma table_ok_distinct:
  assumes "table_ok t"
  shows "distinct (map p_id (pt_processes t))"
proof -
  have "distinct (map unat (map p_id (pt_processes t)))"
    using assms by (simp add: table_ok_def o_def del: upt_Suc)
  then show ?thesis by (simp only: distinct_map)
qed

lemma find_process_id:
  assumes "table_ok t" and "i < length (pt_processes t)"
  shows "find_process (p_id (pt_processes t ! i)) t = Some i"
  using table_ok_distinct [OF assms(1)] assms(2)
  by (auto simp: find_process_def first_index_Some distinct_conv_nth)

text \<open>Creating a process as \<^verbatim>\<open>createProcess\<close> does: the next identifier and an entry at the end.\<close>

lemma table_ok_create:
  assumes "table_ok t" and "nextId t = (pid, t')" and "p_id p = pid" and "emplace p t' = (i, t'')"
    and "Suc (length (pt_processes t)) < 2 ^ 32 - 1"
  shows "table_ok t''"
proof -
  have "unat (nextProcessId t + 1) = Suc (unat (nextProcessId t))"
    using assms(1,5) by (subst unat_add_u32) (simp_all add: table_ok_def)
  with assms show ?thesis
    by (auto simp: table_ok_def nextId_def emplace_def simp del: upt_Suc)
      (simp add: upt_Suc)
qed

lemma table_ok_update:
  "table_ok t \<Longrightarrow> (\<And>p. p_id (f p) = p_id p) \<Longrightarrow>
     table_ok (t\<lparr>pt_processes := update_process i f (pt_processes t)\<rparr>)"
  using map_update_process [of "\<lambda>p. unat (p_id p)" f i "pt_processes t"] by (simp add: table_ok_def)

end
