(* ===== verification/Scheduler.thy ===== *)
theory Scheduler
  imports Process_Table
begin

text \<open>
  The preemptive scheduler (\<^verbatim>\<open>include/vm/os/preemptive_scheduler.hpp\<close>,
  \<^verbatim>\<open>src/vm/os/preemptive_scheduler.cpp\<close>). Its state is the ready queue, the round-robin index,
  the quantum and the running flag; the vector of process pointers it refers to is the list of
  control blocks of the process table. Each operation holds the mutex for its whole body, so it is
  one step; \<^verbatim>\<open>acquireProcess\<close> waits on the condition variable, and a call that waits is \<open>None\<close>.
\<close>

section \<open>State\<close>

record scheduler =
  readyQueue :: "ProcessId list"
  roundRobinIndex :: size_t
  sch_quantum :: size_t
  sch_running :: bool

definition PreemptiveScheduler :: "size_t \<Rightarrow> scheduler" where
  "PreemptiveScheduler quantum =
    \<lparr>readyQueue = [], roundRobinIndex = 0, sch_quantum = quantum, sch_running = True\<rparr>"

type_synonym sched_state = "scheduler \<times> pcb list"

section \<open>Operations\<close>

text \<open>
  The body of the inner loops of \<^verbatim>\<open>pickNextProcess\<close>: the process becomes \<^verbatim>\<open>Running\<close> with a full
  time slice.
\<close>

definition dispatch :: "size_t \<Rightarrow> pcb \<Rightarrow> pcb" where
  "dispatch quantum p = on_context (resetTimeSlice quantum) (setState Running p)"

text \<open>The \<^verbatim>\<open>while\<close> loop: identifiers of processes that are not ready are dropped.\<close>

fun pick_from_queue :: "pcb list \<Rightarrow> ProcessId list \<Rightarrow> pcb_ref option \<times> ProcessId list" where
  "pick_from_queue ps [] = (None, [])"
| "pick_from_queue ps (pid # queue) =
    (case first_index (\<lambda>p. p_id p = pid \<and> p_state p = Ready) ps of
       Some i \<Rightarrow> (Some i, queue)
     | None \<Rightarrow> pick_from_queue ps queue)"

text \<open>The \<^verbatim>\<open>for\<close> loop: the positions from the round-robin index on, in a circle.\<close>

definition round_robin_position :: "size_t \<Rightarrow> nat \<Rightarrow> nat \<Rightarrow> nat" where
  "round_robin_position start n i = unat (start + of_nat i) mod n"

definition pick_round_robin :: "pcb list \<Rightarrow> size_t \<Rightarrow> pcb_ref option" where
  "pick_round_robin ps start =
    map_option (round_robin_position start (length ps))
      (first_index (\<lambda>i. p_state (ps ! round_robin_position start (length ps) i) = Ready) [0..<length ps])"

definition pickNextProcess :: "sched_state \<Rightarrow> pcb_ref option \<times> sched_state" where
  "pickNextProcess = (\<lambda>(sch, ps).
    case pick_from_queue ps (readyQueue sch) of
      (Some i, queue) \<Rightarrow>
        (Some i, (sch\<lparr>readyQueue := queue\<rparr>, update_process i (dispatch (sch_quantum sch)) ps))
    | (None, queue) \<Rightarrow>
        let sch' = sch\<lparr>readyQueue := queue\<rparr> in
        (case pick_round_robin ps (roundRobinIndex sch) of
           Some index \<Rightarrow>
             (Some index, (sch'\<lparr>roundRobinIndex := of_nat (index + 1)\<rparr>,
                           update_process index (dispatch (sch_quantum sch)) ps))
         | None \<Rightarrow> (None, (sch', ps))))"

text \<open>The predicate of the condition variable, and the call: \<open>None\<close> while it is false.\<close>

definition acquire_ready :: "scheduler \<Rightarrow> bool" where
  "acquire_ready sch \<longleftrightarrow> \<not> sch_running sch \<or> readyQueue sch \<noteq> []"

definition acquireProcess :: "sched_state \<Rightarrow> (pcb_ref option \<times> sched_state) option" where
  "acquireProcess s =
    (if \<not> acquire_ready (fst s) then None
     else if \<not> sch_running (fst s) then Some (None, s)
     else Some (pickNextProcess s))"

text \<open>The loop of \<^verbatim>\<open>notifyProcessReady\<close>.\<close>

fun enqueue_ready :: "pcb list \<Rightarrow> ProcessId list \<Rightarrow> ProcessId list" where
  "enqueue_ready [] queue = queue"
| "enqueue_ready (p # ps) queue =
    enqueue_ready ps
      (if p_state p = Ready then (if p_id p \<in> set queue then queue else queue @ [p_id p]) else queue)"

definition notifyProcessReady :: "sched_state \<Rightarrow> sched_state" where
  "notifyProcessReady = (\<lambda>(sch, ps). (sch\<lparr>readyQueue := enqueue_ready ps (readyQueue sch)\<rparr>, ps))"

definition onCoreIdle :: "sched_state \<Rightarrow> sched_state" where
  "onCoreIdle = notifyProcessReady"

definition onPreempt :: "pcb_ref \<Rightarrow> sched_state \<Rightarrow> sched_state" where
  "onPreempt i = (\<lambda>(sch, ps).
    if p_state (ps ! i) = Running
    then (sch\<lparr>readyQueue := readyQueue sch @ [p_id (ps ! i)]\<rparr>, update_process i (setState Ready) ps)
    else (sch, ps))"

definition hasRunnableWork :: "sched_state \<Rightarrow> bool" where
  "hasRunnableWork = (\<lambda>(sch, ps). list_ex (\<lambda>p. p_state p = Ready \<or> p_state p = Running) ps)"

definition stop_scheduler :: "sched_state \<Rightarrow> sched_state" where
  "stop_scheduler = (\<lambda>(sch, ps). (sch\<lparr>sch_running := False\<rparr>, ps))"

lemmas scheduler_defs [sched_defs] =
  pickNextProcess_def acquireProcess_def notifyProcessReady_def onCoreIdle_def onPreempt_def
  stop_scheduler_def dispatch_def

section \<open>Invariant\<close>

text \<open>
  The queue holds, without repetition, identifiers of ready processes; \<open>all_queued\<close> says that it
  holds all of them.
\<close>

definition ready_ids :: "pcb list \<Rightarrow> ProcessId set" where
  "ready_ids ps = {p_id p |p. p \<in> set ps \<and> p_state p = Ready}"

definition sched_ok :: "sched_state \<Rightarrow> bool" where
  "sched_ok = (\<lambda>(sch, ps). distinct (map p_id ps) \<and> distinct (readyQueue sch) \<and>
     set (readyQueue sch) \<subseteq> ready_ids ps)"

definition all_queued :: "sched_state \<Rightarrow> bool" where
  "all_queued = (\<lambda>(sch, ps). ready_ids ps \<subseteq> set (readyQueue sch))"

lemma ready_idsI: "i < length ps \<Longrightarrow> p_state (ps ! i) = Ready \<Longrightarrow> p_id (ps ! i) \<in> ready_ids ps"
  by (auto simp: ready_ids_def)

lemma ready_ids_nth:
  assumes "distinct (map p_id ps)" and "i < length ps"
  shows "p_id (ps ! i) \<in> ready_ids ps \<longleftrightarrow> p_state (ps ! i) = Ready"
proof
  assume "p_id (ps ! i) \<in> ready_ids ps"
  then obtain j where "j < length ps" "p_id (ps ! j) = p_id (ps ! i)" "p_state (ps ! j) = Ready"
    by (auto simp: ready_ids_def in_set_conv_nth)
  with assms show "p_state (ps ! i) = Ready" by (auto simp: distinct_conv_nth)
qed (use assms ready_idsI in blast)

lemma ready_ids_iff:
  "x \<in> ready_ids ps \<longleftrightarrow> (\<exists>j < length ps. p_id (ps ! j) = x \<and> p_state (ps ! j) = Ready)"
  by (fastforce simp: ready_ids_def in_set_conv_nth)

lemma ready_ids_update:
  assumes "distinct (map p_id ps)" and "i < length ps" and "p_id (f (ps ! i)) = p_id (ps ! i)"
  shows "ready_ids (update_process i f ps) =
    (if p_state (f (ps ! i)) = Ready then insert (p_id (ps ! i)) (ready_ids ps)
     else ready_ids ps - {p_id (ps ! i)})"
proof (rule set_eqI)
  fix x
  have inj: "p_id (ps ! j) = p_id (ps ! i) \<longleftrightarrow> j = i" if "j < length ps" for j
    using assms(1,2) that by (auto simp: distinct_conv_nth)
  have "x \<in> ready_ids (update_process i f ps) \<longleftrightarrow>
      (\<exists>j < length ps. p_id (ps ! j) = x \<and> (if j = i then p_state (f (ps ! i)) = Ready else p_state (ps ! j) = Ready))"
    using assms(3) by (auto simp: ready_ids_iff nth_update_process)
  also have "\<dots> \<longleftrightarrow> (if x = p_id (ps ! i) then p_state (f (ps ! i)) = Ready else x \<in> ready_ids ps)"
    using inj assms(2) by (auto simp: ready_ids_iff)
  finally show "x \<in> ready_ids (update_process i f ps) \<longleftrightarrow>
    x \<in> (if p_state (f (ps ! i)) = Ready then insert (p_id (ps ! i)) (ready_ids ps)
         else ready_ids ps - {p_id (ps ! i)})"
    by simp
qed

lemma enqueue_ready_set:
  "set (enqueue_ready ps q) = set q \<union> ready_ids ps"
  "distinct q \<Longrightarrow> distinct (enqueue_ready ps q)"
  by (induction ps q rule: enqueue_ready.induct) (auto simp: ready_ids_def)

lemma enqueue_ready_prefix: "\<exists>new. enqueue_ready ps q = q @ new"
proof (induction ps q rule: enqueue_ready.induct)
  case (2 p ps q)
  then show ?case by (auto split: if_splits)
qed simp

lemma notify_ok: "sched_ok s \<Longrightarrow> sched_ok (notifyProcessReady s) \<and> all_queued (notifyProcessReady s)"
  by (auto simp: notifyProcessReady_def sched_ok_def all_queued_def enqueue_ready_set split: prod.split)

lemma pick_from_queue_head:
  assumes "sched_ok (sch, ps)" and "readyQueue sch = pid # queue"
  shows "\<exists>i. pick_from_queue ps (pid # queue) = (Some i, queue) \<and> i < length ps \<and> p_id (ps ! i) = pid \<and>
    p_state (ps ! i) = Ready"
proof -
  have "pid \<in> ready_ids ps" using assms by (simp add: sched_ok_def)
  then have "first_index (\<lambda>p. p_id p = pid \<and> p_state p = Ready) ps \<noteq> None"
    by (auto simp: ready_ids_def)
  then obtain i where "first_index (\<lambda>p. p_id p = pid \<and> p_state p = Ready) ps = Some i" by blast
  then show ?thesis by (auto dest: first_indexD)
qed

text \<open>
  Under the invariant \<^verbatim>\<open>acquireProcess\<close> takes the head of the queue: the loop drops nothing and the
  round-robin scan is never reached.
\<close>

lemma acquire_head:
  assumes "sched_ok (sch, ps)" and "sch_running sch" and "readyQueue sch = pid # queue"
  shows "\<exists>i. acquireProcess (sch, ps) = Some (Some i, (sch\<lparr>readyQueue := queue\<rparr>,
      update_process i (dispatch (sch_quantum sch)) ps)) \<and>
    i < length ps \<and> p_id (ps ! i) = pid \<and> p_state (ps ! i) = Ready"
  using pick_from_queue_head [OF assms(1,3)] assms(2,3)
  by (auto simp: acquireProcess_def acquire_ready_def pickNextProcess_def)

lemma acquire_cases:
  assumes "sched_ok (sch, ps)" and "acquireProcess (sch, ps) = Some (r, s')"
  obtains (stopped) "\<not> sch_running sch" "r = None" "s' = (sch, ps)"
  | (head) i queue where "sch_running sch" "readyQueue sch = p_id (ps ! i) # queue" "r = Some i"
      "i < length ps" "p_state (ps ! i) = Ready"
      "s' = (sch\<lparr>readyQueue := queue\<rparr>, update_process i (dispatch (sch_quantum sch)) ps)"
proof (cases "sch_running sch")
  case False
  with assms(2) stopped show ?thesis by (simp add: acquireProcess_def acquire_ready_def)
next
  case True
  with assms(2) obtain pid queue where "readyQueue sch = pid # queue"
    by (cases "readyQueue sch") (simp_all add: acquireProcess_def acquire_ready_def)
  with acquire_head [OF assms(1) True] assms(2) True head show ?thesis by auto
qed

lemma acquire_ok:
  assumes "sched_ok s" and "acquireProcess s = Some (r, s')"
  shows "sched_ok s' \<and> (all_queued s \<longrightarrow> all_queued s')"
proof -
  obtain sch ps where s: "s = (sch, ps)" by (cases s)
  from assms(1) have sch: "sched_ok (sch, ps)" by (simp add: s)
  from assms(2) have "acquireProcess (sch, ps) = Some (r, s')" by (simp add: s)
  with sch show ?thesis
  proof (cases rule: acquire_cases)
    case stopped
    with sch show ?thesis by (simp add: s)
  next
    case (head i queue)
    have "map p_id (update_process i (dispatch q) ps) = map p_id ps" for q
      by (rule map_update_process) (simp add: dispatch_def frame_simps)
    moreover have "ready_ids (update_process i (dispatch q) ps) = ready_ids ps - {p_id (ps ! i)}" for q
      using sch head by (subst ready_ids_update) (auto simp: sched_ok_def dispatch_def frame_simps)
    ultimately show ?thesis
      using sch head by (auto simp: sched_ok_def all_queued_def s)
  qed
qed

lemma preempt_ok:
  assumes "sched_ok s" and "i < length (snd s)"
  shows "sched_ok (onPreempt i s) \<and> (all_queued s \<longrightarrow> all_queued (onPreempt i s))"
proof -
  obtain sch ps where s: "s = (sch, ps)" by (cases s)
  have "map p_id (update_process i (setState Ready) ps) = map p_id ps"
    by (rule map_update_process) (simp add: frame_simps)
  moreover have "ready_ids (update_process i (setState Ready) ps) = insert (p_id (ps ! i)) (ready_ids ps)"
    using assms by (subst ready_ids_update) (auto simp: sched_ok_def s frame_simps)
  moreover have "p_state (ps ! i) = Running \<Longrightarrow> p_id (ps ! i) \<notin> ready_ids ps"
    using assms by (simp add: ready_ids_nth sched_ok_def s)
  ultimately show ?thesis
    using assms by (auto simp: sched_ok_def all_queued_def s onPreempt_def)
qed

section \<open>The scheduler interface\<close>

text \<open>
  \<^verbatim>\<open>IScheduler\<close> as the cores use it, with the state change of a halting process, as a record of
  operations; \<open>sched_event\<close> is one use of it by a core, which holds at most one process.
\<close>

record 's scheduler_ops =
  op_acquire :: "'s \<Rightarrow> (pcb_ref option \<times> 's) option"
  op_preempt :: "pcb_ref \<Rightarrow> 's \<Rightarrow> 's"
  op_notify :: "'s \<Rightarrow> 's"
  op_halt :: "pcb_ref \<Rightarrow> 's \<Rightarrow> 's"

datatype sched_event = Acquire nat | Preempt nat | Halt nat | Notify

type_synonym ownership = "nat \<Rightarrow> pcb_ref option"

text \<open>The process that an event dispatches, and the effect of the event.\<close>

fun event_dispatch :: "'s scheduler_ops \<Rightarrow> sched_event \<Rightarrow> ownership \<times> 's \<Rightarrow> pcb_ref option" where
  "event_dispatch ops (Acquire c) (own, s) =
     (if own c = None then (case op_acquire ops s of Some (r, _) \<Rightarrow> r | None \<Rightarrow> None) else None)"
| "event_dispatch ops _ (own, s) = None"

fun event_step :: "'s scheduler_ops \<Rightarrow> sched_event \<Rightarrow> ownership \<times> 's \<Rightarrow> ownership \<times> 's" where
  "event_step ops (Acquire c) (own, s) =
     (if own c = None
      then (case op_acquire ops s of Some (r, s') \<Rightarrow> (own(c := r), s') | None \<Rightarrow> (own, s))
      else (own, s))"
| "event_step ops (Preempt c) (own, s) =
     (case own c of Some i \<Rightarrow> (own(c := None), op_preempt ops i s) | None \<Rightarrow> (own, s))"
| "event_step ops (Halt c) (own, s) =
     (case own c of Some i \<Rightarrow> (own(c := None), op_notify ops (op_halt ops i s)) | None \<Rightarrow> (own, s))"
| "event_step ops Notify (own, s) = (own, op_notify ops s)"

fun run_events :: "'s scheduler_ops \<Rightarrow> sched_event list \<Rightarrow> ownership \<times> 's \<Rightarrow> ownership \<times> 's" where
  "run_events ops [] x = x"
| "run_events ops (e # es) x = run_events ops es (event_step ops e x)"

fun dispatched :: "'s scheduler_ops \<Rightarrow> sched_event list \<Rightarrow> ownership \<times> 's \<Rightarrow> pcb_ref list" where
  "dispatched ops [] x = []"
| "dispatched ops (e # es) x =
     (case event_dispatch ops e x of Some i \<Rightarrow> [i] | None \<Rightarrow> []) @ dispatched ops es (event_step ops e x)"

text \<open>Every process that a core holds is running, and no two cores hold the same one.\<close>

definition exclusive :: "process_state list \<Rightarrow> ownership \<Rightarrow> bool" where
  "exclusive states own \<longleftrightarrow>
    (\<forall>c i. own c = Some i \<longrightarrow> i < length states \<and> states ! i = Running) \<and>
    (\<forall>c d i. own c = Some i \<and> own d = Some i \<longrightarrow> c = d)"

lemma exclusive_take:
  "exclusive st own \<Longrightarrow> own c = None \<Longrightarrow> i < length st \<Longrightarrow> st ! i \<noteq> Running \<Longrightarrow>
     exclusive (st[i := Running]) (own(c := Some i))"
  by (auto simp: exclusive_def nth_list_update split: if_splits)

lemma exclusive_release:
  "exclusive st own \<Longrightarrow> own c = Some i \<Longrightarrow> exclusive (st[i := s]) (own(c := None))"
  by (fastforce simp: exclusive_def nth_list_update)

lemma exclusive_held: "exclusive st own \<Longrightarrow> own c = Some i \<Longrightarrow> i < length st \<and> st ! i = Running"
  by (simp add: exclusive_def)

lemma exclusive_none: "exclusive st (\<lambda>_. None)"
  by (simp add: exclusive_def)

locale scheduler_interface =
  fixes ops :: "'s scheduler_ops"
    and states :: "'s \<Rightarrow> process_state list"
    and invar :: "'s \<Rightarrow> bool"
  assumes acquire_some: "invar s \<Longrightarrow> op_acquire ops s = Some (Some i, s') \<Longrightarrow>
      invar s' \<and> i < length (states s) \<and> states s ! i = Ready \<and> states s' = (states s)[i := Running]"
    and acquire_none: "invar s \<Longrightarrow> op_acquire ops s = Some (None, s') \<Longrightarrow>
      invar s' \<and> states s' = states s"
    and preempt_running: "invar s \<Longrightarrow> i < length (states s) \<Longrightarrow> states s ! i = Running \<Longrightarrow>
      invar (op_preempt ops i s) \<and> states (op_preempt ops i s) = (states s)[i := Ready]"
    and notify_keeps: "invar s \<Longrightarrow> invar (op_notify ops s) \<and> states (op_notify ops s) = states s"
    and halt_running: "invar s \<Longrightarrow> i < length (states s) \<Longrightarrow> states s ! i = Running \<Longrightarrow>
      invar (op_halt ops i s) \<and> states (op_halt ops i s) = (states s)[i := Halted]"
begin

lemma step_exclusive:
  assumes "event_step ops e (own, s) = (own', s')" and "invar s" and "exclusive (states s) own"
  shows "invar s' \<and> exclusive (states s') own'"
proof (cases e)
  case (Acquire c)
  show ?thesis
  proof (cases "own c = None \<and> op_acquire ops s \<noteq> None")
    case True
    then obtain r where r: "op_acquire ops s = Some (r, s')" "own' = own(c := r)"
      using assms(1) Acquire by auto
    with True assms(2,3) acquire_none [of s s'] acquire_some [of s _ s'] show ?thesis
      by (cases r) (simp_all add: exclusive_take fun_upd_idem)
  next
    case False
    with assms Acquire show ?thesis by (cases "op_acquire ops s") (auto split: if_splits)
  qed
next
  case (Preempt c)
  with assms exclusive_held [OF assms(3), of c] show ?thesis
    by (cases "own c") (auto simp: exclusive_release preempt_running)
next
  case (Halt c)
  with assms exclusive_held [OF assms(3), of c] show ?thesis
    by (cases "own c") (auto simp: exclusive_release halt_running notify_keeps)
next
  case Notify
  with assms show ?thesis by (auto simp: notify_keeps)
qed

lemma run_exclusive:
  "run_events ops es (own, s) = (own', s') \<Longrightarrow> invar s \<Longrightarrow> exclusive (states s) own \<Longrightarrow>
     invar s' \<and> exclusive (states s') own'"
proof (induction es arbitrary: own s)
  case (Cons e es)
  obtain own1 s1 where st: "event_step ops e (own, s) = (own1, s1)" by fastforce
  from step_exclusive [OF this Cons.prems(2,3)] have "invar s1" "exclusive (states s1) own1" by auto
  with Cons.IH [of own1 s1] Cons.prems(1) st show ?case by simp
qed simp

end

text \<open>A scheduler that serves in the order of arrival.\<close>

locale fifo_scheduler = scheduler_interface +
  fixes waiting :: "'a \<Rightarrow> ProcessId list"
    and ident :: "'a \<Rightarrow> pcb_ref \<Rightarrow> ProcessId"
  assumes acquire_first: "invar s \<Longrightarrow> op_acquire ops s = Some (Some i, s') \<Longrightarrow>
      waiting s = ident s i # waiting s' \<and> ident s' = ident s"
    and acquire_stopped: "invar s \<Longrightarrow> op_acquire ops s = Some (None, s') \<Longrightarrow>
      waiting s' = waiting s \<and> ident s' = ident s"
    and preempt_last: "invar s \<Longrightarrow> i < length (states s) \<Longrightarrow> states s ! i = Running \<Longrightarrow>
      waiting (op_preempt ops i s) = waiting s @ [ident s i] \<and> ident (op_preempt ops i s) = ident s"
    and notify_last: "invar s \<Longrightarrow>
      (\<exists>new. waiting (op_notify ops s) = waiting s @ new) \<and> ident (op_notify ops s) = ident s"
    and halt_waiting: "invar s \<Longrightarrow> waiting (op_halt ops i s) = waiting s \<and> ident (op_halt ops i s) = ident s"
begin

lemma step_fifo:
  assumes "event_step ops e (own, s) = (own', s')" and "invar s" and "exclusive (states s) own"
  shows "ident s' = ident s \<and>
    (\<exists>new. waiting s @ new =
      (case event_dispatch ops e (own, s) of Some i \<Rightarrow> [ident s i] | None \<Rightarrow> []) @ waiting s')"
proof (cases e)
  case (Acquire c)
  with assms show ?thesis
    by (auto split: if_splits option.splits dest: acquire_stopped dest!: acquire_first [rotated])
next
  case (Preempt c)
  with assms show ?thesis
    by (auto simp: preempt_last exclusive_def [of "states s"] split: option.splits)
next
  case (Halt c)
  show ?thesis
  proof (cases "own c")
    case (Some i)
    with assms exclusive_held have "invar (op_halt ops i s)" by (blast dest: halt_running)
    from notify_last [OF this] obtain new where
      "waiting (op_notify ops (op_halt ops i s)) = waiting (op_halt ops i s) @ new"
      "ident (op_notify ops (op_halt ops i s)) = ident (op_halt ops i s)" by blast
    with Some Halt assms halt_waiting [of s i] show ?thesis by auto
  qed (use assms Halt in auto)
next
  case Notify
  with assms show ?thesis using notify_last [of s] by auto
qed

lemma run_fifo:
  "run_events ops es (own, s) = (own', s') \<Longrightarrow> invar s \<Longrightarrow> exclusive (states s) own \<Longrightarrow>
     ident s' = ident s \<and> (\<exists>new. waiting s @ new = map (ident s) (dispatched ops es (own, s)) @ waiting s')"
proof (induction es arbitrary: own s)
  case (Cons e es)
  obtain own1 s1 where st: "event_step ops e (own, s) = (own1, s1)" by fastforce
  from step_exclusive [OF this Cons.prems(2,3)] have "invar s1" "exclusive (states s1) own1" by auto
  with Cons.IH [of own1 s1] Cons.prems(1) st obtain new1 where
    1: "ident s' = ident s1" "waiting s1 @ new1 = map (ident s1) (dispatched ops es (own1, s1)) @ waiting s'"
    by auto
  from step_fifo [OF st Cons.prems(2,3)] obtain new where
    2: "ident s1 = ident s" "waiting s @ new =
      (case event_dispatch ops e (own, s) of Some i \<Rightarrow> [ident s i] | None \<Rightarrow> []) @ waiting s1"
    by auto
  have "waiting s @ new @ new1 = map (ident s) (dispatched ops (e # es) (own, s)) @ waiting s'"
    using 1 2(1) st arg_cong [OF 2(2), of "\<lambda>xs. xs @ new1"] by (simp split: option.splits)
  with 1 2 show ?case by auto
qed simp

end

section \<open>The preemptive scheduler provides it\<close>

definition halt_process :: "pcb_ref \<Rightarrow> sched_state \<Rightarrow> sched_state" where
  "halt_process i = (\<lambda>(sch, ps). (sch, update_process i (setState Halted) ps))"

definition preemptive_ops :: "sched_state scheduler_ops" where
  "preemptive_ops = \<lparr>op_acquire = acquireProcess, op_preempt = onPreempt,
     op_notify = notifyProcessReady, op_halt = halt_process\<rparr>"

definition process_states :: "sched_state \<Rightarrow> process_state list" where
  "process_states s = map p_state (snd s)"

definition process_ident :: "sched_state \<Rightarrow> pcb_ref \<Rightarrow> ProcessId" where
  "process_ident s i = map p_id (snd s) ! i"

definition sched_inv :: "sched_state \<Rightarrow> bool" where
  "sched_inv s \<longleftrightarrow> sched_ok s \<and> all_queued s"

lemma sched_inv_notify: "sched_ok s \<Longrightarrow> sched_inv (notifyProcessReady s)"
  by (simp add: sched_inv_def notify_ok)

lemma sched_inv_queue: "sched_inv (sch, ps) \<Longrightarrow> set (readyQueue sch) = ready_ids ps"
  by (auto simp: sched_inv_def sched_ok_def all_queued_def)

lemma map_state_update:
  "map p_state (update_process i f ps) = (map p_state ps)[i := p_state (f (ps ! i))]"
  by (simp add: update_process_def map_update)

lemma halt_ok:
  assumes "sched_ok s" and "i < length (snd s)" and "p_state (snd s ! i) = Running"
  shows "sched_ok (halt_process i s) \<and> (all_queued s \<longrightarrow> all_queued (halt_process i s))"
proof -
  obtain sch ps where s: "s = (sch, ps)" by (cases s)
  have "map p_id (update_process i (setState Halted) ps) = map p_id ps"
    by (rule map_update_process) (simp add: frame_simps)
  moreover have "ready_ids (update_process i (setState Halted) ps) = ready_ids ps"
    using assms by (subst ready_ids_update) (auto simp: sched_ok_def s frame_simps ready_ids_nth)
  ultimately show ?thesis
    using assms by (simp add: sched_ok_def all_queued_def s halt_process_def)
qed

interpretation sched: fifo_scheduler preemptive_ops process_states sched_inv "\<lambda>s. readyQueue (fst s)" process_ident
proof unfold_locales
  fix s s' i
  assume inv: "sched_inv s" and acq: "op_acquire preemptive_ops s = Some (Some i, s')"
  obtain sch ps where s: "s = (sch, ps)" by (cases s)
  from inv have ok: "sched_ok s" by (simp add: sched_inv_def)
  from acq have a: "acquireProcess (sch, ps) = Some (Some i, s')" by (simp add: preemptive_ops_def s)
  have "sched_inv s'" using acquire_ok [OF ok] acq inv by (simp add: preemptive_ops_def sched_inv_def)
  with a ok s show "sched_inv s' \<and> i < length (process_states s) \<and> process_states s ! i = Ready \<and>
      process_states s' = (process_states s)[i := Running]"
    by (auto elim!: acquire_cases simp: process_states_def map_state_update dispatch_def frame_simps)
  have "map p_id (update_process i (dispatch q) ps) = map p_id ps" for q
    by (rule map_update_process) (simp add: dispatch_def frame_simps)
  with a ok s show "readyQueue (fst s) = process_ident s i # readyQueue (fst s') \<and> process_ident s' = process_ident s"
    by (auto elim!: acquire_cases simp: process_ident_def fun_eq_iff)
next
  fix s s'
  assume "sched_inv s" and "op_acquire preemptive_ops s = Some (None, s')"
  then have "s' = s" by (cases s) (auto simp: preemptive_ops_def sched_inv_def elim: acquire_cases)
  with \<open>sched_inv s\<close> show "sched_inv s' \<and> process_states s' = process_states s"
    and "readyQueue (fst s') = readyQueue (fst s) \<and> process_ident s' = process_ident s" by simp_all
next
  fix s :: sched_state and i
  assume "sched_inv s" and "i < length (process_states s)" and "process_states s ! i = Running"
  moreover have "map p_id (update_process i (setState x) ps) = map p_id ps" for ps x
    by (rule map_update_process) (simp add: frame_simps)
  ultimately show "sched_inv (op_preempt preemptive_ops i s) \<and>
      process_states (op_preempt preemptive_ops i s) = (process_states s)[i := Ready]"
    and "readyQueue (fst (op_preempt preemptive_ops i s)) = readyQueue (fst s) @ [process_ident s i] \<and>
      process_ident (op_preempt preemptive_ops i s) = process_ident s"
    and "sched_inv (op_halt preemptive_ops i s) \<and>
      process_states (op_halt preemptive_ops i s) = (process_states s)[i := Halted]"
    using preempt_ok [of s i] halt_ok [of s i]
    by (auto simp: preemptive_ops_def sched_inv_def onPreempt_def halt_process_def process_states_def process_ident_def
        map_state_update frame_simps fun_eq_iff split: prod.splits)
next
  fix s :: sched_state
  assume "sched_inv s"
  then show "sched_inv (op_notify preemptive_ops s) \<and> process_states (op_notify preemptive_ops s) = process_states s"
    using notify_ok [of s]
    by (simp add: preemptive_ops_def sched_inv_def process_states_def notifyProcessReady_def split: prod.splits)
  show "(\<exists>new. readyQueue (fst (op_notify preemptive_ops s)) = readyQueue (fst s) @ new) \<and>
      process_ident (op_notify preemptive_ops s) = process_ident s"
    using enqueue_ready_prefix [of "snd s" "readyQueue (fst s)"]
    by (auto simp: preemptive_ops_def process_ident_def notifyProcessReady_def fun_eq_iff split: prod.splits)
next
  fix s :: sched_state and i
  have "map p_id (update_process i (setState x) ps) = map p_id ps" for ps x
    by (rule map_update_process) (simp add: frame_simps)
  then show "readyQueue (fst (op_halt preemptive_ops i s)) = readyQueue (fst s) \<and>
      process_ident (op_halt preemptive_ops i s) = process_ident s"
    by (auto simp: preemptive_ops_def halt_process_def process_ident_def fun_eq_iff split: prod.splits)
qed

section \<open>Properties of the scheduler\<close>

lemma round_robin_range: "0 < n \<Longrightarrow> round_robin_position start n i < n"
  by (simp add: round_robin_position_def)

lemma round_robin_covers:
  assumes "unat start \<le> n" and "n < 2 ^ 63" and "j < n"
  shows "\<exists>i < n. round_robin_position start n i = j"
proof -
  define i where "i = (if unat start \<le> j then j - unat start else j + n - unat start)"
  have i: "i < n" using assms by (auto simp: i_def)
  then have "unat (of_nat i :: u64) = i"
    using assms(2) by (simp add: unsigned_of_nat take_bit_nat_eq_self)
  moreover have "unat start + i < 18446744073709551616"
    using i assms(1,2) by simp
  ultimately have "unat (start + of_nat i) = unat start + i"
    by (subst unat_add_u64) simp_all
  moreover have "(unat start + i) mod n = j"
    using assms by (auto simp: i_def)
  ultimately show ?thesis
    using i by (auto simp: round_robin_position_def)
qed

lemma pick_round_robin_Some:
  assumes "unat start \<le> length ps" and "length ps < 2 ^ 63" and "p \<in> set ps" and "p_state p = Ready"
  shows "\<exists>i. pick_round_robin ps start = Some i \<and> i < length ps \<and> p_state (ps ! i) = Ready"
proof -
  from assms(3) obtain j where j: "j < length ps" "ps ! j = p" by (auto simp: in_set_conv_nth)
  from round_robin_covers [OF assms(1,2) j(1)] obtain i where
    "i < length ps" "round_robin_position start (length ps) i = j" by blast
  with j assms(4) have "first_index (\<lambda>i. p_state (ps ! round_robin_position start (length ps) i) = Ready) [0..<length ps] \<noteq> None"
    by auto
  then obtain k where k: "first_index (\<lambda>i. p_state (ps ! round_robin_position start (length ps) i) = Ready) [0..<length ps] = Some k"
    by blast
  moreover have "0 < length ps" using j(1) by (rule le_less_trans [OF le0])
  ultimately show ?thesis
    using first_indexD [OF k] round_robin_range [of "length ps" start k]
    by (auto simp: pick_round_robin_def)
qed

lemma pick_from_queue_ready:
  "pick_from_queue ps q = (Some i, q') \<Longrightarrow> i < length ps \<and> p_state (ps ! i) = Ready"
  by (induction ps q rule: pick_from_queue.induct) (auto split: option.splits dest: first_indexD)

text \<open>C25: \<^verbatim>\<open>pickNextProcess\<close> finds a process whenever one is ready, whatever the queue holds (stale
  identifiers, duplicates, or nothing): the round-robin scan visits every position. What it
  returns was ready, is now running with a full time slice, and no other process is touched.\<close>

theorem pick_finds_ready_process:
  assumes "unat (roundRobinIndex sch) \<le> length ps" and "length ps < 2 ^ 63"
    and "p \<in> set ps" and "p_state p = Ready"
  shows "\<exists>i sch'. pickNextProcess (sch, ps) = (Some i, (sch', update_process i (dispatch (sch_quantum sch)) ps)) \<and>
    i < length ps \<and> p_state (ps ! i) = Ready"
proof (cases "pick_from_queue ps (readyQueue sch)")
  case (Pair r q)
  show ?thesis
  proof (cases r)
    case None
    with Pair pick_round_robin_Some [OF assms] show ?thesis
      by (auto simp: pickNextProcess_def Let_def)
  next
    case (Some i)
    with Pair show ?thesis
      using pick_from_queue_ready [of ps "readyQueue sch" i q] by (simp add: pickNextProcess_def)
  qed
qed

lemma acquire_waits_iff:
  assumes "sched_inv (sch, ps)"
  shows "acquireProcess (sch, ps) = None \<longleftrightarrow> sch_running sch \<and> (\<forall>p \<in> set ps. p_state p \<noteq> Ready)"
    and "(\<exists>s'. acquireProcess (sch, ps) = Some (None, s')) \<longleftrightarrow> \<not> sch_running sch"
proof -
  from assms have "sched_ok (sch, ps)" by (simp add: sched_inv_def)
  moreover have "readyQueue sch = [] \<longleftrightarrow> (\<forall>p \<in> set ps. p_state p \<noteq> Ready)"
    using sched_inv_queue [OF assms] by (cases "readyQueue sch") (auto simp: ready_ids_def)
  ultimately show "acquireProcess (sch, ps) = None \<longleftrightarrow> sch_running sch \<and> (\<forall>p \<in> set ps. p_state p \<noteq> Ready)"
    and "(\<exists>s'. acquireProcess (sch, ps) = Some (None, s')) \<longleftrightarrow> \<not> sch_running sch"
    by (cases "readyQueue sch";
        auto simp: acquireProcess_def acquire_ready_def dest: pick_from_queue_head [of sch ps]
          simp: pickNextProcess_def)+
qed

text \<open>C26: Under the queue invariant a core that asks for a process waits exactly when the scheduler runs
  and no process is ready, and gets nothing exactly when the scheduler was stopped.\<close>

theorem acquire_waits_only_when_idle:
  assumes "sched_inv (sch, ps)"
  shows "(acquireProcess (sch, ps) = None \<longleftrightarrow> sch_running sch \<and> (\<forall>p \<in> set ps. p_state p \<noteq> Ready)) \<and>
    ((\<exists>s'. acquireProcess (sch, ps) = Some (None, s')) \<longleftrightarrow> \<not> sch_running sch)"
  using acquire_waits_iff [OF assms] by blast

text \<open>Mutual exclusion: whatever acquisitions, preemptions, halts and notifications the cores issue,
  no two cores ever hold the same process, every process that a core holds is running, and the
  ready queue still holds exactly the ready processes, each once.\<close>

lemma cores_hold_processes_exclusively:
  assumes "sched_inv s" and "run_events preemptive_ops es ((\<lambda>_. None), s) = (own, (sch', ps'))"
  shows "(\<forall>c d i. own c = Some i \<and> own d = Some i \<longrightarrow> c = d) \<and>
    (\<forall>c i. own c = Some i \<longrightarrow> i < length ps' \<and> p_state (ps' ! i) = Running) \<and>
    distinct (readyQueue sch') \<and> set (readyQueue sch') = ready_ids ps'"
proof -
  have inv: "sched_inv (sch', ps')" and ex: "exclusive (process_states (sch', ps')) own"
    using sched.run_exclusive [OF assms(2,1) exclusive_none] by simp_all
  have "i < length ps' \<and> p_state (ps' ! i) = Running" if "own c = Some i" for c i
    using exclusive_held [OF ex that] by (auto simp: process_states_def)
  moreover have "\<forall>c d i. own c = Some i \<and> own d = Some i \<longrightarrow> c = d"
    using ex unfolding exclusive_def by (rule conjunct2)
  moreover have "distinct (readyQueue sch')" using inv by (simp add: sched_inv_def sched_ok_def)
  ultimately show ?thesis using sched_inv_queue [OF inv] by blast
qed

text \<open>C24: No starvation: processes are dispatched in the order of the queue. In any run, the \<open>k\<close>-th
  process dispatched is the \<open>k\<close>-th of the queue at the start, however the cores interleave and
  whatever is enqueued meanwhile.\<close>

theorem dispatch_is_fifo:
  assumes "sched_inv s" and "k < length (readyQueue (fst s))"
    and "k < length (dispatched preemptive_ops es ((\<lambda>_. None), s))"
  shows "process_ident s (dispatched preemptive_ops es ((\<lambda>_. None), s) ! k) = readyQueue (fst s) ! k"
proof -
  obtain own' s' where "run_events preemptive_ops es ((\<lambda>_. None), s) = (own', s')"
    by (metis prod.exhaust)
  from sched.run_fifo [OF this assms(1) exclusive_none] obtain new where
    "readyQueue (fst s) @ new = map (process_ident s) (dispatched preemptive_ops es ((\<lambda>_. None), s)) @ readyQueue (fst s')"
    by auto
  then have "(readyQueue (fst s) @ new) ! k =
      (map (process_ident s) (dispatched preemptive_ops es ((\<lambda>_. None), s)) @ readyQueue (fst s')) ! k"
    by simp
  with assms(2,3) show ?thesis by (simp add: nth_append)
qed

section \<open>Witnesses\<close>

fun sample_processes_from :: "ProcessId \<Rightarrow> process_state list \<Rightarrow> pcb list" where
  "sample_processes_from n [] = []"
| "sample_processes_from n (st # sts) =
     setState st (ProcessControlBlock n ''p'' MemoryRegionLayout) # sample_processes_from (n + 1) sts"

definition sample_processes :: "process_state list \<Rightarrow> pcb list" where
  "sample_processes = sample_processes_from 1"

definition sample_scheduler :: "process_state list \<Rightarrow> sched_state" where
  "sample_scheduler sts = notifyProcessReady (PreemptiveScheduler 100, sample_processes sts)"

lemmas sample_sched_simps =
  sample_scheduler_def sample_processes_def PreemptiveScheduler_def ProcessControlBlock_def
  notifyProcessReady_def setState_def

lemma sample_scheduler_inv: "sched_inv (sample_scheduler [Ready, Ready, Halted])"
  unfolding sample_scheduler_def
  by (rule sched_inv_notify) (simp add: sample_sched_simps sched_ok_def)

theorem pick_finds_ready_process_witness:
  "\<exists>i sch'. pickNextProcess (PreemptiveScheduler 7, sample_processes [Halted, Ready]) =
     (Some i, (sch', update_process i (dispatch 7) (sample_processes [Halted, Ready])))"
proof -
  have "sample_processes [Halted, Ready] ! 1 \<in> set (sample_processes [Halted, Ready])"
    by (rule nth_mem) (simp add: sample_sched_simps)
  then show ?thesis
    using pick_finds_ready_process [of "PreemptiveScheduler 7" "sample_processes [Halted, Ready]"
        "sample_processes [Halted, Ready] ! 1"]
    by (auto simp: sample_sched_simps)
qed

theorem acquire_waits_only_when_idle_witness:
  "acquireProcess (sample_scheduler [Ready, Ready, Halted]) \<noteq> None"
  using acquire_waits_only_when_idle [of "fst (sample_scheduler [Ready, Ready, Halted])"
      "snd (sample_scheduler [Ready, Ready, Halted])"] sample_scheduler_inv
  by (simp add: sample_sched_simps)

theorem cores_hold_processes_exclusively_witness:
  "(let (own, s) = run_events preemptive_ops [Acquire 0, Acquire 1, Preempt 0, Acquire 2, Halt 1]
       ((\<lambda>_. None), sample_scheduler [Ready, Ready, Halted]) in \<forall>c d i. own c = Some i \<and> own d = Some i \<longrightarrow> c = d)"
  using cores_hold_processes_exclusively [OF sample_scheduler_inv,
      of "[Acquire 0, Acquire 1, Preempt 0, Acquire 2, Halt 1]"]
  by (auto simp: Let_def simp del: run_events.simps split: prod.split)

theorem dispatch_is_fifo_witness:
  "process_ident (sample_scheduler [Ready, Ready, Halted])
     (dispatched preemptive_ops [Acquire 0, Acquire 1] ((\<lambda>_. None), sample_scheduler [Ready, Ready, Halted]) ! 1) = 2"
  using dispatch_is_fifo [OF sample_scheduler_inv, of 1 "[Acquire 0, Acquire 1]"]
  by (simp add: sample_sched_simps preemptive_ops_def acquireProcess_def acquire_ready_def
      pickNextProcess_def update_process_def dispatch_def on_context_def)

end
