(* ===== verification/Opcode_Table.thy ===== *)
theory Opcode_Table
  imports VM_Types
begin

text \<open>
  The mnemonics (\<^verbatim>\<open>src/vm/isa/opcode_table.cpp\<close>): the map from names to opcodes that the
  assembler uses and the names that the tracer prints.
\<close>

definition mnemonics :: "(string \<times> opcode) list" where
  "mnemonics =
    [(''mov'', OP_MOV), (''add'', OP_ADD), (''sub'', OP_SUB),
     (''mul'', OP_MUL), (''div'', OP_DIV), (''mod'', OP_MOD),
     (''inc'', OP_INC), (''dec'', OP_DEC), (''and'', OP_AND),
     (''or'', OP_OR), (''xor'', OP_XOR), (''not'', OP_NOT),
     (''cmp'', OP_CMP), (''jmp'', OP_JMP), (''je'', OP_JE),
     (''jne'', OP_JNE), (''jg'', OP_JG), (''jge'', OP_JGE),
     (''jl'', OP_JL), (''jle'', OP_JLE), (''load'', OP_LOAD),
     (''store'', OP_STORE), (''push'', OP_PUSH), (''pop'', OP_POP),
     (''ret'', OP_RET), (''halt'', OP_HALT), (''nop'', OP_NOP)]"

definition mnemonicToOpcode :: "string \<Rightarrow> vm_exception + opcode" where
  "mnemonicToOpcode name =
    (case map_of mnemonics name of
       None \<Rightarrow> Inl (AssemblerError 0 (''unknown opcode: '' @ name))
     | Some op \<Rightarrow> Inr op)"

fun opcodeToMnemonic :: "opcode \<Rightarrow> string" where
  "opcodeToMnemonic OP_MOV = ''mov''"
| "opcodeToMnemonic OP_ADD = ''add''"
| "opcodeToMnemonic OP_SUB = ''sub''"
| "opcodeToMnemonic OP_MUL = ''mul''"
| "opcodeToMnemonic OP_DIV = ''div''"
| "opcodeToMnemonic OP_MOD = ''mod''"
| "opcodeToMnemonic OP_INC = ''inc''"
| "opcodeToMnemonic OP_DEC = ''dec''"
| "opcodeToMnemonic OP_AND = ''and''"
| "opcodeToMnemonic OP_OR = ''or''"
| "opcodeToMnemonic OP_XOR = ''xor''"
| "opcodeToMnemonic OP_NOT = ''not''"
| "opcodeToMnemonic OP_CMP = ''cmp''"
| "opcodeToMnemonic OP_JMP = ''jmp''"
| "opcodeToMnemonic OP_JE = ''je''"
| "opcodeToMnemonic OP_JNE = ''jne''"
| "opcodeToMnemonic OP_JG = ''jg''"
| "opcodeToMnemonic OP_JGE = ''jge''"
| "opcodeToMnemonic OP_JL = ''jl''"
| "opcodeToMnemonic OP_JLE = ''jle''"
| "opcodeToMnemonic OP_LOAD = ''load''"
| "opcodeToMnemonic OP_STORE = ''store''"
| "opcodeToMnemonic OP_CALL = ''call''"
| "opcodeToMnemonic OP_HALT = ''halt''"
| "opcodeToMnemonic OP_NOP = ''nop''"
| "opcodeToMnemonic OP_PUSH = ''push''"
| "opcodeToMnemonic OP_POP = ''pop''"
| "opcodeToMnemonic OP_RET = ''ret''"
| "opcodeToMnemonic (OP_unnamed b) = ''???''"

text \<open>The two tables agree on every opcode but \<^verbatim>\<open>CALL\<close>, which the assembler handles by itself.\<close>

lemma mnemonic_round_trip:
  "mnemonicToOpcode (opcodeToMnemonic op) = Inr op \<longleftrightarrow> is_named op \<and> op \<noteq> OP_CALL"
  by (cases op) (simp_all add: mnemonicToOpcode_def mnemonics_def)

lemma mnemonic_only_names:
  "mnemonicToOpcode name = Inr op \<Longrightarrow> name = opcodeToMnemonic op"
  by (auto simp: mnemonicToOpcode_def mnemonics_def split: option.splits if_splits)

lemma mnemonicToOpcode_simps [simp]:
  "mnemonicToOpcode ''mov'' = Inr OP_MOV" "mnemonicToOpcode ''add'' = Inr OP_ADD"
  "mnemonicToOpcode ''sub'' = Inr OP_SUB" "mnemonicToOpcode ''cmp'' = Inr OP_CMP"
  "mnemonicToOpcode ''dec'' = Inr OP_DEC" "mnemonicToOpcode ''jne'' = Inr OP_JNE"
  "mnemonicToOpcode ''mul'' = Inr OP_MUL" "mnemonicToOpcode ''inc'' = Inr OP_INC"
  "mnemonicToOpcode ''store'' = Inr OP_STORE" "mnemonicToOpcode ''load'' = Inr OP_LOAD"
  by (simp_all add: mnemonicToOpcode_def mnemonics_def)

end
