(* ===== verification/Syscalls.thy ===== *)
theory Syscalls
  imports Scheduler Opcode_Table
begin

text \<open>
  The state of the whole machine and the system calls (\<^verbatim>\<open>src/vm/os/syscall_handler.cpp\<close>), with the
  standard streams they use and the tracers that instructions are reported to
  (\<^verbatim>\<open>src/vm/debug/\<close>). The load callback, a \<^verbatim>\<open>std::function\<close> that may be empty, is an optional parameter.
\<close>

section \<open>Streams\<close>

text \<open>An input stream: the characters that are left and its fail bit.\<close>

record input_stream =
  is_rest :: string
  is_fail :: bool

text \<open>
  \<^verbatim>\<open>in >> value\<close> for a 32-bit unsigned \<^verbatim>\<open>value\<close> in the default locale: white space is skipped, then
  an optional sign and decimal digits are read. No digit, a number that does not fit, or a stream
  that has already failed sets the fail bit; a minus sign negates modulo \<open>2 ^ 32\<close>.
\<close>

definition extract_word :: "input_stream \<Rightarrow> Word \<times> input_stream" where
  "extract_word s =
    (if is_fail s then (0, s)
     else let s1 = dropWhile is_space (is_rest s);
              negative = (s1 \<noteq> [] \<and> hd s1 = CHR ''-'');
              s2 = (if s1 \<noteq> [] \<and> (hd s1 = CHR ''-'' \<or> hd s1 = CHR ''+'') then tl s1 else s1);
              ds = takeWhile is_digit s2;
              rest = dropWhile is_digit s2
          in if ds = [] then (0, \<lparr>is_rest = rest, is_fail = True\<rparr>)
             else if 2 ^ 32 \<le> digits_val ds then (- 1, \<lparr>is_rest = rest, is_fail = True\<rparr>)
             else (if negative then - of_nat (digits_val ds) else of_nat (digits_val ds),
                   \<lparr>is_rest = rest, is_fail = False\<rparr>))"

section \<open>The machine\<close>

text \<open>
  A pointer to an \<^verbatim>\<open>IExecutionTracer\<close>: the printer of the repository, or an object of a client, told apart by
  a number. What a client's tracer does with a call is its own code; the machine records that it was
  called, with which arguments.
\<close>

datatype tracer = StdoutTracer | ClientTracer nat

record trace_event =
  te_pid :: ProcessId
  te_pc :: Address
  te_instruction :: decoded_instruction
  te_registers :: register_file

text \<open>
  The members of \<^verbatim>\<open>VirtualOS\<close> that the running system shares: physical memory, process table,
  scheduler, the streams \<^verbatim>\<open>std::cout\<close>, \<^verbatim>\<open>std::cin\<close> and \<^verbatim>\<open>std::cerr\<close>, and the tracer - one
  field for the pointers of the system and of its cores, which are only ever assigned together -; further the calls that tracers of clients have received.
\<close>

record machine =
  vm_phys :: phys_mem
  vm_table :: process_table
  vm_sched :: scheduler
  vm_out :: string
  vm_in :: input_stream
  vm_err :: string
  vm_tracer :: "tracer option"
  vm_calls :: "(nat \<times> trace_event) list"

definition processes :: "machine \<Rightarrow> pcb list" where
  "processes m = pt_processes (vm_table m)"

definition on_process :: "pcb_ref \<Rightarrow> (pcb \<Rightarrow> pcb) \<Rightarrow> machine \<Rightarrow> machine" where
  "on_process i f m =
    m\<lparr>vm_table := (vm_table m)\<lparr>pt_processes := update_process i f (pt_processes (vm_table m))\<rparr>\<rparr>"

definition sched_view :: "machine \<Rightarrow> sched_state" where
  "sched_view m = (vm_sched m, processes m)"

definition on_scheduler :: "(sched_state \<Rightarrow> sched_state) \<Rightarrow> machine \<Rightarrow> machine" where
  "on_scheduler f m =
    (case f (sched_view m) of (sch, ps) \<Rightarrow>
       m\<lparr>vm_sched := sch, vm_table := (vm_table m)\<lparr>pt_processes := ps\<rparr>\<rparr>)"

text \<open>\<^verbatim>\<open>process.memory().\<dots>\<close>\<close>

definition process_memory :: "pcb_ref \<Rightarrow> (region_layout \<Rightarrow> (phys_mem, 'a) vm) \<Rightarrow> (machine, 'a) vm" where
  "process_memory i op =
    (\<lambda>m. case op (p_memory (processes m ! i)) (vm_phys m) of (r, pm) \<Rightarrow> (r, m\<lparr>vm_phys := pm\<rparr>))"

section \<open>System calls\<close>

type_synonym load_callback = "string \<Rightarrow> (machine, ProcessId) vm"

text \<open>The loop of \<^verbatim>\<open>Load\<close>: the path, up to a zero byte and at most \<open>n\<close> characters.\<close>

fun read_path :: "nat \<Rightarrow> pcb_ref \<Rightarrow> Address \<Rightarrow> (machine, string) vm" where
  "read_path 0 i address = vreturn []"
| "read_path (Suc n) i address =
     vbind (process_memory i (\<lambda>l. readDataByte l address)) (\<lambda>byte.
     if byte = 0 then vreturn []
     else vbind (read_path n i (address + 1)) (\<lambda>path. vreturn (char_of (unat byte) # path)))"

definition syscall_print :: "pcb_ref \<Rightarrow> Word \<Rightarrow> (machine, unit) vm" where
  "syscall_print i argAddress =
    vbind (process_memory i (\<lambda>l. readDataWord l argAddress)) (\<lambda>value.
    vmodify (\<lambda>m. m\<lparr>vm_out := vm_out m @ show_word value @ [CHR 0x0A]\<rparr>))"

definition syscall_scan :: "pcb_ref \<Rightarrow> Word \<Rightarrow> (machine, unit) vm" where
  "syscall_scan i argAddress =
    vbind (vgets (\<lambda>m. extract_word (vm_in m))) (\<lambda>(value, stream).
    vseq (vmodify (\<lambda>m. m\<lparr>vm_in := stream\<rparr>))
    (if is_fail stream then vthrow (VmException ''syscall scan: failed to read integer from input'')
     else process_memory i (\<lambda>l. writeDataWord l argAddress value)))"

definition syscall_exit :: "pcb_ref \<Rightarrow> (machine, unit) vm" where
  "syscall_exit i = vmodify (on_process i (\<lambda>p. on_context (setHalted True) (setState Halted p)))"

definition syscall_yield :: "pcb_ref \<Rightarrow> (machine, unit) vm" where
  "syscall_yield i = vmodify (on_process i (on_context (setShouldYield True)))"

definition syscall_load :: "load_callback option \<Rightarrow> pcb_ref \<Rightarrow> Word \<Rightarrow> (machine, unit) vm" where
  "syscall_load loadCallback i argAddress =
    vbind (read_path 256 i argAddress) (\<lambda>path.
    case loadCallback of
      None \<Rightarrow> vthrow (VmException ''syscall load: load callback is not configured'')
    | Some load \<Rightarrow> vbind (load path) (\<lambda>_. vreturn ()))"

fun handle_syscall :: "load_callback option \<Rightarrow> syscall_id \<Rightarrow> pcb_ref \<Rightarrow> Word \<Rightarrow> (machine, unit) vm" where
  "handle_syscall loadCallback SYS_Print i argAddress = syscall_print i argAddress"
| "handle_syscall loadCallback SYS_Scan i argAddress = syscall_scan i argAddress"
| "handle_syscall loadCallback SYS_Exit i argAddress = syscall_exit i"
| "handle_syscall loadCallback SYS_Yield i argAddress = syscall_yield i"
| "handle_syscall loadCallback SYS_Load i argAddress = syscall_load loadCallback i argAddress"
| "handle_syscall loadCallback (SYS_unnamed n) i argAddress = vreturn ()"

section \<open>Trace\<close>

definition trace_line :: "ProcessId \<Rightarrow> Address \<Rightarrow> decoded_instruction \<Rightarrow> register_file \<Rightarrow> string" where
  "trace_line pid pc insn regs =
    ''[pid='' @ show_word pid @ '' pc='' @ show_word pc @ ''] '' @ opcodeToMnemonic (d_opcode insn) @ '' | '' @
    concat (map (\<lambda>k. registerNameFromIndex (of_nat k) @ ''='' @ show_word (rf_gpr regs ! k) @ '' '') [0..<kRegisterCount]) @
    ''sp='' @ show_word (rf_sp regs) @ [CHR 0x0A]"

fun onInstruction :: "tracer \<Rightarrow> ProcessId \<Rightarrow> Address \<Rightarrow> decoded_instruction \<Rightarrow> register_file \<Rightarrow> machine \<Rightarrow> machine" where
  "onInstruction StdoutTracer pid pc insn regs m = m\<lparr>vm_err := vm_err m @ trace_line pid pc insn regs\<rparr>"
| "onInstruction (ClientTracer k) pid pc insn regs m =
     m\<lparr>vm_calls := vm_calls m @
        [(k, \<lparr>te_pid = pid, te_pc = pc, te_instruction = insn, te_registers = regs\<rparr>)]\<rparr>"

lemma onInstruction_fields [simp]:
  "vm_phys (onInstruction t pid pc insn regs m) = vm_phys m"
  "vm_table (onInstruction t pid pc insn regs m) = vm_table m"
  "vm_sched (onInstruction t pid pc insn regs m) = vm_sched m"
  "vm_out (onInstruction t pid pc insn regs m) = vm_out m"
  "vm_in (onInstruction t pid pc insn regs m) = vm_in m"
  "vm_tracer (onInstruction t pid pc insn regs m) = vm_tracer m"
  "processes (onInstruction t pid pc insn regs m) = processes m"
  by (cases t; simp add: processes_def)+

section \<open>Frame\<close>

text \<open>
  What running process \<open>i\<close> may do to the machine: entries are only added to the table, the other
  processes that were there keep their blocks, and process \<open>i\<close> keeps its identifier and layout.
\<close>

definition machine_frame :: "pcb_ref \<Rightarrow> machine \<Rightarrow> machine \<Rightarrow> bool" where
  "machine_frame i m m' \<longleftrightarrow>
    length (processes m) \<le> length (processes m') \<and>
    (\<forall>j < length (processes m). j \<noteq> i \<longrightarrow> processes m' ! j = processes m ! j) \<and>
    (i < length (processes m) \<longrightarrow> p_id (processes m' ! i) = p_id (processes m ! i) \<and>
       p_memory (processes m' ! i) = p_memory (processes m ! i)) \<and>
    pm_size (vm_phys m') = pm_size (vm_phys m)"

interpretation machine_fr: frame_relation "machine_frame i" for i
proof unfold_locales
  fix s s' s''
  show "machine_frame i s s" by (simp add: machine_frame_def)
  assume "machine_frame i s s'" and "machine_frame i s' s''"
  then show "machine_frame i s s''" by (auto simp: machine_frame_def)
qed

lemma processes_on_process [frame_simps]:
  "processes (on_process i f m) = update_process i f (processes m)"
  "vm_phys (on_process i f m) = vm_phys m" "vm_sched (on_process i f m) = vm_sched m"
  "vm_out (on_process i f m) = vm_out m" "vm_in (on_process i f m) = vm_in m"
  by (simp_all add: processes_def on_process_def)

lemma frame_on_process:
  assumes "\<And>p. p_id (f p) = p_id p" and "\<And>p. p_memory (f p) = p_memory p"
  shows "machine_frame i m (on_process i f m)"
  using assms by (auto simp: machine_frame_def frame_simps nth_update_process)

lemma frame_process_memory:
  assumes "\<And>l pm. pm_size (snd (op l pm)) = pm_size pm"
  shows "respecting (machine_frame i) (process_memory i op)"
proof (rule respectsI)
  fix m
  show "machine_frame i m (snd (process_memory i op m))"
    using assms by (auto simp: process_memory_def machine_frame_def processes_def split: prod.split)
      (metis snd_conv)
qed

lemma readDataByte_keeps: "snd (readDataByte l off pm) = pm"
  by (simp add: readDataByte_def readByte_def validateRange_def validateDataOffset_def vm_run Let_def
      split: sum.split)

lemma frame_machine_fields:
  "respecting (machine_frame i) (vmodify (\<lambda>m. m\<lparr>vm_out := f m\<rparr>))"
  "respecting (machine_frame i) (vmodify (\<lambda>m. m\<lparr>vm_in := g m\<rparr>))"
  "respecting (machine_frame i) (vmodify (\<lambda>m. m\<lparr>vm_err := f m\<rparr>))"
  by (auto simp: machine_frame_def processes_def intro!: respects_modify)

lemma frame_memory_ops:
  "respecting (machine_frame i) (process_memory i (\<lambda>l. readDataWord l a))"
  "respecting (machine_frame i) (process_memory i (\<lambda>l. readDataByte l a))"
  "respecting (machine_frame i) (process_memory i (\<lambda>l. writeDataWord l a v))"
  using writeDataWord_sizes
  by (auto intro!: frame_process_memory simp: readDataWord_keeps readDataByte_keeps) (metis prod.collapse)

lemma frame_read_path: "respecting (machine_frame i) (read_path n i a)"
  by (induction n arbitrary: a) (auto intro!: machine_fr.respects_intros frame_memory_ops)

lemma handle_syscall_frame:
  assumes "\<And>load path. loadCallback = Some load \<Longrightarrow> respecting (machine_frame i) (load path)"
  shows "respecting (machine_frame i) (handle_syscall loadCallback sc i a)"
proof (cases sc)
  case SYS_Exit
  then show ?thesis
    by (auto simp: syscall_exit_def pcb_defs intro!: respects_modify frame_on_process)
next
  case SYS_Yield
  then show ?thesis
    by (auto simp: syscall_yield_def pcb_defs intro!: respects_modify frame_on_process)
qed (use assms in \<open>auto simp: syscall_print_def syscall_scan_def syscall_load_def
      intro!: machine_fr.respects_intros frame_memory_ops frame_machine_fields frame_read_path
      split: option.split prod.split\<close>)

end
