(* ===== verification/Cpu_Core.thy ===== *)
theory Cpu_Core
  imports Syscalls
begin

text \<open>
  A processor core (\<^verbatim>\<open>src/vm/cpu/virtual_cpu_core.cpp\<close>): fetching, decoding and executing one
  instruction of a process, and giving a process back to the scheduler. A core has exclusive use of
  its process while it executes; the loop of the core and the threads are in the theory of the
  system.
\<close>

section \<open>One instruction\<close>

definition registers_of :: "pcb_ref \<Rightarrow> machine \<Rightarrow> register_file" where
  "registers_of i m = cx_registers (p_context (processes m ! i))"

definition on_process_context :: "pcb_ref \<Rightarrow> (cpu_context \<Rightarrow> cpu_context) \<Rightarrow> (machine, unit) vm" where
  "on_process_context i f = vmodify (on_process i (on_context f))"

definition advance_context :: "cpu_context \<Rightarrow> cpu_context" where
  "advance_context c = c\<lparr>cx_registers := advancePc (cx_registers c)\<rparr>"

text \<open>\<^verbatim>\<open>if (cpu.timeSliceLeft() > 0) cpu.setTimeSliceLeft(cpu.timeSliceLeft() - 1);\<close>\<close>

definition use_time_slice :: "cpu_context \<Rightarrow> cpu_context" where
  "use_time_slice c =
    (if 0 < cx_timeSliceLeft c then setTimeSliceLeft (cx_timeSliceLeft c - 1) c else c)"

text \<open>\<^verbatim>\<open>ExecutionContext ctx{cpu, memory, &process}\<close>: references into the control block.\<close>

definition execution_context :: "pcb_ref \<Rightarrow> machine \<Rightarrow> exec_context" where
  "execution_context i m =
    \<lparr>ec_cpu = p_context (processes m ! i), ec_memory = p_memory (processes m ! i),
     ec_phys = vm_phys m, ec_process = Some (p_lastError (processes m ! i))\<rparr>"

definition write_context :: "pcb_ref \<Rightarrow> exec_context \<Rightarrow> machine \<Rightarrow> machine" where
  "write_context i c m =
    on_process i (\<lambda>p. p\<lparr>p_context := ec_cpu c,
                        p_lastError := (case ec_process c of Some e \<Rightarrow> e | None \<Rightarrow> p_lastError p)\<rparr>)
      (m\<lparr>vm_phys := ec_phys c\<rparr>)"

definition run_handler :: "pcb_ref \<Rightarrow> decoded_instruction \<Rightarrow> (machine, execution_result) vm" where
  "run_handler i instruction =
    (\<lambda>m. case registry_execute instruction (execution_context i m) of (r, c) \<Rightarrow> (r, write_context i c m))"

definition trace_instruction :: "pcb_ref \<Rightarrow> Address \<Rightarrow> decoded_instruction \<Rightarrow> (machine, unit) vm" where
  "trace_instruction i pc instruction =
    vmodify (\<lambda>m. case vm_tracer m of
                    Some tracer \<Rightarrow> onInstruction tracer (p_id (processes m ! i)) pc instruction (registers_of i m) m
                  | None \<Rightarrow> m)"

text \<open>\<^verbatim>\<open>ISyscallHandler\<close>: what a core calls.\<close>

type_synonym syscall_handler = "syscall_id \<Rightarrow> pcb_ref \<Rightarrow> Word \<Rightarrow> (machine, unit) vm"

definition execute_call :: "syscall_handler \<Rightarrow> pcb_ref \<Rightarrow> decoded_instruction \<Rightarrow> (machine, execution_result) vm" where
  "execute_call syscalls i instruction =
    (let syscallId = syscall_of_number (ucast (d_rs1 instruction));
         argAddress = ucast (d_imm instruction)
     in vseq (syscalls syscallId i argAddress)
        (vseq (on_process_context i advance_context)
        (if syscallId = SYS_Exit then vreturn ER_Halt
         else if syscallId = SYS_Yield then vreturn ER_Yield
         else vseq (on_process_context i use_time_slice) (vreturn ER_Continue))))"

definition executeInstruction :: "syscall_handler \<Rightarrow> pcb_ref \<Rightarrow> (machine, execution_result) vm" where
  "executeInstruction syscalls i =
    vbind (vgets (\<lambda>m. rf_pc (registers_of i m))) (\<lambda>pc.
    vbind (process_memory i (\<lambda>l. readCodeWord l pc)) (\<lambda>raw.
    let instruction = decodeInstruction raw in
    vseq (trace_instruction i pc instruction)
    (if d_opcode instruction = OP_CALL then execute_call syscalls i instruction
     else vbind (run_handler i instruction) (\<lambda>result.
          vseq (on_process_context i use_time_slice) (vreturn result)))))"

text \<open>\<^verbatim>\<open>runSingleStep\<close> brackets the execution with assignments to \<^verbatim>\<open>currentProcess_\<close>, which nothing reads.\<close>

definition runSingleStep :: "syscall_handler \<Rightarrow> pcb_ref \<Rightarrow> (machine, execution_result) vm" where
  "runSingleStep syscalls i = executeInstruction syscalls i"

section \<open>Giving a process back\<close>

definition releaseProcess :: "pcb_ref \<Rightarrow> bool \<Rightarrow> machine \<Rightarrow> machine" where
  "releaseProcess i preempt m =
    (if preempt \<and> p_state (processes m ! i) \<noteq> Halted then on_scheduler (onPreempt i) m
     else if p_state (processes m ! i) \<noteq> Halted
     then on_scheduler notifyProcessReady (on_process i (setState Ready) m)
     else on_scheduler notifyProcessReady m)"

section \<open>Frame of an instruction\<close>

lemma processes_fields:
  "processes (m\<lparr>vm_phys := x\<rparr>) = processes m" "processes (m\<lparr>vm_out := s\<rparr>) = processes m"
  "processes (m\<lparr>vm_in := n\<rparr>) = processes m" "processes (m\<lparr>vm_err := s\<rparr>) = processes m"
  by (simp_all add: processes_def)

lemma readCodeWord_keeps: "snd (readCodeWord l a pm) = pm"
  by (simp add: readCodeWord_def readWord_def validateRange_def vm_run Let_def split: sum.split)

lemma frame_context: "respecting (machine_frame i) (on_process_context i f)"
  unfolding on_process_context_def
  by (auto intro!: respects_modify frame_on_process simp: pcb_defs)

lemma frame_fetch: "respecting (machine_frame i) (process_memory i (\<lambda>l. readCodeWord l a))"
  by (rule frame_process_memory) (simp add: readCodeWord_keeps)

lemma frame_trace: "respecting (machine_frame i) (trace_instruction i pc insn)"
  unfolding trace_instruction_def
  by (rule respects_modify) (simp add: machine_frame_def split: option.split)

lemma write_context_frame:
  assumes "pm_size (ec_phys c) = pm_size (vm_phys m)"
  shows "machine_frame i m (write_context i c m)"
proof -
  have "machine_frame i m (m\<lparr>vm_phys := ec_phys c\<rparr>)"
    using assms by (simp add: machine_frame_def processes_def)
  moreover have "machine_frame i (m\<lparr>vm_phys := ec_phys c\<rparr>) (write_context i c m)"
    unfolding write_context_def by (rule frame_on_process) simp_all
  ultimately show ?thesis by (rule machine_fr.frame_trans)
qed

lemma registry_context_frame:
  assumes "registry_execute insn (execution_context i m) = (r, c)"
  shows "ctx_frame (execution_context i m) c"
  using registry_frame assms by (rule respectsD)

lemma frame_run_handler: "respecting (machine_frame i) (run_handler i insn)"
proof (rule respectsI)
  fix m
  obtain r c where rc: "registry_execute insn (execution_context i m) = (r, c)" by (metis prod.exhaust)
  from registry_context_frame [OF this] have "pm_size (ec_phys c) = pm_size (vm_phys m)"
    by (simp add: ctx_frame_def execution_context_def)
  with rc show "machine_frame i m (snd (run_handler i insn m))"
    by (simp add: run_handler_def write_context_frame)
qed

text \<open>The time slice of a process.\<close>

definition slice_frame :: "pcb_ref \<Rightarrow> machine \<Rightarrow> machine \<Rightarrow> bool" where
  "slice_frame i m m' \<longleftrightarrow> i < length (processes m) \<longrightarrow> i < length (processes m') \<and>
    cx_timeSliceLeft (p_context (processes m' ! i)) = cx_timeSliceLeft (p_context (processes m ! i))"

interpretation slice_fr: frame_relation "slice_frame i" for i
  by unfold_locales (auto simp: slice_frame_def)

lemma slice_frame_process:
  "(\<And>p. cx_timeSliceLeft (p_context (f p)) = cx_timeSliceLeft (p_context p)) \<Longrightarrow>
     slice_frame i m (on_process k f m)"
  by (auto simp: slice_frame_def frame_simps nth_update_process)

lemma slice_frame_table:
  "(\<And>m. processes (f m) = processes m) \<Longrightarrow> respecting (slice_frame i) (vmodify f)"
  by (rule respects_modify) (simp add: slice_frame_def)

lemma slice_frame_memory: "respecting (slice_frame i) (process_memory k op)"
  by (rule respectsI) (simp add: process_memory_def slice_frame_def processes_fields split: prod.split)

lemma slice_frame_read_path: "respecting (slice_frame i) (read_path n k a)"
  by (induction n arbitrary: a) (auto intro!: slice_fr.respects_intros slice_frame_memory)

lemma slice_frame_other:
  assumes "\<And>k. respecting (machine_frame k) op"
  shows "respecting (slice_frame i) op"
proof (rule respectsI)
  fix m
  have "machine_frame (Suc i) m (snd (op m))"
    using assms [of "Suc i"] by (simp add: respecting_def)
  then show "slice_frame i m (snd (op m))" by (auto simp: machine_frame_def slice_frame_def)
qed

section \<open>The system call interface\<close>

text \<open>
  What a core relies on in \<^verbatim>\<open>ISyscallHandler\<close>: handling a call for a process changes no other
  process, and leaves the time slice of the process to the core.
\<close>

locale syscall_interface =
  fixes syscalls :: syscall_handler
  assumes syscalls_frame: "respecting (machine_frame i) (syscalls sc i a)"
    and syscalls_slice: "respecting (slice_frame i) (syscalls sc i a)"
begin

lemma frame_call: "respecting (machine_frame i) (execute_call syscalls i insn)"
  unfolding execute_call_def Let_def
  by (auto intro!: machine_fr.respects_intros syscalls_frame frame_context)

lemma executeInstruction_frame: "respecting (machine_frame i) (executeInstruction syscalls i)"
  unfolding executeInstruction_def Let_def
  by (auto intro!: machine_fr.respects_intros frame_fetch frame_trace frame_run_handler frame_context frame_call)

end

definition callback_framed :: "load_callback option \<Rightarrow> bool" where
  "callback_framed loadCallback \<longleftrightarrow>
    (\<forall>load path i. loadCallback = Some load \<longrightarrow> respecting (machine_frame i) (load path))"

lemma handle_syscall_slice:
  assumes "callback_framed loadCallback"
  shows "respecting (slice_frame i) (handle_syscall loadCallback sc k a)"
proof (cases sc)
  case SYS_Exit
  then show ?thesis
    by (auto simp: syscall_exit_def pcb_defs setHalted_def intro!: respects_modify slice_frame_process)
next
  case SYS_Yield
  then show ?thesis
    by (auto simp: syscall_yield_def pcb_defs setShouldYield_def intro!: respects_modify slice_frame_process)
next
  case SYS_Load
  moreover have "respecting (slice_frame i) (load path)" if "loadCallback = Some load" for load path
    using assms that by (intro slice_frame_other) (simp add: callback_framed_def)
  ultimately show ?thesis
    by (auto simp: syscall_load_def intro!: slice_fr.respects_intros slice_frame_read_path split: option.split)
qed (auto simp: syscall_print_def syscall_scan_def processes_fields
      intro!: slice_fr.respects_intros slice_frame_memory slice_frame_table split: prod.split)

lemma handle_syscall_interface:
  assumes "callback_framed loadCallback"
  shows "syscall_interface (handle_syscall loadCallback)"
  using assms handle_syscall_slice [OF assms]
  by unfold_locales (auto simp: callback_framed_def intro!: handle_syscall_frame)

text \<open>The handler whose callback is not configured.\<close>

interpretation sys: syscall_interface "handle_syscall None"
  by (rule handle_syscall_interface) (simp add: callback_framed_def)

section \<open>Memory isolation\<close>

text \<open>
  The bytes that a process may write are those of its data and stack segments. A system call
  other than \<^verbatim>\<open>Load\<close> keeps to them as the handlers do.
\<close>

definition own_byte :: "pcb_ref \<Rightarrow> machine \<Rightarrow> nat \<Rightarrow> bool" where
  "own_byte i m j \<longleftrightarrow>
    data_start (p_memory (processes m ! i)) \<le> j \<and> j < stack_end (p_memory (processes m ! i))"

definition memory_frame :: "pcb_ref \<Rightarrow> machine \<Rightarrow> machine \<Rightarrow> bool" where
  "memory_frame i m m' \<longleftrightarrow> i < length (processes m) \<longrightarrow>
    length (processes m') = length (processes m) \<and> p_memory (processes m' ! i) = p_memory (processes m ! i) \<and>
    pm_size (vm_phys m') = pm_size (vm_phys m) \<and>
    (layout_ok (pm_size (vm_phys m)) (p_memory (processes m ! i)) \<longrightarrow>
      (\<forall>j. \<not> own_byte i m j \<longrightarrow> pm_memory (vm_phys m') j = pm_memory (vm_phys m) j))"

interpretation memory_fr: frame_relation "memory_frame i" for i
  by unfold_locales (auto simp: memory_frame_def own_byte_def)

lemma memory_frame_process:
  "(\<And>p. p_memory (f p) = p_memory p) \<Longrightarrow> memory_frame i m (on_process k f m)"
  by (auto simp: memory_frame_def frame_simps nth_update_process)

lemma memory_frame_fields:
  "respecting (memory_frame i) (vmodify (\<lambda>m. m\<lparr>vm_out := f m\<rparr>))"
  "respecting (memory_frame i) (vmodify (\<lambda>m. m\<lparr>vm_in := g m\<rparr>))"
  by (auto simp: memory_frame_def processes_def intro!: respects_modify)

lemma memory_frame_reads:
  "respecting (memory_frame i) (process_memory i (\<lambda>l. readDataWord l a))"
  "respecting (memory_frame i) (process_memory i (\<lambda>l. readDataByte l a))"
  "respecting (memory_frame i) (process_memory i (\<lambda>l. readCodeWord l a))"
  using readDataWord_keeps readDataByte_keeps readCodeWord_keeps
  by (auto simp: process_memory_def memory_frame_def processes_def intro!: respectsI split: prod.split)
    (metis snd_conv)+

lemma memory_frame_write: "respecting (memory_frame i) (process_memory i (\<lambda>l. writeDataWord l a v))"
proof (rule respectsI)
  fix m
  let ?l = "p_memory (processes m ! i)"
  obtain r pm where w: "writeDataWord ?l a v (vm_phys m) = (r, pm)" by (metis prod.exhaust)
  with writeDataWord_sizes [OF w] writeDataWord_frame [of "vm_phys m" ?l _ a v]
  show "memory_frame i m (snd (process_memory i (\<lambda>l. writeDataWord l a v) m))"
    by (simp add: process_memory_def memory_frame_def processes_def own_byte_def not_le not_less)
qed

lemma memory_frame_syscall:
  assumes "sc \<noteq> SYS_Load"
  shows "respecting (memory_frame i) (handle_syscall loadCallback sc i a)"
proof (cases sc)
  case SYS_Exit
  then show ?thesis
    by (auto simp: syscall_exit_def pcb_defs intro!: respects_modify memory_frame_process)
next
  case SYS_Yield
  then show ?thesis
    by (auto simp: syscall_yield_def pcb_defs intro!: respects_modify memory_frame_process)
qed (use assms in \<open>auto simp: syscall_print_def syscall_scan_def
      intro!: memory_fr.respects_intros memory_frame_reads memory_frame_write memory_frame_fields
      split: prod.split\<close>)

lemma memory_frame_context: "respecting (memory_frame i) (on_process_context i f)"
  unfolding on_process_context_def
  by (auto intro!: respects_modify memory_frame_process simp: pcb_defs)

lemma memory_frame_run_handler: "respecting (memory_frame i) (run_handler i insn)"
proof (rule respectsI)
  fix m
  obtain r c where rc: "registry_execute insn (execution_context i m) = (r, c)" by (metis prod.exhaust)
  from registry_context_frame [OF this]
  have f: "pm_size (ec_phys c) = pm_size (vm_phys m)"
    "layout_ok (pm_size (vm_phys m)) (p_memory (processes m ! i)) \<Longrightarrow> \<not> own_byte i m j \<Longrightarrow>
      pm_memory (ec_phys c) j = pm_memory (vm_phys m) j" for j
    by (auto simp: ctx_frame_def execution_context_def own_byte_def not_le not_less)
  have "processes (write_context i c m) ! i = (processes m ! i)\<lparr>p_context := ec_cpu c,
      p_lastError := (case ec_process c of Some e \<Rightarrow> e | None \<Rightarrow> p_lastError (processes m ! i))\<rparr>"
    if "i < length (processes m)"
    using that by (simp add: write_context_def frame_simps nth_update_process processes_fields)
  with f show "memory_frame i m (snd (run_handler i insn m))"
    by (simp add: run_handler_def rc memory_frame_def) (simp add: write_context_def frame_simps processes_fields)
qed

lemma memory_frame_trace: "respecting (memory_frame i) (trace_instruction i pc insn)"
  unfolding trace_instruction_def
  by (rule respects_modify) (simp add: memory_frame_def split: option.split)

text \<open>The instruction that a process is about to execute, if the fetch succeeds.\<close>

definition fetched :: "pcb_ref \<Rightarrow> machine \<Rightarrow> decoded_instruction option" where
  "fetched i m =
    (case fst (readCodeWord (p_memory (processes m ! i)) (rf_pc (registers_of i m)) (vm_phys m)) of
       Inl e \<Rightarrow> None | Inr raw \<Rightarrow> Some (decodeInstruction raw))"

definition is_load_call :: "decoded_instruction \<Rightarrow> bool" where
  "is_load_call insn \<longleftrightarrow> d_opcode insn = OP_CALL \<and> syscall_of_number (ucast (d_rs1 insn)) = SYS_Load"

definition execute_fetched :: "syscall_handler \<Rightarrow> pcb_ref \<Rightarrow> decoded_instruction \<Rightarrow> (machine, execution_result) vm" where
  "execute_fetched syscalls i instruction =
    (if d_opcode instruction = OP_CALL then execute_call syscalls i instruction
     else vbind (run_handler i instruction) (\<lambda>result.
          vseq (on_process_context i use_time_slice) (vreturn result)))"

lemma executeInstruction_fetched:
  "fetched i m = Some insn \<Longrightarrow> executeInstruction syscalls i m =
     vseq (trace_instruction i (rf_pc (registers_of i m)) insn) (execute_fetched syscalls i insn) m"
  "fetched i m = None \<Longrightarrow> \<exists>e. executeInstruction syscalls i m = (Inl e, m)"
  using readCodeWord_keeps [of "p_memory (processes m ! i)" "rf_pc (registers_of i m)" "vm_phys m"]
  by (auto simp: fetched_def executeInstruction_def execute_fetched_def Let_def vbind_def vgets_def
      process_memory_def split: sum.splits prod.splits)

lemma memory_frame_fetched:
  assumes "\<not> is_load_call insn"
  shows "respecting (memory_frame i) (execute_fetched (handle_syscall loadCallback) i insn)"
  using assms
  by (auto simp: execute_fetched_def execute_call_def is_load_call_def Let_def
      intro!: memory_fr.respects_intros memory_frame_syscall memory_frame_context memory_frame_run_handler
      simp del: handle_syscall.simps)

lemma executeInstruction_memory:
  assumes "executeInstruction (handle_syscall loadCallback) i m = (r, m')"
    and "\<And>insn. fetched i m = Some insn \<Longrightarrow> \<not> is_load_call insn"
  shows "memory_frame i m m'"
proof (cases "fetched i m")
  case None
  with executeInstruction_fetched(2) [OF None, of "handle_syscall loadCallback"] assms(1) show ?thesis
    by (auto intro: memory_fr.frame_refl)
next
  case (Some insn)
  have "respecting (memory_frame i) (vseq (trace_instruction i (rf_pc (registers_of i m)) insn)
      (execute_fetched (handle_syscall loadCallback) i insn))"
    using assms(2) [OF Some] by (intro memory_fr.respects_seq memory_frame_trace memory_frame_fetched)
  then show ?thesis
    using executeInstruction_fetched(1) [OF Some, of "handle_syscall loadCallback"] assms(1) by (metis respectsD)
qed

section \<open>Time slices\<close>

definition slice_left :: "pcb_ref \<Rightarrow> machine \<Rightarrow> size_t" where
  "slice_left i m = cx_timeSliceLeft (p_context (processes m ! i))"

lemma slice_frame_left: "slice_frame i m m' \<Longrightarrow> i < length (processes m) \<Longrightarrow>
    i < length (processes m') \<and> slice_left i m' = slice_left i m"
  by (simp add: slice_frame_def slice_left_def)

lemma slice_frame_advance: "respecting (slice_frame i) (on_process_context k advance_context)"
  unfolding on_process_context_def
  by (auto intro!: respects_modify slice_frame_process simp: pcb_defs advance_context_def)

lemma slice_frame_trace: "respecting (slice_frame i) (trace_instruction k pc insn)"
  unfolding trace_instruction_def
  by (rule slice_frame_table) (simp split: option.split)

lemma slice_frame_run_handler: "respecting (slice_frame i) (run_handler i insn)"
proof (rule respectsI)
  fix m
  obtain r c where rc: "registry_execute insn (execution_context i m) = (r, c)" by (metis prod.exhaust)
  from registry_context_frame [OF this] have "cx_timeSliceLeft (ec_cpu c) = slice_left i m"
    by (simp add: ctx_frame_def execution_context_def slice_left_def)
  then show "slice_frame i m (snd (run_handler i insn m))"
    by (auto simp: run_handler_def rc slice_frame_def write_context_def frame_simps processes_fields
        nth_update_process slice_left_def)
qed

lemma use_time_slice_left:
  "i < length (processes m) \<Longrightarrow> on_process_context i use_time_slice m = (Inr (), m') \<Longrightarrow>
     slice_left i m' = (if 0 < slice_left i m then slice_left i m - 1 else 0)"
  by (auto simp: on_process_context_def vmodify_def slice_left_def use_time_slice_def setTimeSliceLeft_def
      frame_simps nth_update_process word_gt_0)

context syscall_interface
begin

lemma execute_fetched_slice:
  assumes "execute_fetched syscalls i insn m = (Inr r, m')" and i: "i < length (processes m)"
    and "r \<noteq> ER_Halt" and "r \<noteq> ER_Yield"
  shows "slice_left i m' = (if 0 < slice_left i m then slice_left i m - 1 else 0)"
proof -
  have "\<exists>m1. slice_frame i m m1 \<and> on_process_context i use_time_slice m1 = (Inr (), m')"
  proof (cases "d_opcode insn = OP_CALL")
    case True
    let ?sc = "syscall_of_number (ucast (d_rs1 insn))" and ?a = "ucast (d_imm insn) :: Word"
    have "respecting (slice_frame i) (vseq (syscalls ?sc i ?a) (on_process_context i advance_context))"
      by (intro slice_fr.respects_intros syscalls_slice slice_frame_advance)
    moreover from True assms obtain m1 where
      "vseq (syscalls ?sc i ?a) (on_process_context i advance_context) m = (Inr (), m1)"
      "on_process_context i use_time_slice m1 = (Inr (), m')"
      by (auto simp: execute_fetched_def execute_call_def Let_def vseq_def vbind_Inr vreturn_def
          split: if_splits)
    ultimately show ?thesis by (blast dest: respectsD)
  next
    case False
    with assms obtain m1 where "run_handler i insn m = (Inr r, m1)"
      "on_process_context i use_time_slice m1 = (Inr (), m')"
      by (auto simp: execute_fetched_def vseq_def vbind_Inr vreturn_def)
    with slice_frame_run_handler show ?thesis by (blast dest: respectsD)
  qed
  then show ?thesis using slice_frame_left [OF _ i] use_time_slice_left by metis
qed

lemma executeInstruction_slice:
  assumes "executeInstruction syscalls i m = (Inr r, m')" and i: "i < length (processes m)"
    and "r \<noteq> ER_Halt" and "r \<noteq> ER_Yield"
  shows "slice_left i m' = (if 0 < slice_left i m then slice_left i m - 1 else 0)"
proof (cases "fetched i m")
  case None
  with executeInstruction_fetched(2) [OF None, of syscalls] assms show ?thesis by auto
next
  case (Some insn)
  from assms(1) [unfolded executeInstruction_fetched(1) [OF Some]] obtain m1 where
    m1: "trace_instruction i (rf_pc (registers_of i m)) insn m = (Inr (), m1)"
    and ex: "execute_fetched syscalls i insn m1 = (Inr r, m')"
    by (auto simp: vseq_def vbind_Inr)
  have "slice_frame i m m1" using slice_frame_trace m1 by (rule respectsD)
  with i have "i < length (processes m1)" "slice_left i m1 = slice_left i m"
    using slice_frame_left by blast+
  with execute_fetched_slice [OF ex] assms(3,4) show ?thesis by simp
qed

end

section \<open>Properties of a core\<close>

definition regions_disjoint :: "region_layout \<Rightarrow> region_layout \<Rightarrow> bool" where
  "regions_disjoint l l' \<longleftrightarrow>
    unat (ml_base l) + unat (ml_totalSize l) \<le> unat (ml_base l') \<or>
    unat (ml_base l') + unat (ml_totalSize l') \<le> unat (ml_base l)"

definition in_region :: "region_layout \<Rightarrow> nat \<Rightarrow> bool" where
  "in_region l j \<longleftrightarrow> unat (ml_base l) \<le> j \<and> j < unat (ml_base l) + unat (ml_totalSize l)"

lemma executeInstruction_others:
  assumes "executeInstruction (handle_syscall loadCallback) i m = (r, m')"
    and "callback_framed loadCallback" and "i < length (processes m)" and "k < length (processes m)" and "i \<noteq> k"
  shows "processes m' ! k = processes m ! k"
proof -
  have "machine_frame i m m'"
    using syscall_interface.executeInstruction_frame [OF handle_syscall_interface [OF assms(2)]] assms(1)
    by (rule respectsD)
  then show ?thesis using assms(4,5) by (simp add: machine_frame_def)
qed

lemma executeInstruction_isolated:
  assumes "executeInstruction (handle_syscall loadCallback) i m = (r, m')"
    and "callback_framed loadCallback" and "i < length (processes m)" and "k < length (processes m)"
    and "i \<noteq> k" and "layout_ok (pm_size (vm_phys m)) (p_memory (processes m ! i))"
    and "regions_disjoint (p_memory (processes m ! i)) (p_memory (processes m ! k))"
    and "\<And>insn. fetched i m = Some insn \<Longrightarrow> \<not> is_load_call insn"
  shows "length (processes m') = length (processes m) \<and> pm_size (vm_phys m') = pm_size (vm_phys m) \<and>
    processes m' ! k = processes m ! k \<and>
    (\<forall>j. in_region (p_memory (processes m ! k)) j \<longrightarrow> pm_memory (vm_phys m') j = pm_memory (vm_phys m) j)"
proof -
  let ?l = "p_memory (processes m ! i)"
  have "processes m' ! k = processes m ! k" using executeInstruction_others [OF assms(1-5)] .
  moreover have mf: "memory_frame i m m'" using assms(1,8) by (rule executeInstruction_memory)
  then have "length (processes m') = length (processes m)" "pm_size (vm_phys m') = pm_size (vm_phys m)"
    using assms(3) by (simp_all add: memory_frame_def)
  moreover from mf have "\<not> own_byte i m j \<Longrightarrow> pm_memory (vm_phys m') j = pm_memory (vm_phys m) j" for j
    using assms(3,6) by (simp add: memory_frame_def)
  moreover have "\<not> own_byte i m j" if "in_region (p_memory (processes m ! k)) j" for j
    using that assms(7) layout_bounds [OF assms(6)]
    by (auto simp: own_byte_def in_region_def regions_disjoint_def)
  ultimately show ?thesis by blast
qed

text \<open>C7: Isolation of processes. Executing an instruction of one process never changes the control block of another,
  whatever the instruction and its operands, a \<^verbatim>\<open>load\<close> call and an instruction that throws included. Nor does it change
  a byte of the region of another that lies apart from its own, if the segments of the executing process lie inside
  its own region, which the loader does not ensure for a program that is too large, and the instruction is not a
  \<^verbatim>\<open>load\<close> call, which writes a new region.\<close>

theorem processes_are_isolated:
  assumes "executeInstruction (handle_syscall loadCallback) i m = (r, m')"
    and "callback_framed loadCallback" and "i < length (processes m)" and "k < length (processes m)" and "i \<noteq> k"
  shows "processes m' ! k = processes m ! k \<and>
    (layout_ok (pm_size (vm_phys m)) (p_memory (processes m ! i)) \<and>
     regions_disjoint (p_memory (processes m ! i)) (p_memory (processes m ! k)) \<and>
     (\<forall>insn. fetched i m = Some insn \<longrightarrow> \<not> is_load_call insn) \<longrightarrow>
     (\<forall>j. in_region (p_memory (processes m ! k)) j \<longrightarrow> pm_memory (vm_phys m') j = pm_memory (vm_phys m) j))"
proof (intro conjI impI)
  show "processes m' ! k = processes m ! k" using executeInstruction_others [OF assms] .
qed (use executeInstruction_isolated [OF assms] in blast)

text \<open>C39: Instruction fetch is not confined to the code segment, nor to the region of the process. Whatever the program
  counter, the word at the address computed from it (modulo \<open>2 ^ 32\<close>) is fetched and executed as an instruction if it
  lies in the region of any process: behind the code data and stack, and other regions on both sides. And every word
  of these regions, at a distance of whole words from the code, has a program counter that fetches it.\<close>

theorem fetch_leaves_code_segment:
  assumes "layout_ok (pm_size (vm_phys m)) (p_memory (processes m ! i))"
    and "layout_ok (pm_size (vm_phys m)) (p_memory (processes m ! k))"
    and "in_region (p_memory (processes m ! k)) a" and "in_region (p_memory (processes m ! k)) (a + 3)"
  shows "((code_start (p_memory (processes m ! i)) + 4 * unat (rf_pc (registers_of i m))) mod 2 ^ 32 = a \<longrightarrow>
      executeInstruction syscalls i m =
        (let insn = decodeInstruction (load_word (pm_memory (vm_phys m)) a)
         in vseq (trace_instruction i (rf_pc (registers_of i m)) insn) (execute_fetched syscalls i insn) m)) \<and>
    (a mod 4 = code_start (p_memory (processes m ! i)) mod 4 \<longrightarrow>
      (\<exists>pc :: Address. (code_start (p_memory (processes m ! i)) + 4 * unat pc) mod 2 ^ 32 = a))"
proof (intro conjI impI)
  let ?l = "p_memory (processes m ! i)" and ?pc = "rf_pc (registers_of i m)"
  have a: "a + 4 \<le> unat (pm_size (vm_phys m))" "a < 2 ^ 32"
    using assms(2,4) by (auto simp: layout_ok_def in_region_def)
  show "\<exists>pc :: Address. (code_start ?l + 4 * unat pc) mod 2 ^ 32 = a" if "a mod 4 = code_start ?l mod 4"
    using every_word_has_pc [OF assms(1) a(2) that] .
  assume "(code_start ?l + 4 * unat ?pc) mod 2 ^ 32 = a"
  then have "unat (codeWordAddress ?l ?pc) = a" by (simp add: codeWordAddress_mod [OF assms(1)])
  with a(1) have "fetched i m = Some (decodeInstruction (load_word (pm_memory (vm_phys m)) a))"
    by (simp add: fetched_def readCodeWord_def phys_reads in_range_def)
  from executeInstruction_fetched(1) [OF this] show "executeInstruction syscalls i m =
        (let insn = decodeInstruction (load_word (pm_memory (vm_phys m)) a)
         in vseq (trace_instruction i ?pc insn) (execute_fetched syscalls i insn) m)" by (simp add: Let_def)
qed

text \<open>Time accounting: an instruction that neither halts nor yields uses up exactly one unit of the
  time slice of its process, a system call included, and never goes below zero.\<close>

lemma instruction_uses_one_unit:
  assumes "executeInstruction (handle_syscall loadCallback) i m = (Inr r, m')"
    and "callback_framed loadCallback" and "i < length (processes m)"
    and "r \<noteq> ER_Halt" and "r \<noteq> ER_Yield"
  shows "unat (slice_left i m') = unat (slice_left i m) - 1"
  using syscall_interface.executeInstruction_slice [OF handle_syscall_interface [OF assms(2)] assms(1,3,4,5)]
  by (auto simp: word_gt_0 unat_minus_one)

text \<open>\<^verbatim>\<open>call print, a\<close> writes the word at \<open>a\<close> of the data segment in decimal and a newline to the
  output, advances the program counter by one and changes no register and no memory.\<close>

lemma call_print_outputs:
  assumes "fetched i m = Some insn" and "d_opcode insn = OP_CALL" and "d_rs1 insn = 0"
    and "vm_tracer m = None" and "i < length (processes m)"
    and "layout_ok (pm_size (vm_phys m)) (p_memory (processes m ! i))"
    and "unat (ucast (d_imm insn) :: Address) + 4 \<le> unat (ml_dataSize (p_memory (processes m ! i)))"
  shows "\<exists>m'. executeInstruction (handle_syscall loadCallback) i m = (Inr ER_Continue, m') \<and>
    vm_out m' = vm_out m @ show_word (load_word (pm_memory (vm_phys m))
      (data_start (p_memory (processes m ! i)) + unat (ucast (d_imm insn) :: Address))) @ [CHR 0x0A] \<and>
    rf_pc (registers_of i m') = rf_pc (registers_of i m) + 1 \<and>
    rf_gpr (registers_of i m') = rf_gpr (registers_of i m) \<and> vm_phys m' = vm_phys m"
  using assms
  by (simp add: executeInstruction_fetched(1) execute_fetched_def execute_call_def trace_instruction_def
      syscall_of_number_def syscall_print_def process_memory_def mem_simps vm_run Let_def on_process_context_def
      frame_simps nth_update_process registers_of_def advance_context_def use_time_slice_def setTimeSliceLeft_def
      processes_fields)

section \<open>Witnesses\<close>

text \<open>Two processes in adjacent regions; the first is about to execute the given instruction.\<close>

definition sample_region :: "Address \<Rightarrow> region_layout" where
  "sample_region base = MemoryRegionLayout\<lparr>ml_base := base, ml_codeSize := 4, ml_dataOffset := 4,
     ml_dataSize := 8, ml_stackOffset := 12\<rparr>"

definition sample_machine :: "Word \<Rightarrow> machine" where
  "sample_machine raw = \<lparr>
     vm_phys = \<lparr>pm_memory = store_word (\<lambda>_. 0) 0 raw, pm_size = 131072, nextFreeAddress = 131072\<rparr>,
     vm_table = \<lparr>pt_processes = [ProcessControlBlock 1 ''a'' (sample_region 0),
                                ProcessControlBlock 2 ''b'' (sample_region 65536)], nextProcessId = 3\<rparr>,
     vm_sched = PreemptiveScheduler 100, vm_out = [], vm_in = \<lparr>is_rest = [], is_fail = False\<rparr>,
     vm_err = [], vm_tracer = None, vm_calls = []\<rparr>"

lemmas sample_machine_simps =
  sample_machine_def sample_region_def MemoryRegionLayout_def ProcessControlBlock_def CpuContext_def
  RegisterFile_def processes_def registers_of_def

lemma fetched_sample: "fetched 0 (sample_machine raw) = Some (decodeInstruction raw)"
  by (simp add: fetched_def readCodeWord_def codeWordAddress_wraps codeAddress_def sample_machine_simps
      phys_reads in_range_def load_store_same)

lemma sample_machine_layouts:
  "length (processes (sample_machine raw)) = 2"
  "layout_ok (pm_size (vm_phys (sample_machine raw))) (p_memory (processes (sample_machine raw) ! 0))"
  "regions_disjoint (p_memory (processes (sample_machine raw) ! 0)) (p_memory (processes (sample_machine raw) ! 1))"
  by (simp_all add: sample_machine_simps layout_ok_def regions_disjoint_def)

theorem processes_are_isolated_witness:
  "let m = sample_machine (encodeInstruction OP_PUSH 0 0 15 7);
       m' = snd (executeInstruction (handle_syscall None) 0 m)
   in processes m' ! 1 = processes m ! 1 \<and> pm_memory (vm_phys m') 65536 = pm_memory (vm_phys m) 65536"
proof -
  let ?m = "sample_machine (encodeInstruction OP_PUSH 0 0 15 7)"
  have "\<not> is_load_call (decodeInstruction (encodeInstruction OP_PUSH 0 0 15 7))"
    using opcode_of_byte_byte [of OP_PUSH] by (simp add: is_load_call_def decode_encode)
  moreover obtain r m' where m': "executeInstruction (handle_syscall None) 0 ?m = (r, m')"
    by (metis prod.collapse)
  moreover have "in_region (p_memory (processes ?m ! 1)) 65536" by (simp add: in_region_def sample_machine_simps)
  ultimately show ?thesis
    using processes_are_isolated [OF m', of 1] sample_machine_layouts
    by (simp add: fetched_sample callback_framed_def Let_def)
qed

text \<open>The second process fetches the \<^verbatim>\<open>HALT\<close> of the first one.\<close>

theorem fetch_leaves_code_segment_witness:
  "fst (executeInstruction (handle_syscall None) 1
     (on_process 1 (on_context (\<lambda>c. c\<lparr>cx_registers := setPc 1073725440 (cx_registers c)\<rparr>))
       (sample_machine (encodeInstruction OP_HALT 0 0 0 0)))) = Inr ER_Halt"
proof -
  let ?raw = "encodeInstruction OP_HALT 0 0 0 0"
  let ?m = "on_process 1 (on_context (\<lambda>c. c\<lparr>cx_registers := setPc 1073725440 (cx_registers c)\<rparr>)) (sample_machine ?raw)"
  have p: "p_memory (processes ?m ! 0) = sample_region 0" "p_memory (processes ?m ! 1) = sample_region 65536"
    "rf_pc (registers_of 1 ?m) = 1073725440" "pm_size (vm_phys ?m) = 131072"
    "load_word (pm_memory (vm_phys ?m)) 0 = ?raw"
    by (simp_all add: frame_simps registers_of_def nth_update_process sample_machine_layouts pcb_defs setPc_def)
      (simp_all add: sample_machine_simps load_store_same)
  have l: "layout_ok 131072 (sample_region 65536)" "layout_ok 131072 (sample_region 0)"
    "in_region (sample_region 0) 0" "in_region (sample_region 0) 3"
    "(code_start (sample_region 65536) + 4 * unat (1073725440 :: Address)) mod 2 ^ 32 = 0"
    by (simp_all add: sample_region_def MemoryRegionLayout_def layout_ok_def in_region_def code_start_def)
  have "d_opcode (decodeInstruction ?raw) = OP_HALT"
    using opcode_of_byte_byte [of OP_HALT] by (simp add: decode_encode)
  then show ?thesis
    using fetch_leaves_code_segment [of ?m 1 0 0 "handle_syscall None"] p l
    by (simp add: Let_def execute_fetched_def trace_instruction_def run_handler_def registry_simple vm_run on_process_context_def)
qed
lemma instruction_uses_one_unit_witness:
  "\<exists>m'. executeInstruction (handle_syscall None) 0 (sample_machine (encodeInstruction OP_NOP 0 0 0 0)) =
     (Inr ER_Continue, m') \<and> unat (slice_left 0 m') = 99"
proof -
  let ?m = "sample_machine (encodeInstruction OP_NOP 0 0 0 0)"
  have op: "d_opcode (decodeInstruction (encodeInstruction OP_NOP 0 0 0 0)) = OP_NOP"
    using opcode_of_byte_byte [of OP_NOP] by (simp add: decode_encode)
  have "fst (executeInstruction (handle_syscall None) 0 ?m) = Inr ER_Continue"
    using op by (simp add: executeInstruction_fetched(1) [OF fetched_sample] execute_fetched_def
        trace_instruction_def run_handler_def registry_simple vm_run on_process_context_def)
  then obtain m' where m': "executeInstruction (handle_syscall None) 0 ?m = (Inr ER_Continue, m')"
    by (metis prod.collapse)
  have "slice_left 0 ?m = 100" by (simp add: slice_left_def sample_machine_simps)
  with m' instruction_uses_one_unit [OF m'] show ?thesis
    by (simp add: callback_framed_def sample_machine_layouts)
qed

lemma call_print_outputs_witness:
  "\<exists>m'. executeInstruction (handle_syscall None) 0 (sample_machine (encodeInstruction OP_CALL 0 0 0 4)) =
     (Inr ER_Continue, m') \<and> vm_out m' = show_word (0 :: Word) @ [CHR 0x0A]"
proof -
  let ?i = "encodeInstruction OP_CALL 0 0 0 4"
  have d: "d_opcode (decodeInstruction ?i) = OP_CALL" "d_rs1 (decodeInstruction ?i) = 0" "d_imm (decodeInstruction ?i) = 4"
    using opcode_of_byte_byte [of OP_CALL] signed_take_bit_12_id [of 4] by (simp_all add: decode_encode)
  have m: "vm_tracer (sample_machine ?i) = None" "vm_out (sample_machine ?i) = []"
    "ml_dataSize (p_memory (processes (sample_machine ?i) ! 0)) = 8"
    "data_start (p_memory (processes (sample_machine ?i) ! 0)) = 4"
    "pm_memory (vm_phys (sample_machine ?i)) = store_word (\<lambda>_. 0) 0 ?i"
    by (simp_all add: sample_machine_simps data_start_def)
  have "load_word (store_word (\<lambda>_. 0) 0 ?i) 8 = load_word (\<lambda>_. 0) 8" by (rule load_store_other) simp
  also have "\<dots> = 0" by (simp add: load_word_bytes)
  finally show ?thesis
    using call_print_outputs [OF fetched_sample d(1,2) m(1), of None] d(3) m sample_machine_layouts
    by simp blast
qed

end
