(* ===== verification/Lexer.thy ===== *)
theory Lexer
  imports VM_Types
begin

text \<open>
  The lexer of the assembler (\<^verbatim>\<open>src/vm/assembler/lexer.cpp\<close>): tokens, the reading of one token, one
  token of lookahead, and the mark and restore that the parser uses to read a statement again.
  Positions and line numbers are \<^verbatim>\<open>std::size_t\<close> values bounded by the length of the source, so they
  do not wrap around and are natural numbers here.
\<close>

section \<open>Tokens\<close>

datatype token_type =
  TK_End | TK_Newline | TK_Identifier | TK_Number | TK_Register | TK_LBracket | TK_RBracket
  | TK_Comma | TK_Colon

record token =
  tk_type :: token_type
  tk_text :: string
  tk_line :: nat

definition Token :: "token_type \<Rightarrow> string \<Rightarrow> nat \<Rightarrow> token" where
  "Token ty text line = \<lparr>tk_type = ty, tk_text = text, tk_line = line\<rparr>"

record lexer =
  lx_source :: string
  lx_position :: nat
  lx_line :: nat
  lx_hasPeek :: bool
  lx_peekToken :: token
  lx_peekPosition :: nat
  lx_peekLine :: nat

definition Lexer :: "string \<Rightarrow> lexer" where
  "Lexer source = \<lparr>lx_source = source, lx_position = 0, lx_line = 1, lx_hasPeek = False,
     lx_peekToken = Token TK_End [] 1, lx_peekPosition = 0, lx_peekLine = 1\<rparr>"

text \<open>The characters that are left.\<close>

definition lx_rest :: "lexer \<Rightarrow> string" where
  "lx_rest lx = drop (lx_position lx) (lx_source lx)"

section \<open>Characters\<close>

text \<open>\<^verbatim>\<open>isalpha\<close> and \<^verbatim>\<open>isalnum\<close> in the C locale.\<close>

definition is_alpha :: "char \<Rightarrow> bool" where
  "is_alpha c \<longleftrightarrow> (65 \<le> (of_char c :: nat) \<and> (of_char c :: nat) \<le> 90) \<or>
    (97 \<le> (of_char c :: nat) \<and> (of_char c :: nat) \<le> 122)"

definition is_alnum :: "char \<Rightarrow> bool" where
  "is_alnum c \<longleftrightarrow> is_alpha c \<or> is_digit c"

definition newline :: char where
  "newline = CHR 0x0A"

definition is_blank :: "char \<Rightarrow> bool" where
  "is_blank c \<longleftrightarrow> c = CHR '' '' \<or> c = CHR 0x09 \<or> c = CHR 0x0D"

section \<open>Reading a token\<close>

text \<open>How many characters \<^verbatim>\<open>skipWhitespace\<close> passes over: blanks, and comments up to the line end.\<close>

fun blank_length :: "string \<Rightarrow> nat" where
  "blank_length [] = 0"
| "blank_length (c # s) =
    (if is_blank c then Suc (blank_length s)
     else if c = CHR ''#''
     then (let n = length (takeWhile (\<lambda>c. c \<noteq> newline) s) in Suc n + blank_length (drop n s))
     else 0)"

definition skipWhitespace :: "lexer \<Rightarrow> lexer" where
  "skipWhitespace lx = lx\<lparr>lx_position := lx_position lx + blank_length (lx_rest lx)\<rparr>"

definition is_register_name :: "string \<Rightarrow> bool" where
  "is_register_name text \<longleftrightarrow> text \<noteq> [] \<and> hd text = CHR ''r'' \<and> 1 < length text \<and>
    list_all is_digit (tl text)"

definition makeIdentifierOrRegister :: "lexer \<Rightarrow> token \<times> lexer" where
  "makeIdentifierOrRegister lx =
    (let text = takeWhile (\<lambda>c. is_alnum c \<or> c = CHR ''_'') (lx_rest lx);
         ty = (if is_register_name text then TK_Register else TK_Identifier)
     in (Token ty text (lx_line lx), lx\<lparr>lx_position := lx_position lx + length text\<rparr>))"

definition makeNumber :: "lexer \<Rightarrow> token \<times> lexer" where
  "makeNumber lx =
    (let rest = lx_rest lx;
         sign = (if rest \<noteq> [] \<and> hd rest = CHR ''-'' then [CHR ''-''] else []);
         text = sign @ takeWhile is_digit (drop (length sign) rest)
     in (Token TK_Number text (lx_line lx), lx\<lparr>lx_position := lx_position lx + length text\<rparr>))"

definition single_character :: "token_type \<Rightarrow> char \<Rightarrow> (lexer, token) vm" where
  "single_character ty c =
    (\<lambda>lx. (Inr (Token ty [c] (lx_line lx)), lx\<lparr>lx_position := lx_position lx + 1\<rparr>))"

definition readToken_at :: "(lexer, token) vm" where
  "readToken_at lx =
    (if length (lx_source lx) \<le> lx_position lx then (Inr (Token TK_End [] (lx_line lx)), lx)
     else let ch = lx_source lx ! lx_position lx in
       if ch = newline
       then (Inr (Token TK_Newline [CHR 0x5C, CHR ''n''] (lx_line lx)),
             lx\<lparr>lx_position := lx_position lx + 1, lx_line := lx_line lx + 1\<rparr>)
       else if ch = CHR ''['' then single_character TK_LBracket ch lx
       else if ch = CHR '']'' then single_character TK_RBracket ch lx
       else if ch = CHR '','' then single_character TK_Comma ch lx
       else if ch = CHR '':'' then single_character TK_Colon ch lx
       else if is_alpha ch \<or> ch = CHR ''_''
       then (case makeIdentifierOrRegister lx of (t, lx') \<Rightarrow> (Inr t, lx'))
       else if is_digit ch \<or> ch = CHR ''-''
       then (case makeNumber lx of (t, lx') \<Rightarrow> (Inr t, lx'))
       else (Inl (AssemblerError (lx_line lx) (''unexpected character: '' @ [ch])), lx))"

definition readToken :: "(lexer, token) vm" where
  "readToken lx = readToken_at (skipWhitespace lx)"

section \<open>Lookahead\<close>

definition next_token :: "(lexer, token) vm" where
  "next_token lx =
    (if lx_hasPeek lx
     then (Inr (lx_peekToken lx), lx\<lparr>lx_hasPeek := False, lx_position := lx_peekPosition lx,
                                     lx_line := lx_peekLine lx\<rparr>)
     else readToken lx)"

definition peek_token :: "(lexer, token) vm" where
  "peek_token lx =
    (if \<not> lx_hasPeek lx
     then case readToken lx of
            (Inl e, lx') \<Rightarrow> (Inl e, lx')
          | (Inr t, lx') \<Rightarrow>
              (Inr t, lx'\<lparr>lx_peekToken := t, lx_peekPosition := lx_position lx', lx_peekLine := lx_line lx',
                          lx_position := lx_position lx, lx_line := lx_line lx, lx_hasPeek := True\<rparr>)
     else (Inr (lx_peekToken lx), lx))"

definition lexer_reset :: "lexer \<Rightarrow> lexer" where
  "lexer_reset lx = lx\<lparr>lx_position := 0, lx_line := 1, lx_hasPeek := False\<rparr>"

definition lexer_mark :: "lexer \<Rightarrow> nat" where
  "lexer_mark lx = lx_position lx"

definition lexer_restore :: "nat \<Rightarrow> lexer \<Rightarrow> lexer" where
  "lexer_restore mark lx = lx\<lparr>lx_position := mark, lx_hasPeek := False\<rparr>"

section \<open>Progress\<close>

text \<open>
  A lexer is consistent when its lookahead lies ahead of its position. Every operation keeps the
  source and lets \<open>lx_left\<close>, the characters that remain, at most shrink; reading a token other
  than the end makes it smaller, from any state. This is what makes the parser's loops end.
\<close>

definition lexer_ok :: "lexer \<Rightarrow> bool" where
  "lexer_ok lx \<longleftrightarrow> (lx_hasPeek lx \<longrightarrow>
     (if tk_type (lx_peekToken lx) = TK_End then lx_position lx \<le> lx_peekPosition lx
      else lx_position lx < lx_peekPosition lx \<and> lx_position lx < length (lx_source lx)))"

definition lx_left :: "lexer \<Rightarrow> nat" where
  "lx_left lx = (if lexer_ok lx then length (lx_source lx) - lx_position lx
                 else Suc (length (lx_source lx)))"

definition lexer_step :: "lexer \<Rightarrow> lexer \<Rightarrow> bool" where
  "lexer_step lx lx' \<longleftrightarrow> lx_source lx' = lx_source lx \<and> lx_left lx' \<le> lx_left lx"

interpretation lexer_frame: frame_relation lexer_step
  by unfold_locales (auto simp: lexer_step_def)

text \<open>What a read token did to the lexer.\<close>

definition token_read :: "lexer \<Rightarrow> vm_exception + token \<Rightarrow> lexer \<Rightarrow> bool" where
  "token_read lx r lx' \<longleftrightarrow> lx_source lx' = lx_source lx \<and> lx_hasPeek lx' = lx_hasPeek lx \<and>
     lx_position lx \<le> lx_position lx' \<and>
     (\<forall>t. r = Inr t \<and> tk_type t \<noteq> TK_End \<longrightarrow> lx_position lx < lx_position lx' \<and>
        lx_position lx < length (lx_source lx))"

lemma rest_nth: "lx_position lx < length (lx_source lx) \<Longrightarrow>
    lx_rest lx = lx_source lx ! lx_position lx # drop (Suc (lx_position lx)) (lx_source lx)"
  by (simp add: lx_rest_def Cons_nth_drop_Suc)

lemma readToken_at_progress: "readToken_at lx = (r, lx') \<Longrightarrow> token_read lx r lx'"
  using rest_nth [of lx]
  by (auto simp: readToken_at_def token_read_def single_character_def makeIdentifierOrRegister_def
      makeNumber_def Token_def Let_def is_alnum_def not_le split: if_splits)

lemma readToken_progress: "readToken lx = (r, lx') \<Longrightarrow> token_read lx r lx'"
  using readToken_at_progress [of "skipWhitespace lx" r lx']
  by (auto simp: readToken_def token_read_def skipWhitespace_def)

lemma next_token_progress:
  assumes "next_token lx = (r, lx')"
  shows "\<not> lx_hasPeek lx' \<and> lx_source lx' = lx_source lx \<and> (lexer_ok lx \<longrightarrow> lx_position lx \<le> lx_position lx') \<and>
    (\<forall>t. r = Inr t \<and> tk_type t \<noteq> TK_End \<and> lexer_ok lx \<longrightarrow>
      lx_position lx < lx_position lx' \<and> lx_position lx < length (lx_source lx))"
  using assms readToken_progress [of lx r lx']
  by (auto simp: next_token_def lexer_ok_def token_read_def split: if_splits)

lemma peek_token_progress:
  assumes "peek_token lx = (Inr t, lx')"
  shows "lx_hasPeek lx' \<and> lx_source lx' = lx_source lx \<and> lx_position lx' = lx_position lx \<and>
    lx_peekToken lx' = t \<and> (lexer_ok lx \<longrightarrow> lexer_ok lx')"
  using assms readToken_progress [of lx "Inr t"]
  by (auto simp: peek_token_def lexer_ok_def token_read_def split: if_splits prod.splits sum.splits)

lemma lexer_ok_no_peek: "\<not> lx_hasPeek lx \<Longrightarrow> lexer_ok lx"
  by (simp add: lexer_ok_def)

lemma lx_left_bound: "lx_left lx \<le> Suc (length (lx_source lx))"
  by (auto simp: lx_left_def)

lemma next_token_step:
  assumes "next_token lx = (r, lx')"
  shows "lexer_step lx lx'"
  using next_token_progress [OF assms] lexer_ok_no_peek [of lx']
  by (auto simp: lexer_step_def lx_left_def)

lemma next_token_less:
  assumes "next_token lx = (Inr t, lx')" and "tk_type t \<noteq> TK_End"
  shows "lx_left lx' < lx_left lx"
  using next_token_progress [OF assms(1)] lexer_ok_no_peek [of lx'] assms(2)
  by (auto simp: lx_left_def)

lemma peek_token_step:
  assumes "peek_token lx = (r, lx')"
  shows "lexer_step lx lx'"
proof (cases r)
  case (Inl e)
  with assms readToken_progress [of lx "Inl e" lx'] lexer_ok_no_peek [of lx] lexer_ok_no_peek [of lx']
  show ?thesis
    by (auto simp: peek_token_def lexer_step_def lx_left_def token_read_def
        split: if_splits prod.splits sum.splits)
next
  case (Inr t)
  with assms peek_token_progress [of lx t lx'] show ?thesis by (auto simp: lexer_step_def lx_left_def)
qed

lemma step_next: "respecting lexer_step next_token"
  by (rule respectsI) (simp add: next_token_step prod_eq_iff)

lemma step_peek: "respecting lexer_step peek_token"
  by (rule respectsI) (simp add: peek_token_step prod_eq_iff)

text \<open>Going back to a mark undoes what was read since.\<close>

lemma restore_left:
  assumes "lexer_step lx lx'"
  shows "lx_left (lexer_restore (lexer_mark lx) lx') \<le> lx_left lx"
  using assms lexer_ok_no_peek [of "lexer_restore (lexer_mark lx) lx'"]
  by (auto simp: lx_left_def lexer_restore_def lexer_mark_def lexer_step_def)

text \<open>Looking ahead does not change what is read next.\<close>

lemma next_after_peek:
  assumes "peek_token lx = (Inr t, lx')" and "next_token lx = (r, lx1)"
  shows "r = Inr t \<and> (\<exists>lx2. next_token lx' = (Inr t, lx2) \<and> lx_position lx2 = lx_position lx1 \<and>
    lx_line lx2 = lx_line lx1 \<and> lx_source lx2 = lx_source lx1 \<and> \<not> lx_hasPeek lx2)"
  using assms next_token_progress [OF assms(2)]
  by (auto simp: peek_token_def next_token_def split: if_splits prod.splits sum.splits)

end
