(* ===== verification/Parser.thy ===== *)
theory Parser
  imports Lexer Opcode_Table
begin

text \<open>
  The two-pass assembler (\<^verbatim>\<open>src/vm/assembler/parser.cpp\<close>). The state of \<^verbatim>\<open>Parser\<close> together with the
  lexer and the code vector that its functions are handed by reference is one record; a function that
  may throw is a computation over it. The first pass runs with \<^verbatim>\<open>emit\<close> false and collects labels and
  data symbols, the second writes the code. The loops end because each round reads a token: they
  are recursive functions with a termination proof over the characters that are left.
\<close>

section \<open>State\<close>

datatype data_type = DT_Byte | DT_DByte | DT_Word | DT_QWord

text \<open>\<^verbatim>\<open>struct DataSymbol\<close>; the value is a \<^verbatim>\<open>std::int64_t\<close>.\<close>

record data_symbol =
  ds_name :: string
  ds_type :: data_type
  ds_value :: u64
  ds_offset :: Address

record assembled_program =
  ap_code :: "Word list"
  ap_data :: "u8 list"

datatype section_kind = Section_None | Section_Data | Section_Code

record parser =
  ps_lexer :: lexer
  ps_section :: section_kind
  ps_codeAddress :: Address
  ps_dataOffset :: Address
  ps_labels :: "string \<rightharpoonup> Address"
  ps_dataSymbols :: "data_symbol list"
  ps_code :: "Word list"

definition on_lexer :: "(lexer, 'a) vm \<Rightarrow> (parser, 'a) vm" where
  "on_lexer m = (\<lambda>s. case m (ps_lexer s) of (r, lx) \<Rightarrow> (r, s\<lparr>ps_lexer := lx\<rparr>))"

section \<open>Tokens\<close>

definition consume :: "token_type \<Rightarrow> (parser, token) vm" where
  "consume ty =
    vbind (on_lexer next_token) (\<lambda>t.
    if tk_type t \<noteq> ty then vthrow (AssemblerError (tk_line t) (''unexpected token: '' @ tk_text t))
    else vreturn t)"

definition match_token :: "token_type \<Rightarrow> (parser, bool) vm" where
  "match_token ty =
    vbind (on_lexer peek_token) (\<lambda>t.
    if tk_type t = ty then vbind (on_lexer next_token) (\<lambda>_. vreturn True) else vreturn False)"

definition current_token :: "(parser, token) vm" where
  "current_token = on_lexer peek_token"

text \<open>The characters that are left to the parser, and the frame of its operations.\<close>

definition ps_left :: "parser \<Rightarrow> nat" where
  "ps_left s = lx_left (ps_lexer s)"

definition parser_step :: "parser \<Rightarrow> parser \<Rightarrow> bool" where
  "parser_step s s' \<longleftrightarrow> lexer_step (ps_lexer s) (ps_lexer s')"

interpretation parser_frame: frame_relation parser_step
  by unfold_locales (auto simp: parser_step_def intro: lexer_frame.frame_refl lexer_frame.frame_trans)

lemma on_lexer_eq [vm_run]: "on_lexer m s = (fst (m (ps_lexer s)), s\<lparr>ps_lexer := snd (m (ps_lexer s))\<rparr>)"
  by (simp add: on_lexer_def split: prod.split)

lemma step_on_lexer: "respecting lexer_step m \<Longrightarrow> respecting parser_step (on_lexer m)"
  by (simp add: respecting_def parser_step_def on_lexer_eq)

lemma step_consume: "respecting parser_step (consume ty)"
  unfolding consume_def by (intro parser_frame.respects_intros step_on_lexer step_next)

lemma step_match: "respecting parser_step (match_token ty)"
  unfolding match_token_def by (intro parser_frame.respects_intros step_on_lexer step_next step_peek)

lemma parser_step_left: "parser_step s s' \<Longrightarrow> ps_left s' \<le> ps_left s"
  by (simp add: parser_step_def lexer_step_def ps_left_def)

lemma consume_less:
  assumes "consume ty s = (Inr t, s')" and "ty \<noteq> TK_End"
  shows "ps_left s' < ps_left s"
  using assms next_token_less [of "ps_lexer s" t]
  by (auto simp: consume_def vm_run ps_left_def prod_eq_iff split: sum.splits prod.splits if_splits)

lemma next_less:
  assumes "on_lexer next_token s = (Inr t, s')" and "tk_type t \<noteq> TK_End"
  shows "ps_left s' < ps_left s"
  using assms next_token_less [of "ps_lexer s" t] by (auto simp: on_lexer_eq ps_left_def prod_eq_iff)

lemma peek_next_less:
  assumes "peek_token lx = (Inr t, lx1)" and "next_token lx1 = (r, lx2)" and "tk_type t \<noteq> TK_End"
  shows "lx_left lx2 < lx_left lx"
proof -
  have "r = Inr t" using peek_token_progress [OF assms(1)] assms(2) by (auto simp: next_token_def)
  with assms(2,3) have "lx_left lx2 < lx_left lx1" by (auto intro: next_token_less)
  also have "\<dots> \<le> lx_left lx" using peek_token_step [OF assms(1)] by (simp add: lexer_step_def)
  finally show ?thesis .
qed

lemma match_less:
  assumes "match_token ty s = (Inr True, s')" and "ty \<noteq> TK_End"
  shows "ps_left s' < ps_left s"
  using assms peek_next_less [of "ps_lexer s"]
  by (auto simp: match_token_def vm_run ps_left_def prod_eq_iff split: sum.splits prod.splits if_splits)

function skipNewlines :: "(parser, unit) vm" where
  "skipNewlines s =
    (case match_token TK_Newline s of
       (Inl e, s') \<Rightarrow> (Inl e, s')
     | (Inr again, s') \<Rightarrow> if again then skipNewlines s' else (Inr (), s'))"
  by pat_completeness auto

termination
  by (relation "measure ps_left") (auto intro: match_less)

declare skipNewlines.simps [simp del]

lemma skipNewlines_step: "respecting parser_step skipNewlines"
proof (rule respectsI)
  fix s
  show "parser_step s (snd (skipNewlines s))"
  proof (induction s rule: skipNewlines.induct)
    case (1 s)
    obtain r s' where m: "match_token TK_Newline s = (r, s')" by (cases "match_token TK_Newline s")
    have "parser_step s s'" using step_match m by (rule respectsD)
    with m 1 show ?case
      by (auto simp: skipNewlines.simps [of s] split: sum.split intro: parser_frame.frame_trans)
  qed
qed

section \<open>Operands and encodings\<close>

text \<open>A pure computation that may throw.\<close>

definition lift_result :: "vm_exception + 'a \<Rightarrow> ('s, 'a) vm" where
  "lift_result r = vread (\<lambda>_. r)"

definition encodeMov :: "u8 \<Rightarrow> u8 \<Rightarrow> u16 \<Rightarrow> Word" where
  "encodeMov rd rsOrImmMarker imm = encodeInstruction OP_MOV rd 0 rsOrImmMarker imm"

definition encodeRegReg :: "opcode \<Rightarrow> u8 \<Rightarrow> u8 \<Rightarrow> u8 \<Rightarrow> Word" where
  "encodeRegReg op rd rs1 rs2 = encodeInstruction op rd rs1 rs2 0"

definition encodeRegImm :: "opcode \<Rightarrow> u8 \<Rightarrow> u8 \<Rightarrow> u16 \<Rightarrow> Word" where
  "encodeRegImm op rd rs1 imm = encodeInstruction op rd rs1 kImmediateMarker imm"

definition encodeJump :: "opcode \<Rightarrow> Address \<Rightarrow> Word" where
  "encodeJump op target = encodeInstruction op 0 0 0 (ucast target)"

definition encodeCall :: "syscall_id \<Rightarrow> Address \<Rightarrow> Word" where
  "encodeCall syscall arg = encodeInstruction OP_CALL 0 (ucast (syscall_number syscall)) 0 (ucast arg)"

definition parseRegisterToken :: "token \<Rightarrow> vm_exception + u8" where
  "parseRegisterToken t =
    (if tk_type t \<noteq> TK_Register then Inl (AssemblerError (tk_line t) ''expected register'')
     else registerIndexFromName (tk_text t))"

definition parseNumberToken :: "token \<Rightarrow> vm_exception + u16" where
  "parseNumberToken t =
    (if tk_type t \<noteq> TK_Number then Inl (AssemblerError (tk_line t) ''expected number'')
     else case std_stol (tk_text t) of Inl e \<Rightarrow> Inl e | Inr value \<Rightarrow> Inr (word_of_int value))"

definition resolveLabel :: "string \<Rightarrow> nat \<Rightarrow> (parser, Address) vm" where
  "resolveLabel label line =
    vread (\<lambda>s. case ps_labels s label of
      None \<Rightarrow> Inl (AssemblerError line (''unknown label: '' @ label)) | Some a \<Rightarrow> Inr a)"

definition resolveDataSymbol :: "string \<Rightarrow> nat \<Rightarrow> (parser, Address) vm" where
  "resolveDataSymbol name line =
    vread (\<lambda>s. case find (\<lambda>d. ds_name d = name) (ps_dataSymbols s) of
      None \<Rightarrow> Inl (AssemblerError line (''unknown data symbol: '' @ name)) | Some d \<Rightarrow> Inr (ds_offset d))"

definition parseOpcode :: "string \<Rightarrow> vm_exception + opcode" where
  "parseOpcode name = mnemonicToOpcode name"

definition parseSyscall :: "string \<Rightarrow> vm_exception + syscall_id" where
  "parseSyscall name =
    (if name = ''print'' then Inr SYS_Print
     else if name = ''scan'' then Inr SYS_Scan
     else if name = ''exit'' then Inr SYS_Exit
     else if name = ''yield'' then Inr SYS_Yield
     else if name = ''load'' then Inr SYS_Load
     else Inl (AssemblerError 0 (''unknown syscall: '' @ name)))"

fun dataTypeSize :: "data_type \<Rightarrow> nat" where
  "dataTypeSize DT_Byte = 1"
| "dataTypeSize DT_DByte = 2"
| "dataTypeSize DT_Word = 4"
| "dataTypeSize DT_QWord = 8"

section \<open>Instructions\<close>

text \<open>\<^verbatim>\<open>if (emit) code.push_back(\<dots>)\<close>, where computing the word may throw.\<close>

definition emit_word :: "bool \<Rightarrow> (parser, Word) vm \<Rightarrow> (parser, unit) vm" where
  "emit_word emit w =
    (if emit then vbind w (\<lambda>word. vmodify (\<lambda>s. s\<lparr>ps_code := ps_code s @ [word]\<rparr>)) else vreturn ())"

text \<open>\<^verbatim>\<open>++codeAddress_; skipNewlines(lexer); return;\<close>\<close>

definition end_instruction :: "(parser, unit) vm" where
  "end_instruction = vseq (vmodify (\<lambda>s. s\<lparr>ps_codeAddress := ps_codeAddress s + 1\<rparr>)) skipNewlines"

definition parse_register :: "(parser, u8) vm" where
  "parse_register = vbind (consume TK_Register) (\<lambda>t. lift_result (parseRegisterToken t))"

text \<open>\<^verbatim>\<open>[symbol]\<close> after the opening bracket.\<close>

definition parse_symbol :: "(parser, token \<times> Address) vm" where
  "parse_symbol =
    vbind (consume TK_Identifier) (\<lambda>symToken.
    vbind (resolveDataSymbol (tk_text symToken) (tk_line symToken)) (\<lambda>offset.
    vbind (consume TK_RBracket) (\<lambda>_. vreturn (symToken, offset))))"

text \<open>The address operand of \<^verbatim>\<open>call\<close>, \<^verbatim>\<open>load\<close> and \<^verbatim>\<open>store\<close>.\<close>

definition parse_address :: "(parser, Address) vm" where
  "parse_address =
    vbind (match_token TK_LBracket) (\<lambda>bracket.
    if bracket then vbind parse_symbol (\<lambda>(_, offset). vreturn offset)
    else vbind (consume TK_Number) (\<lambda>numToken.
         vbind (lift_result (parseNumberToken numToken)) (\<lambda>imm. vreturn (scast imm))))"

text \<open>A label operand and a number operand, with the word that each is encoded to.\<close>

definition label_operand :: "(Address \<Rightarrow> Word) \<Rightarrow> bool \<Rightarrow> (parser, unit) vm" where
  "label_operand encode emit =
    vbind (consume TK_Identifier) (\<lambda>labelToken.
    emit_word emit
      (vbind (resolveLabel (tk_text labelToken) (tk_line labelToken)) (\<lambda>target.
       vreturn (encode target))))"

definition number_operand :: "(u16 \<Rightarrow> Word) \<Rightarrow> bool \<Rightarrow> (parser, unit) vm" where
  "number_operand encode emit =
    vbind (consume TK_Number) (\<lambda>numberToken.
    vbind (lift_result (parseNumberToken numberToken)) (\<lambda>imm.
    emit_word emit (vreturn (encode imm))))"

definition parse_push :: "bool \<Rightarrow> (parser, unit) vm" where
  "parse_push emit =
    vbind (on_lexer peek_token) (\<lambda>ahead.
    if tk_type ahead = TK_Register
    then vbind parse_register (\<lambda>rd. emit_word emit (vreturn (encodeRegReg OP_PUSH rd rd rd)))
    else vbind current_token (\<lambda>ahead.
      if tk_type ahead = TK_Identifier
      then label_operand (\<lambda>target. encodeRegImm OP_PUSH 0 0 (ucast target)) emit
      else number_operand (encodeRegImm OP_PUSH 0 0) emit))"

definition parse_call :: "bool \<Rightarrow> (parser, unit) vm" where
  "parse_call emit =
    vbind (consume TK_Identifier) (\<lambda>syscallToken.
    vbind (consume TK_Comma) (\<lambda>_.
    vbind parse_address (\<lambda>arg.
    emit_word emit
      (vbind (lift_result (parseSyscall (tk_text syscallToken))) (\<lambda>sc. vreturn (encodeCall sc arg))))))"

definition parse_jump :: "opcode \<Rightarrow> bool \<Rightarrow> (parser, unit) vm" where
  "parse_jump op emit = label_operand (encodeJump op) emit"

definition parse_unary :: "opcode \<Rightarrow> bool \<Rightarrow> (parser, unit) vm" where
  "parse_unary op emit =
    vbind parse_register (\<lambda>rd. emit_word emit (vreturn (encodeInstruction op rd 0 0 0)))"

text \<open>\<^verbatim>\<open>load\<close> and \<^verbatim>\<open>store\<close>.\<close>

definition parse_memory :: "opcode \<Rightarrow> bool \<Rightarrow> (parser, unit) vm" where
  "parse_memory op emit =
    vbind parse_register (\<lambda>rd.
    vbind (consume TK_Comma) (\<lambda>_.
    vbind parse_address (\<lambda>offset.
    emit_word emit (vreturn (encodeInstruction op rd 0 0 (ucast offset))))))"

text \<open>The second operand of the two-operand instructions, after the comma.\<close>

definition second_operand :: "opcode \<Rightarrow> bool \<Rightarrow> u8 \<Rightarrow> (parser, unit) vm" where
  "second_operand op emit rd =
    vbind (on_lexer peek_token) (\<lambda>ahead.
    if tk_type ahead = TK_Register
    then vbind parse_register (\<lambda>rs.
         emit_word emit (vreturn (if op = OP_MOV then encodeRegReg op rd rs rs else encodeRegReg op rd rd rs)))
    else vbind (match_token TK_LBracket) (\<lambda>bracket.
      if bracket
      then vbind parse_symbol (\<lambda>(symToken, offset).
           emit_word emit
             (if op = OP_MOV then vreturn (encodeInstruction OP_LOAD rd 0 0 (ucast offset))
              else vthrow (AssemblerError (tk_line symToken)
                     ''memory operand not supported for this opcode'')))
      else number_operand (\<lambda>imm.
             if op = OP_MOV then encodeMov rd kImmediateMarker imm
             else if op = OP_CMP then encodeRegImm op 0 rd imm
             else encodeRegImm op rd rd imm) emit))"

text \<open>The two-operand instructions.\<close>

definition parse_binary :: "opcode \<Rightarrow> bool \<Rightarrow> (parser, unit) vm" where
  "parse_binary op emit =
    vbind parse_register (\<lambda>rd.
    vbind (consume TK_Comma) (\<lambda>_. second_operand op emit rd))"

definition parse_operands :: "string \<Rightarrow> bool \<Rightarrow> (parser, unit) vm" where
  "parse_operands opcodeName emit =
    (if opcodeName = ''halt'' then emit_word emit (vreturn (encodeInstruction OP_HALT 0 0 0 0))
     else if opcodeName = ''ret'' then emit_word emit (vreturn (encodeInstruction OP_RET 0 0 0 0))
     else if opcodeName = ''push'' then parse_push emit
     else if opcodeName = ''pop'' then parse_unary OP_POP emit
     else if opcodeName = ''call'' then parse_call emit
     else vbind (lift_result (parseOpcode opcodeName)) (\<lambda>op.
       if op \<in> {OP_JMP, OP_JE, OP_JNE, OP_JG, OP_JGE, OP_JL, OP_JLE} then parse_jump op emit
       else if op \<in> {OP_INC, OP_DEC, OP_NOT} then parse_unary op emit
       else if op = OP_LOAD \<or> op = OP_STORE then parse_memory op emit
       else parse_binary op emit))"

definition parseInstruction :: "bool \<Rightarrow> (parser, unit) vm" where
  "parseInstruction emit =
    vbind (consume TK_Identifier) (\<lambda>opcodeToken.
    vseq (parse_operands (tk_text opcodeToken) emit) end_instruction)"

section \<open>Statements\<close>

definition parse_data_type :: "token \<Rightarrow> vm_exception + data_type" where
  "parse_data_type t =
    (if tk_type t \<noteq> TK_Identifier then Inl (AssemblerError (tk_line t) ''expected data type'')
     else if tk_text t = ''BYTE'' then Inr DT_Byte
     else if tk_text t = ''DBYTE'' then Inr DT_DByte
     else if tk_text t = ''WORD'' then Inr DT_Word
     else if tk_text t = ''QWORD'' then Inr DT_QWord
     else Inl (AssemblerError (tk_line t) (''unknown data type: '' @ tk_text t)))"

definition add_symbol :: "string \<Rightarrow> data_type \<Rightarrow> u64 \<Rightarrow> parser \<Rightarrow> parser" where
  "add_symbol name ty value s =
    s\<lparr>ps_dataSymbols := ps_dataSymbols s @
         [\<lparr>ds_name = name, ds_type = ty, ds_value = value, ds_offset = ps_dataOffset s\<rparr>],
      ps_dataOffset := ps_dataOffset s + of_nat (dataTypeSize ty)\<rparr>"

definition parse_data :: "bool \<Rightarrow> token \<Rightarrow> (parser, unit) vm" where
  "parse_data emit t =
    vbind (lift_result (parse_data_type t)) (\<lambda>dataType.
    vbind (consume TK_Identifier) (\<lambda>nameToken.
    vbind (consume TK_Number) (\<lambda>valueToken.
    vbind (lift_result (parseNumberToken valueToken)) (\<lambda>value.
    vseq (if \<not> emit then vmodify (add_symbol (tk_text nameToken) dataType (scast value)) else vreturn ())
      skipNewlines))))"

definition parse_code :: "bool \<Rightarrow> nat \<Rightarrow> token \<Rightarrow> (parser, unit) vm" where
  "parse_code emit statementStart t =
    vbind (if tk_type t = TK_Identifier
           then vbind (on_lexer peek_token) (\<lambda>ahead. vreturn (tk_type ahead = TK_Colon))
           else vreturn False) (\<lambda>label.
    if label
    then vbind (on_lexer next_token) (\<lambda>_.
         vseq (vmodify (\<lambda>s. s\<lparr>ps_labels := (ps_labels s)(tk_text t \<mapsto> ps_codeAddress s)\<rparr>)) skipNewlines)
    else vseq (vmodify (\<lambda>s. s\<lparr>ps_lexer := lexer_restore statementStart (ps_lexer s)\<rparr>))
         (parseInstruction emit))"

definition enter_section :: "section_kind \<Rightarrow> (parser, unit) vm" where
  "enter_section sec =
    vbind (consume TK_Colon) (\<lambda>_.
    vseq (vmodify (\<lambda>s. s\<lparr>ps_section := sec\<rparr>)) skipNewlines)"

definition parse_statement :: "bool \<Rightarrow> nat \<Rightarrow> token \<Rightarrow> (parser, unit) vm" where
  "parse_statement emit statementStart t =
    (if tk_type t = TK_Identifier \<and> tk_text t = ''DATA'' then enter_section Section_Data
     else if tk_type t = TK_Identifier \<and> tk_text t = ''CODE'' then enter_section Section_Code
     else vbind (vgets ps_section) (\<lambda>sec.
       case sec of
         Section_Data \<Rightarrow> parse_data emit t
       | Section_Code \<Rightarrow> parse_code emit statementStart t
       | Section_None \<Rightarrow> vthrow (AssemblerError (tk_line t) ''expected DATA or CODE section'')))"

text \<open>One round of the loop; the result says whether the loop goes on.\<close>

definition parse_round :: "bool \<Rightarrow> (parser, bool) vm" where
  "parse_round emit =
    vseq skipNewlines
    (vbind (on_lexer peek_token) (\<lambda>ahead.
     if tk_type ahead = TK_End then vreturn False
     else vbind (vgets (\<lambda>s. lexer_mark (ps_lexer s))) (\<lambda>statementStart.
          vbind (on_lexer next_token) (\<lambda>t.
          vseq (parse_statement emit statementStart t) (vreturn True)))))"

section \<open>Every round reads a token\<close>

lemma step_lift: "respecting parser_step (lift_result r)"
  by (simp add: lift_result_def parser_frame.respects_read)

lemma step_modify: "(\<And>s. ps_lexer (f s) = ps_lexer s) \<Longrightarrow> respecting parser_step (vmodify f)"
  by (rule respects_modify) (simp add: parser_step_def lexer_step_def)

lemma step_resolve:
  "respecting parser_step (resolveLabel name line)" "respecting parser_step (resolveDataSymbol name line)"
  by (simp_all add: resolveLabel_def resolveDataSymbol_def parser_frame.respects_read)

lemma step_emit: "respecting parser_step w \<Longrightarrow> respecting parser_step (emit_word emit w)"
  by (auto simp: emit_word_def intro!: parser_frame.respects_intros step_modify)

lemmas parser_steps =
  parser_frame.respects_intros step_on_lexer step_next step_peek step_consume step_match
  skipNewlines_step step_lift step_modify step_resolve step_emit

lemma step_register: "respecting parser_step parse_register"
  unfolding parse_register_def by (intro parser_steps)

lemma step_symbol: "respecting parser_step parse_symbol"
  unfolding parse_symbol_def by (intro parser_steps)

lemma step_address: "respecting parser_step parse_address"
  unfolding parse_address_def by (auto intro!: parser_steps step_symbol split: prod.split)

lemmas instruction_defs =
  parse_operands_def parse_push_def parse_call_def parse_jump_def parse_unary_def parse_memory_def
  parse_binary_def second_operand_def label_operand_def number_operand_def current_token_def

lemma step_operands: "respecting parser_step (parse_operands name emit)"
  unfolding instruction_defs
  by (auto intro!: parser_steps step_register step_symbol step_address split: prod.split)

lemma step_instruction: "respecting parser_step (parseInstruction emit)"
  unfolding parseInstruction_def end_instruction_def by (auto intro!: parser_steps step_operands)

lemma step_data: "respecting parser_step (parse_data emit t)"
  unfolding parse_data_def add_symbol_def by (auto intro!: parser_steps)

lemma step_section: "respecting parser_step (enter_section sec)"
  unfolding enter_section_def by (auto intro!: parser_steps)

lemma parseInstruction_less:
  assumes "parseInstruction emit s = (Inr (), s')"
  shows "ps_left s' < ps_left s"
proof -
  from assms obtain t s1 where s1: "consume TK_Identifier s = (Inr t, s1)"
    and rest: "vseq (parse_operands (tk_text t) emit) end_instruction s1 = (Inr (), s')"
    by (auto simp: parseInstruction_def vbind_Inr)
  have "respecting parser_step (vseq (parse_operands (tk_text t) emit) end_instruction)"
    unfolding end_instruction_def by (auto intro!: parser_steps step_operands)
  then have "parser_step s1 s'" using rest by (rule respectsD)
  with consume_less [OF s1] parser_step_left show ?thesis by fastforce
qed

text \<open>
  The statement is read from \<open>s\<close>, the state before its first token, of which \<open>s1\<close> is the state
  after it; going back to the mark returns to \<open>s\<close> at most.
\<close>

definition label_ahead :: "token \<Rightarrow> (parser, bool) vm" where
  "label_ahead t =
    (if tk_type t = TK_Identifier
     then vbind (on_lexer peek_token) (\<lambda>ahead. vreturn (tk_type ahead = TK_Colon)) else vreturn False)"

lemma step_label_ahead: "respecting parser_step (label_ahead t)"
  unfolding label_ahead_def by (auto intro!: parser_steps)

lemma step_label:
  "respecting parser_step (vbind (on_lexer next_token) (\<lambda>_.
     vseq (vmodify (\<lambda>s. s\<lparr>ps_labels := (ps_labels s)(l \<mapsto> ps_codeAddress s)\<rparr>)) skipNewlines))"
  by (auto intro!: parser_steps)

lemma parse_code_less:
  assumes "parse_code emit (lexer_mark (ps_lexer s)) t s1 = (Inr (), s')"
    and "parser_step s s1" and "ps_left s1 < ps_left s"
  shows "ps_left s' < ps_left s"
proof -
  from assms(1) obtain label s2 where s2: "label_ahead t s1 = (Inr label, s2)"
    by (auto simp: parse_code_def vbind_Inr label_ahead_def)
  have s12: "parser_step s1 s2" using step_label_ahead s2 by (rule respectsD)
  show ?thesis
  proof (cases label)
    case True
    with assms(1) s2 have "vbind (on_lexer next_token) (\<lambda>_. vseq (vmodify (\<lambda>s. s\<lparr>ps_labels :=
        (ps_labels s)(tk_text t \<mapsto> ps_codeAddress s)\<rparr>)) skipNewlines) s2 = (Inr (), s')"
      by (simp add: parse_code_def label_ahead_def [symmetric] vbind_def)
    with step_label have "parser_step s2 s'" by (rule respectsD)
    with s12 assms(3) parser_step_left show ?thesis by (meson le_less_trans)
  next
    case False
    let ?s3 = "s2\<lparr>ps_lexer := lexer_restore (lexer_mark (ps_lexer s)) (ps_lexer s2)\<rparr>"
    from False assms(1) s2 have "parseInstruction emit ?s3 = (Inr (), s')"
      by (simp add: parse_code_def label_ahead_def [symmetric] vbind_def vseq_def vmodify_def)
    then have "ps_left s' < ps_left ?s3" by (rule parseInstruction_less)
    also have "parser_step s s2" using assms(2) s12 by (rule parser_frame.frame_trans)
    then have "ps_left ?s3 \<le> ps_left s" by (simp add: ps_left_def parser_step_def restore_left)
    finally show ?thesis .
  qed
qed

lemma parse_statement_less:
  assumes "parse_statement emit (lexer_mark (ps_lexer s)) t s1 = (Inr (), s')"
    and "parser_step s s1" and "ps_left s1 < ps_left s"
  shows "ps_left s' < ps_left s"
proof -
  have *: "ps_left s' < ps_left s" if "respecting parser_step m" "m s1 = (Inr (), s')" for m :: "(parser, unit) vm"
    using respectsD [OF that] assms(3) parser_step_left by (meson le_less_trans)
  note * [OF step_section] * [OF step_data] parse_code_less [OF _ assms(2,3)]
  with assms(1) show ?thesis
    by (auto simp: parse_statement_def vbind_def vgets_def vthrow_def split: if_splits section_kind.splits)
qed

lemma parse_round_less:
  assumes "parse_round emit s = (Inr True, s')"
  shows "ps_left s' < ps_left s"
proof -
  from assms obtain s1 s2 s3 ahead t where
    s1: "skipNewlines s = (Inr (), s1)" and s2: "on_lexer peek_token s1 = (Inr ahead, s2)"
    and ahead: "tk_type ahead \<noteq> TK_End" and s3: "on_lexer next_token s2 = (Inr t, s3)"
    and st: "parse_statement emit (lexer_mark (ps_lexer s2)) t s3 = (Inr (), s')"
    by (auto simp: parse_round_def vseq_def vbind_Inr vreturn_def vgets_def split: if_splits)
  have "parser_step s s1" using skipNewlines_step s1 by (rule respectsD)
  moreover have "parser_step s1 s2" using step_on_lexer [OF step_peek] s2 by (rule respectsD)
  moreover have s23: "parser_step s2 s3" using step_on_lexer [OF step_next] s3 by (rule respectsD)
  have "t = ahead"
    using s2 s3 peek_token_progress [of "ps_lexer s1" ahead "ps_lexer s2"]
    by (auto simp: on_lexer_eq prod_eq_iff next_token_def)
  with next_less [OF s3] ahead have "ps_left s3 < ps_left s2" by simp
  with st s23 have "ps_left s' < ps_left s2" by (rule parse_statement_less)
  ultimately show ?thesis using parser_step_left by (meson le_trans less_le_trans)
qed

function parse_loop :: "bool \<Rightarrow> (parser, unit) vm" where
  "parse_loop emit s =
    (case on_lexer peek_token s of
       (Inl e, s1) \<Rightarrow> (Inl e, s1)
     | (Inr ahead, s1) \<Rightarrow>
         if tk_type ahead = TK_End then (Inr (), s1)
         else case parse_round emit s1 of
                (Inl e, s2) \<Rightarrow> (Inl e, s2)
              | (Inr again, s2) \<Rightarrow> if again then parse_loop emit s2 else (Inr (), s2))"
  by pat_completeness auto

termination
proof (relation "measure (ps_left \<circ> snd)")
  fix emit s r s1 ahead q s2 again
  assume 1: "(r, s1) = on_lexer peek_token s" and 2: "(q, s2) = parse_round emit s1" "q = Inr again" again
  have "respecting parser_step (on_lexer peek_token)" by (intro parser_steps)
  then have "ps_left s1 \<le> ps_left s" using 1 by (metis parser_step_left respectsD)
  moreover have "ps_left s2 < ps_left s1" using 2 parse_round_less by simp
  ultimately show "((emit, s2), (emit, s)) \<in> measure (ps_left \<circ> snd)" by simp
qed simp

declare parse_loop.simps [simp del]

definition parseProgram :: "bool \<Rightarrow> (parser, unit) vm" where
  "parseProgram emit =
    vseq (vmodify (\<lambda>s. s\<lparr>ps_section := Section_None\<rparr>)) (vseq skipNewlines (parse_loop emit))"

section \<open>Two passes\<close>

text \<open>The bytes of a data symbol, little endian.\<close>

definition little_endian :: "nat \<Rightarrow> u64 \<Rightarrow> u8 list" where
  "little_endian n value = map (\<lambda>i. ucast (drop_bit (8 * i) value AND 0xFF)) [0..<n]"

fun write_data :: "nat \<Rightarrow> u8 list \<Rightarrow> u8 list \<Rightarrow> u8 list" where
  "write_data offset [] data = data"
| "write_data offset (b # bs) data = write_data (Suc offset) bs (data[offset := b])"

definition emit_symbol :: "data_symbol \<Rightarrow> u8 list \<Rightarrow> u8 list" where
  "emit_symbol d data =
    write_data (unat (ds_offset d)) (little_endian (dataTypeSize (ds_type d)) (ds_value d)) data"

definition emit_data :: "data_symbol list \<Rightarrow> Address \<Rightarrow> u8 list" where
  "emit_data symbols offset = fold emit_symbol symbols (replicate (unat offset) 0)"

definition initial_parser :: "string \<Rightarrow> parser" where
  "initial_parser source = \<lparr>ps_lexer = Lexer source, ps_section = Section_None, ps_codeAddress = 0,
     ps_dataOffset = 0, ps_labels = Map.empty, ps_dataSymbols = [], ps_code = []\<rparr>"

definition firstPass :: "(parser, unit) vm" where
  "firstPass = parseProgram False"

definition secondPass :: "(parser, u8 list) vm" where
  "secondPass =
    vbind (vgets (\<lambda>s. emit_data (ps_dataSymbols s) (ps_dataOffset s))) (\<lambda>data.
    vseq (vmodify (\<lambda>s. s\<lparr>ps_codeAddress := 0, ps_code := []\<rparr>))
    (vseq (parseProgram True) (vreturn data)))"

definition parse_program :: "string \<Rightarrow> vm_exception + assembled_program" where
  "parse_program source =
    (case vseq firstPass
       (vseq (vmodify (\<lambda>s. s\<lparr>ps_lexer := lexer_reset (ps_lexer s), ps_section := Section_None,
                            ps_codeAddress := 0\<rparr>))
        secondPass) (initial_parser source) of
       (Inl e, _) \<Rightarrow> Inl e
     | (Inr data, s) \<Rightarrow> Inr \<lparr>ap_code = ps_code s, ap_data = data\<rparr>)"

definition assemble :: "string \<Rightarrow> vm_exception + assembled_program" where
  "assemble source = parse_program source"

end
