(* ===== verification/Virtual_OS.thy ===== *)
theory Virtual_OS
  imports Cpu_Core Parser
begin

text \<open>
  Loading programs and the single-threaded interface of the operating system and of the machine
  (\<^verbatim>\<open>src/vm/os/program_loader.cpp\<close>, \<^verbatim>\<open>src/vm/os/virtual_os.cpp\<close>, \<^verbatim>\<open>src/vm/virtual_machine.cpp\<close>). The
  file system is a parameter: a map from paths to the contents of the files that can be opened.
\<close>

section \<open>Program loader\<close>

definition load_layout :: "Address \<Rightarrow> assembled_program \<Rightarrow> region_layout" where
  "load_layout base program =
    (let codeSize = of_nat (length (ap_code program)) * sizeof_Word;
         dataSize = of_nat (length (ap_data program))
     in MemoryRegionLayout
          \<lparr>ml_base := base, ml_codeSize := codeSize, ml_dataSize := dataSize,
           ml_dataOffset := ucast codeSize, ml_stackOffset := ucast (codeSize + dataSize)\<rparr>)"

definition load_image :: "assembled_program \<Rightarrow> (phys_mem, region_layout) vm" where
  "load_image program =
    vbind (allocateRegion (ml_totalSize MemoryRegionLayout)) (\<lambda>base.
    let layout = load_layout base program in
    vseq (ProcessMemory layout (ap_data program))
    (vseq (loadCode layout (ap_code program)) (vreturn layout)))"

section \<open>Operating system\<close>

type_synonym file_system = "string \<Rightarrow> string option"

definition on_phys :: "(phys_mem, 'a) vm \<Rightarrow> (machine, 'a) vm" where
  "on_phys op = (\<lambda>m. case op (vm_phys m) of (r, pm) \<Rightarrow> (r, m\<lparr>vm_phys := pm\<rparr>))"

text \<open>
  The state after the constructor: the quantum is both the scheduler's and the system's, and the
  streams are the ones the process was started with.
\<close>

definition VirtualOS :: "size_t \<Rightarrow> input_stream \<Rightarrow> machine" where
  "VirtualOS quantum input =
    \<lparr>vm_phys = PhysicalMemory kDefaultPhysicalMemorySize, vm_table = ProcessTable,
     vm_sched = PreemptiveScheduler quantum, vm_out = [], vm_in = input, vm_err = [], vm_tracer = None, vm_calls = []\<rparr>"

text \<open>
  \<^verbatim>\<open>stackAddress() + kStackSize - sizeof(Word)\<close>, computed in 64 bits and narrowed to an address.
\<close>

definition initial_sp :: "region_layout \<Rightarrow> Address" where
  "initial_sp layout = ucast (ucast (stackAddress layout) + kStackSize - sizeof_Word)"

definition new_process :: "ProcessId \<Rightarrow> string \<Rightarrow> region_layout \<Rightarrow> size_t \<Rightarrow> pcb" where
  "new_process pid name layout quantum =
    on_context (resetTimeSlice quantum)
      (on_context (\<lambda>c. c\<lparr>cx_registers := setSp (initial_sp layout) (cx_registers c)\<rparr>)
        (ProcessControlBlock pid name layout))"

definition add_process :: "string \<Rightarrow> region_layout \<Rightarrow> (machine, pcb_ref) vm" where
  "add_process name layout =
    (\<lambda>m. let (pid, t1) = nextId (vm_table m);
             (i, t2) = emplace (new_process pid name layout (sch_quantum (vm_sched m))) t1
         in (Inr i, m\<lparr>vm_table := t2\<rparr>))"

definition createProcess :: "string \<Rightarrow> assembled_program \<Rightarrow> (machine, pcb_ref) vm" where
  "createProcess name program = vbind (on_phys (load_image program)) (add_process name)"

definition loadProgramFromSource :: "string \<Rightarrow> string \<Rightarrow> (machine, ProcessId) vm" where
  "loadProgramFromSource source name =
    vbind (lift_result (assemble source)) (\<lambda>program.
    vbind (createProcess name program) (\<lambda>i.
    vseq (vmodify (on_process i (setState Ready)))
    (vseq (vmodify (on_scheduler notifyProcessReady))
    (vgets (\<lambda>m. p_id (processes m ! i))))))"

text \<open>\<^verbatim>\<open>std::filesystem::path(path).filename()\<close>: what follows the last separator.\<close>

definition path_filename :: "string \<Rightarrow> string" where
  "path_filename path = rev (takeWhile (\<lambda>c. c \<noteq> CHR ''/'') (rev path))"

definition loadProgram :: "file_system \<Rightarrow> string \<Rightarrow> (machine, ProcessId) vm" where
  "loadProgram fs path =
    (case fs path of
       None \<Rightarrow> vthrow (VmException (''failed to open program file: '' @ path))
     | Some source \<Rightarrow> loadProgramFromSource source (path_filename path))"

text \<open>The system calls with the callback that the constructor installs.\<close>

definition os_syscalls :: "file_system \<Rightarrow> syscall_handler" where
  "os_syscalls fs = handle_syscall (Some (loadProgram fs))"

definition findProcess :: "ProcessId \<Rightarrow> machine \<Rightarrow> pcb_ref option" where
  "findProcess pid m = find_process pid (vm_table m)"

definition stepProcess :: "file_system \<Rightarrow> ProcessId \<Rightarrow> (machine, execution_result) vm" where
  "stepProcess fs pid =
    vbind (vgets (findProcess pid)) (\<lambda>found.
    case found of
      None \<Rightarrow> vthrow (VmException ''process not found'')
    | Some i \<Rightarrow> vseq (vmodify (on_process i (setState Running))) (runSingleStep (os_syscalls fs) i))"

definition getRegister :: "ProcessId \<Rightarrow> u8 \<Rightarrow> (machine, Word) vm" where
  "getRegister pid reg =
    vread (\<lambda>m. case findProcess pid m of
      None \<Rightarrow> Inl (VmException ''process not found'')
    | Some i \<Rightarrow> reg_get (registers_of i m) reg)"

text \<open>\<^verbatim>\<open>VirtualMachine::step\<close>: the loop with \<open>n\<close> rounds left and the last result.\<close>

fun step_loop :: "file_system \<Rightarrow> ProcessId \<Rightarrow> nat \<Rightarrow> execution_result \<Rightarrow> (machine, execution_result) vm" where
  "step_loop fs pid 0 result = vreturn result"
| "step_loop fs pid (Suc n) result =
     vbind (stepProcess fs pid) (\<lambda>result.
     if result = ER_Halt \<or> result = ER_Error then vreturn result else step_loop fs pid n result)"

definition vm_step :: "file_system \<Rightarrow> ProcessId \<Rightarrow> size_t \<Rightarrow> (machine, execution_result) vm" where
  "vm_step fs pid steps = step_loop fs pid (unat steps) ER_Continue"

text \<open>\<^verbatim>\<open>VirtualOS::setTracer\<close>: the system and every core get the pointer.\<close>

definition os_setTracer :: "tracer option \<Rightarrow> machine \<Rightarrow> machine" where
  "os_setTracer tracer m = m\<lparr>vm_tracer := tracer\<rparr>"

section \<open>Loading leaves the other processes alone\<close>

definition phys_frame :: "phys_mem \<Rightarrow> phys_mem \<Rightarrow> bool" where
  "phys_frame pm pm' \<longleftrightarrow> pm_size pm' = pm_size pm"

interpretation phys_fr: frame_relation phys_frame
  by unfold_locales (simp_all add: phys_frame_def)

lemma phys_frame_validate:
  "respecting phys_frame (validateRange a n)" "respecting phys_frame (validateDataOffset l off n)"
  by (simp_all add: validateRange_def validateDataOffset_def Let_def phys_fr.respects_read
      phys_fr.respects_return phys_fr.respects_throw)

lemma phys_frame_writes:
  "respecting phys_frame (writeWord a v)" "respecting phys_frame (writeBytes a bs n)"
  unfolding writeWord_def writeBytes_def
  by (auto intro!: phys_fr.respects_intros phys_frame_validate respects_modify simp: phys_frame_def)

lemma phys_frame_loadCode_from: "respecting phys_frame (loadCode_from l i ws)"
  by (induction ws arbitrary: i)
    (auto simp: writeCodeWord_def intro!: phys_fr.respects_intros phys_frame_writes)

lemma phys_frame_allocate: "respecting phys_frame (allocateRegion n)"
  unfolding allocateRegion_def
  by (auto intro!: phys_fr.respects_intros phys_fr.respects_read respects_modify simp: phys_frame_def)

lemma phys_frame_load: "respecting phys_frame (load_image program)"
  unfolding load_image_def ProcessMemory_def loadCode_def Let_def
  by (auto intro!: phys_fr.respects_intros phys_frame_writes phys_frame_validate phys_frame_loadCode_from
      phys_frame_allocate)

text \<open>Loading appends at most one process and changes no other.\<close>

lemma processes_on_scheduler:
  "processes (on_scheduler notifyProcessReady m) = processes m"
  "vm_phys (on_scheduler notifyProcessReady m) = vm_phys m"
  by (simp_all add: on_scheduler_def notifyProcessReady_def sched_view_def processes_def)

lemma createProcess_processes:
  assumes "createProcess name program m = (r, m')"
  shows "case r of Inl e \<Rightarrow> processes m' = processes m
    | Inr i \<Rightarrow> i = length (processes m) \<and> (\<exists>p. processes m' = processes m @ [p])"
    and "pm_size (vm_phys m') = pm_size (vm_phys m)"
proof -
  obtain q pm where l: "load_image program (vm_phys m) = (q, pm)" by (metis prod.exhaust)
  have "pm_size pm = pm_size (vm_phys m)"
    using phys_frame_load l by (metis phys_frame_def respectsD)
  with assms l show "case r of Inl e \<Rightarrow> processes m' = processes m
    | Inr i \<Rightarrow> i = length (processes m) \<and> (\<exists>p. processes m' = processes m @ [p])"
    and "pm_size (vm_phys m') = pm_size (vm_phys m)"
    by (auto simp: createProcess_def on_phys_def add_process_def nextId_def emplace_def Let_def vbind_def
        processes_def split: sum.splits)
qed

lemma loadProgramFromSource_frame: "respecting (machine_frame i) (loadProgramFromSource source name)"
proof (rule respectsI)
  fix m
  show "machine_frame i m (snd (loadProgramFromSource source name m))"
  proof (cases "assemble source")
    case (Inl e)
    then show ?thesis
      by (simp add: loadProgramFromSource_def lift_result_def vm_run machine_fr.frame_refl)
  next
    case (Inr program)
    obtain r m1 where c: "createProcess name program m = (r, m1)" by (metis prod.exhaust)
    note c1 = createProcess_processes [OF c]
    from c Inr c1 show ?thesis
      by (cases r) (auto simp: loadProgramFromSource_def lift_result_def vm_run machine_frame_def
          processes_on_scheduler frame_simps update_process_def nth_append)
  qed
qed

lemma loadProgram_framed: "callback_framed (Some (loadProgram fs))"
  unfolding callback_framed_def loadProgram_def
  by (auto intro!: machine_fr.respects_throw loadProgramFromSource_frame split: option.split)

interpretation os: syscall_interface "os_syscalls fs" for fs
  unfolding os_syscalls_def by (rule handle_syscall_interface [OF loadProgram_framed])

section \<open>The image of a loaded program\<close>

lemma load_layout_fields:
  assumes "4 * length (ap_code p) + length (ap_data p) < 2 ^ 32"
  shows "ml_base (load_layout base p) = base" "ml_codeOffset (load_layout base p) = 0"
    "unat (ml_codeSize (load_layout base p)) = 4 * length (ap_code p)"
    "unat (ml_dataSize (load_layout base p)) = length (ap_data p)"
    "unat (ml_dataOffset (load_layout base p)) = 4 * length (ap_code p)"
    "unat (ml_stackOffset (load_layout base p)) = 4 * length (ap_code p) + length (ap_data p)"
    "ml_stackSize (load_layout base p) = 4096" "ml_totalSize (load_layout base p) = 65536"
proof -
  have c: "unat (of_nat (length (ap_code p)) * sizeof_Word :: u64) = 4 * length (ap_code p)"
    using assms by (simp add: unat_word_ariths unsigned_of_nat take_bit_nat_eq_self)
  have d: "unat (of_nat (length (ap_data p)) :: u64) = length (ap_data p)"
    using assms by (simp add: unsigned_of_nat take_bit_nat_eq_self)
  have cd: "unat (of_nat (length (ap_code p)) * sizeof_Word + of_nat (length (ap_data p)) :: u64)
      = 4 * length (ap_code p) + length (ap_data p)"
    using assms c d by (subst unat_add_u64) simp_all
  have c32: "unat (ucast (of_nat (length (ap_code p)) * sizeof_Word :: u64) :: Address) = 4 * length (ap_code p)"
    using assms c by (subst unat_ucast_u64_u32) simp_all
  have cd32: "unat (ucast (of_nat (length (ap_code p)) * sizeof_Word + of_nat (length (ap_data p)) :: u64) :: Address)
      = 4 * length (ap_code p) + length (ap_data p)"
    using assms cd by (subst unat_ucast_u64_u32) simp_all
  show "ml_base (load_layout base p) = base" "ml_codeOffset (load_layout base p) = 0"
    "unat (ml_codeSize (load_layout base p)) = 4 * length (ap_code p)"
    "unat (ml_dataSize (load_layout base p)) = length (ap_data p)"
    "unat (ml_dataOffset (load_layout base p)) = 4 * length (ap_code p)"
    "unat (ml_stackOffset (load_layout base p)) = 4 * length (ap_code p) + length (ap_data p)"
    "ml_stackSize (load_layout base p) = 4096" "ml_totalSize (load_layout base p) = 65536"
    using c d c32 cd32
    by (simp_all add: load_layout_def MemoryRegionLayout_def Let_def del: word_of_nat_eq_0_iff)
qed

text \<open>
  The loader checks the whole region against the physical memory but not the program against the
  region; what it needs to succeed is that the segments lie inside the physical memory. The total
  size of a layout is used by no operation, so the facts about well-formed layouts apply with a total
  size that is large enough.
\<close>

definition image_fits_memory :: "assembled_program \<Rightarrow> phys_mem \<Rightarrow> bool" where
  "image_fits_memory p pm \<longleftrightarrow>
    unat (nextFreeAddress pm) + 65536 \<le> unat (pm_size pm) \<and>
    unat (nextFreeAddress pm) + (4 * length (ap_code p) + length (ap_data p) + 4096) \<le> unat (pm_size pm) \<and>
    unat (pm_size pm) < 2 ^ 32"

definition program_fits :: "assembled_program \<Rightarrow> bool" where
  "program_fits p \<longleftrightarrow> 4 * length (ap_code p) + length (ap_data p) + 4096 \<le> 65536"

definition stretched :: "region_layout \<Rightarrow> region_layout" where
  "stretched l = l\<lparr>ml_totalSize := ucast (ml_stackOffset l) + ml_stackSize l\<rparr>"

lemma stretched_same:
  "readCodeWord (stretched l) = readCodeWord l" "loadCode (stretched l) = loadCode l"
  "readDataByte (stretched l) = readDataByte l" "ProcessMemory (stretched l) = ProcessMemory l"
  "code_start (stretched l) = code_start l" "data_start (stretched l) = data_start l"
proof -
  have w: "codeWordAddress (stretched l) = codeWordAddress l"
    by (simp add: fun_eq_iff codeWordAddress_def codeAddress_def stretched_def)
  then have "loadCode_from (stretched l) i ws = loadCode_from l i ws" for i ws
    by (induction ws arbitrary: i) (simp_all add: writeCodeWord_def)
  with w show "readCodeWord (stretched l) = readCodeWord l" "loadCode (stretched l) = loadCode l"
    "readDataByte (stretched l) = readDataByte l" "ProcessMemory (stretched l) = ProcessMemory l"
    "code_start (stretched l) = code_start l" "data_start (stretched l) = data_start l"
    by (simp_all add: fun_eq_iff readCodeWord_def loadCode_def readDataByte_def ProcessMemory_def
        validateDataOffset_def dataAddress_def stretched_def code_start_def data_start_def)
qed

lemma stretched_ok:
  assumes "image_fits_memory p pm"
  shows "layout_ok (pm_size pm) (stretched (load_layout (nextFreeAddress pm) p))"
proof -
  have small: "4 * length (ap_code p) + length (ap_data p) < 2 ^ 32"
    using assms by (simp add: image_fits_memory_def)
  note f = load_layout_fields [OF small, of "nextFreeAddress pm"]
  have "unat (ucast (ml_stackOffset (load_layout (nextFreeAddress pm) p)) + 4096 :: u64) =
      4 * length (ap_code p) + length (ap_data p) + 4096"
    using f(6) by (subst unat_address_plus) simp_all
  with f assms show ?thesis
    by (simp add: layout_ok_def stretched_def image_fits_memory_def)
qed

lemma load_layout_ok:
  assumes "image_fits_memory p pm" and "program_fits p"
  shows "layout_ok (pm_size pm) (load_layout (nextFreeAddress pm) p)"
proof -
  have small: "4 * length (ap_code p) + length (ap_data p) < 2 ^ 32"
    using assms by (simp add: program_fits_def)
  show ?thesis
    using load_layout_fields [OF small, of "nextFreeAddress pm"] assms
    by (simp add: layout_ok_def image_fits_memory_def program_fits_def)
qed

lemma ProcessMemory_ok:
  assumes "layout_ok (pm_size pm) l" and "length data \<le> unat (ml_dataSize l)"
  shows "ProcessMemory l data pm =
    (Inr (), pm\<lparr>pm_memory := store_bytes (pm_memory pm) (data_start l) data\<rparr>)"
proof (cases "data = []")
  case True
  then show ?thesis by (simp add: ProcessMemory_def vreturn_def)
next
  case False
  have n: "unat (of_nat (length data) :: size_t) = length data"
    using assms layout_bounds [OF assms(1)]
    by (simp add: unsigned_of_nat take_bit_nat_eq_self stack_end_def)
  have "in_range pm (dataAddress l) (length data)"
    using data_word_address(2) [OF assms(1), of 0 "length data"] assms(2) by simp
  then show ?thesis
    using False n assms layout_addresses [OF assms(1)] layout_bounds [OF assms(1)]
    by (simp add: ProcessMemory_def validateDataOffset_eq vm_run phys_writes stack_end_def)
qed

lemma load_image_ok:
  assumes "image_fits_memory p pm"
  defines "l \<equiv> load_layout (nextFreeAddress pm) p"
  shows "\<exists>pm'. load_image p pm = (Inr l, pm') \<and>
    (\<forall>i < length (ap_code p). readCodeWord l (of_nat i) pm' = (Inr (ap_code p ! i), pm')) \<and>
    (\<forall>i < length (ap_data p). readDataByte l (of_nat i) pm' = (Inr (ap_data p ! i), pm')) \<and>
    (\<forall>j. j < unat (nextFreeAddress pm) \<or>
        unat (nextFreeAddress pm) + (4 * length (ap_code p) + length (ap_data p)) \<le> j \<longrightarrow>
      pm_memory pm' j = pm_memory pm j) \<and>
    pm_size pm' = pm_size pm \<and> nextFreeAddress pm' = nextFreeAddress pm + 65536"
proof -
  let ?s = "stretched l"
  have small: "4 * length (ap_code p) + length (ap_data p) < 2 ^ 32"
    using assms by (simp add: image_fits_memory_def)
  note f = load_layout_fields [OF small, of "nextFreeAddress pm", folded l_def]
  have ok: "layout_ok (pm_size pm) ?s" using stretched_ok [OF assms(1)] by (simp add: l_def)
  have starts: "code_start l = unat (nextFreeAddress pm)"
    "data_start l = unat (nextFreeAddress pm) + 4 * length (ap_code p)"
    using f by (simp_all add: code_start_def data_start_def)
  define pm1 where "pm1 = pm\<lparr>nextFreeAddress := nextFreeAddress pm + 65536\<rparr>"
  have alloc: "allocateRegion 65536 pm = (Inr (nextFreeAddress pm), pm1)"
    using assms(1) by (simp add: allocateRegion_eq image_fits_memory_def pm1_def)
  define pm2 where "pm2 = pm1\<lparr>pm_memory := store_bytes (pm_memory pm1) (data_start l) (ap_data p)\<rparr>"
  have ok1: "layout_ok (pm_size pm1) ?s" using ok by (simp add: pm1_def)
  have d: "unat (ml_dataSize ?s) = length (ap_data p)" "unat (ml_codeSize ?s) = 4 * length (ap_code p)"
    using f by (simp_all add: stretched_def)
  have init: "ProcessMemory l (ap_data p) pm1 = (Inr (), pm2)"
    using ProcessMemory_ok [OF ok1, of "ap_data p"] d by (simp add: stretched_same pm2_def)
  have ok2: "layout_ok (pm_size pm2) ?s" using ok1 by (simp add: pm2_def)
  obtain pm' where pm': "loadCode l (ap_code p) pm2 = (Inr (), pm')"
    and code: "\<forall>i < length (ap_code p). readCodeWord l (of_nat i) pm' = (Inr (ap_code p ! i), pm')"
    and rest: "\<And>j. j < code_start l \<or> code_start l + 4 * length (ap_code p) \<le> j \<Longrightarrow> pm_memory pm' j = pm_memory pm2 j"
    and sz: "pm_size pm' = pm_size pm2" "nextFreeAddress pm' = nextFreeAddress pm2"
    using loadCode_ok [OF ok2, of "ap_code p"] d by (auto simp: stretched_same)
  have "readDataByte l (of_nat i) pm' = (Inr (ap_data p ! i), pm')" if "i < length (ap_data p)" for i
  proof -
    have "unat (of_nat i :: Address) = i"
      using that small by (simp add: unsigned_of_nat take_bit_nat_eq_self)
    moreover have "layout_ok (pm_size pm') ?s" using ok2 sz by simp
    ultimately have "readDataByte l (of_nat i) pm' = (Inr (pm_memory pm' (data_start l + i)), pm')"
      using data_byte_access(1) [of pm' ?s "of_nat i"] that d by (simp add: stretched_same)
    also have "pm_memory pm' (data_start l + i) = ap_data p ! i"
      using that rest [of "data_start l + i"] starts by (simp add: pm2_def store_bytes_nth)
    finally show ?thesis .
  qed
  moreover have "pm_memory pm' j = pm_memory pm j"
    if "j < unat (nextFreeAddress pm) \<or>
      unat (nextFreeAddress pm) + (4 * length (ap_code p) + length (ap_data p)) \<le> j" for j
    using that rest [of j] starts by (auto simp: pm2_def pm1_def store_bytes_other)
  moreover have "load_image p pm = (Inr l, pm')"
    using alloc init pm' by (simp add: load_image_def vm_run MemoryRegionLayout_def l_def Let_def)
  ultimately show ?thesis using code sz by (auto simp: pm2_def pm1_def)
qed

section \<open>A new process\<close>

lemma initial_sp_eq:
  assumes "layout_ok psize l" and "ml_stackSize l = kStackSize"
  shows "unat (initial_sp l) = stack_end l - 4"
proof -
  have b: "stack_start l + 4096 = stack_end l" "stack_end l < 4294967296"
    using layout_bounds [OF assms(1)] assms(2) by (simp_all add: stack_end_def)
  have s: "unat (ucast (stackAddress l) + kStackSize :: u64) = stack_end l"
    using layout_addresses(3) [OF assms(1)] b by (subst unat_address_plus) simp_all
  have "unat (ucast (stackAddress l) + kStackSize - sizeof_Word :: u64) = stack_end l - 4"
    using s b by (subst unat_sub_le) (simp_all add: word_le_nat_alt)
  then show ?thesis using b by (simp add: initial_sp_def unat_ucast_u64_u32)
qed

text \<open>The state in which \<^verbatim>\<open>loadProgramFromSource\<close> leaves table and queue.\<close>

lemma loadProgramFromSource_ok:
  assumes "loadProgramFromSource source name m = (Inr pid, m')"
  shows "\<exists>program l pm. assemble source = Inr program \<and> load_image program (vm_phys m) = (Inr l, pm) \<and>
    pid = nextProcessId (vm_table m) \<and> vm_phys m' = pm \<and>
    processes m' = processes m @ [new_process pid name l (sch_quantum (vm_sched m))] \<and>
    nextProcessId (vm_table m') = nextProcessId (vm_table m) + 1 \<and>
    vm_sched m' = (vm_sched m)\<lparr>readyQueue := enqueue_ready (processes m') (readyQueue (vm_sched m))\<rparr> \<and>
    vm_out m' = vm_out m \<and> vm_in m' = vm_in m"
proof -
  obtain program where a: "assemble source = Inr program"
    using assms by (cases "assemble source") (auto simp: loadProgramFromSource_def lift_result_def vm_run)
  obtain q pm where l: "load_image program (vm_phys m) = (q, pm)" by (metis prod.exhaust)
  have setReady: "setState Ready (new_process i name k n) = new_process i name k n" for i k n
    by (simp add: new_process_def ProcessControlBlock_def pcb_defs)
  show ?thesis
    using assms a l
    by (cases q) (auto simp: loadProgramFromSource_def lift_result_def vm_run createProcess_def on_phys_def
        add_process_def nextId_def emplace_def Let_def on_process_def update_process_def setReady
        on_scheduler_def notifyProcessReady_def sched_view_def processes_def new_process_def
        ProcessControlBlock_def pcb_defs)
qed

lemma loadProgramFromSource_runs:
  assumes "assemble source = Inr program" and "load_image program (vm_phys m) = (Inr l, pm)"
  shows "\<exists>m'. loadProgramFromSource source name m = (Inr (nextProcessId (vm_table m)), m')"
proof -
  have "p_id (setState Ready (new_process i name k n)) = i" for i k n
    by (simp add: new_process_def ProcessControlBlock_def pcb_defs)
  with assms show ?thesis
    by (simp add: loadProgramFromSource_def lift_result_def vm_run createProcess_def on_phys_def
        add_process_def nextId_def emplace_def Let_def on_process_def update_process_def
        on_scheduler_def notifyProcessReady_def sched_view_def processes_def)
qed

lemma new_process_fields [frame_simps]:
  "p_id (new_process pid name l q) = pid" "p_name (new_process pid name l q) = name"
  "p_state (new_process pid name l q) = Ready"
  "p_memory (new_process pid name l q) = l" "p_lastError (new_process pid name l q) = None"
  "cx_timeSliceLeft (p_context (new_process pid name l q)) = q"
  "cx_halted (p_context (new_process pid name l q)) = False"
  "cx_shouldYield (p_context (new_process pid name l q)) = False"
  "rf_pc (cx_registers (p_context (new_process pid name l q))) = 0"
  "rf_sp (cx_registers (p_context (new_process pid name l q))) = initial_sp l"
  "regs_ok (cx_registers (p_context (new_process pid name l q)))"
  "rf_gpr (cx_registers (p_context (new_process pid name l q))) = replicate kRegisterCount 0"
  "rf_flags (cx_registers (p_context (new_process pid name l q))) =
     \<lparr>fl_zero = False, fl_sign = False, fl_carry = False, fl_overflow = False\<rparr>"
  by (simp_all add: new_process_def ProcessControlBlock_def CpuContext_def pcb_defs resetTimeSlice_def
      setSp_def) (simp_all add: RegisterFile_def regs_ok_def clear_flags_def)

lemma new_process_stack:
  assumes "layout_ok (pm_size pm) l" and "ml_stackSize l = kStackSize"
  shows "stack_inv l (pm, rf_sp (cx_registers (p_context (new_process pid name l q)))) \<and>
    stack_contents l (pm, rf_sp (cx_registers (p_context (new_process pid name l q)))) =
      [load_word (pm_memory pm) (stack_end l - 4)]"
proof -
  have b: "stack_start l + 4096 = stack_end l" "stack_end l < 4294967296"
    using layout_bounds [OF assms(1)] assms(2) by (simp_all add: stack_end_def)
  with initial_sp_eq [OF assms] assms(1) show ?thesis
    by (simp add: frame_simps stack_inv_def stack_contents_def)
qed

lemma table_ok_snoc:
  assumes "table_ok t" and "Suc (length (pt_processes t)) < 2 ^ 32 - 1"
    and "pt_processes t' = pt_processes t @ [p]" and "p_id p = nextProcessId t"
    and "nextProcessId t' = nextProcessId t + 1"
  shows "table_ok t'"
proof -
  have "unat (nextProcessId t + 1) = Suc (unat (nextProcessId t))"
    using assms(1,2) by (subst unat_add_u32) (simp_all add: table_ok_def)
  with assms show ?thesis by (simp add: table_ok_def)
qed

lemma fresh_id:
  assumes "table_ok t"
  shows "nextProcessId t \<notin> p_id ` set (pt_processes t)"
proof
  assume "nextProcessId t \<in> p_id ` set (pt_processes t)"
  then obtain i where "i < length (pt_processes t)" "p_id (pt_processes t ! i) = nextProcessId t"
    by (auto simp: in_set_conv_nth)
  with table_ok_nth [OF assms] assms show False by (fastforce simp: table_ok_def)
qed

text \<open>What a successful load does to table, queue and processes.\<close>

lemma load_registers:
  assumes "loadProgramFromSource source name m = (Inr pid, m')"
    and "table_ok (vm_table m)" and "sched_ok (sched_view m)"
    and "Suc (length (processes m)) < 2 ^ 32 - 1"
  shows "findProcess pid m' = Some (length (processes m)) \<and>
    p_state (processes m' ! length (processes m)) = Ready \<and> pid \<in> set (readyQueue (vm_sched m')) \<and>
    (\<forall>k < length (processes m). processes m' ! k = processes m ! k) \<and>
    table_ok (vm_table m') \<and> sched_inv (sched_view m')"
proof -
  from loadProgramFromSource_ok [OF assms(1)] obtain l where
    pid: "pid = nextProcessId (vm_table m)"
    and ps: "processes m' = processes m @ [new_process pid name l (sch_quantum (vm_sched m))]"
    and nx: "nextProcessId (vm_table m') = nextProcessId (vm_table m) + 1"
    and sch: "vm_sched m' = (vm_sched m)\<lparr>readyQueue := enqueue_ready (processes m') (readyQueue (vm_sched m))\<rparr>"
    by blast
  let ?p = "new_process pid name l (sch_quantum (vm_sched m))"
  have t: "table_ok (vm_table m')"
    by (rule table_ok_snoc [of "vm_table m" _ ?p]) (use assms(2,4) ps nx pid in \<open>simp_all add: processes_def frame_simps\<close>)
  have "ready_ids (processes m) \<subseteq> ready_ids (processes m')" by (auto simp: ready_ids_def ps)
  then have "sched_ok (vm_sched m, processes m')"
    using assms(3) table_ok_distinct [OF t] by (auto simp: sched_ok_def sched_view_def processes_def)
  then have inv: "sched_inv (sched_view m')"
    using sched_inv_notify [of "(vm_sched m, processes m')"] sch
    by (simp add: notifyProcessReady_def sched_view_def)
  have "find_process (p_id (processes m' ! length (processes m))) (vm_table m') = Some (length (processes m))"
    using find_process_id [OF t, of "length (processes m)"] ps by (simp add: processes_def)
  moreover have "p_id (processes m' ! length (processes m)) = pid" by (simp add: ps frame_simps)
  moreover have "p_state (processes m' ! length (processes m)) = Ready" by (simp add: ps frame_simps)
  moreover have "pid \<in> set (readyQueue (vm_sched m'))"
    using sched_inv_queue [of "vm_sched m'" "processes m'"] inv ps
    by (simp add: sched_view_def ready_ids_def frame_simps) (metis new_process_fields(1,3))
  ultimately show ?thesis
    using t inv ps by (simp add: findProcess_def nth_append)
qed

section \<open>Properties of loading\<close>

text \<open>C13: A program that fits its region is loaded faithfully: the region is the next free one, every
  instruction word can be fetched and every data byte read, the layout is well formed, and no byte
  outside the region changes.\<close>

theorem program_is_loaded_faithfully:
  assumes "image_fits_memory p pm" and "program_fits p"
  shows "\<exists>l pm'. load_image p pm = (Inr l, pm') \<and> ml_base l = nextFreeAddress pm \<and>
    layout_ok (pm_size pm') l \<and>
    (\<forall>i < length (ap_code p). readCodeWord l (of_nat i) pm' = (Inr (ap_code p ! i), pm')) \<and>
    (\<forall>i < length (ap_data p). readDataByte l (of_nat i) pm' = (Inr (ap_data p ! i), pm')) \<and>
    (\<forall>j. \<not> in_region l j \<longrightarrow> pm_memory pm' j = pm_memory pm j)"
proof -
  let ?l = "load_layout (nextFreeAddress pm) p"
  have small: "4 * length (ap_code p) + length (ap_data p) < 2 ^ 32"
    using assms(2) by (simp add: program_fits_def)
  note f = load_layout_fields [OF small, of "nextFreeAddress pm"]
  have region: "\<not> in_region ?l j \<Longrightarrow> j < unat (nextFreeAddress pm) \<or>
      unat (nextFreeAddress pm) + (4 * length (ap_code p) + length (ap_data p)) \<le> j" for j
    using f(1,8) assms(2) by (auto simp: in_region_def program_fits_def)
  from load_image_ok [OF assms(1)] load_layout_ok [OF assms] f(1) region show ?thesis by fastforce
qed

text \<open>C37: The loader never compares a program with the size of its region: an oversized one is loaded all
  the same, and its stack reaches into the region that the next process will be given.\<close>

theorem oversized_program_overlaps_next_region:
  assumes "image_fits_memory p pm" and "\<not> program_fits p"
  shows "\<exists>l pm'. load_image p pm = (Inr l, pm') \<and> unat (nextFreeAddress pm') < stack_end l"
proof -
  have small: "4 * length (ap_code p) + length (ap_data p) < 2 ^ 32"
    using assms(1) by (simp add: image_fits_memory_def)
  note f = load_layout_fields [OF small, of "nextFreeAddress pm"]
  have "unat (nextFreeAddress pm + 65536) = unat (nextFreeAddress pm) + 65536"
    using assms(1) by (subst unat_add_u32) (simp_all add: image_fits_memory_def)
  with f assms(2) have "unat (nextFreeAddress pm + 65536) < stack_end (load_layout (nextFreeAddress pm) p)"
    by (simp add: program_fits_def stack_end_def stack_start_def)
  with load_image_ok [OF assms(1)] show ?thesis by fastforce
qed

text \<open>The stack pointer of a new process is one word below the top of the stack segment, so its stack
  is not empty: the first \<^verbatim>\<open>POP\<close> or \<^verbatim>\<open>RET\<close> reads a word that was never pushed instead of reporting
  an underflow, while the next one reports it.\<close>

lemma new_process_stack_holds_a_word:
  assumes "layout_ok (pm_size pm) l" and "ml_stackSize l = kStackSize"
  shows "stack_inv l (pm, rf_sp (cx_registers (p_context (new_process pid name l q)))) \<and>
    stack_contents l (pm, rf_sp (cx_registers (p_context (new_process pid name l q)))) =
      [load_word (pm_memory pm) (stack_end l - 4)]"
  using assms by (rule new_process_stack)

text \<open>C19: Loading a program registers one new process, ready, with a fresh identifier under which it is
  found, and queued for the scheduler; the processes that were there are unchanged and the
  invariants of table and queue hold again.\<close>

theorem loading_registers_process:
  assumes "loadProgramFromSource source name m = (Inr pid, m')"
    and "table_ok (vm_table m)" and "sched_ok (sched_view m)"
    and "Suc (length (processes m)) < 2 ^ 32 - 1"
  shows "findProcess pid m' = Some (length (processes m)) \<and>
    p_state (processes m' ! length (processes m)) = Ready \<and> pid \<in> set (readyQueue (vm_sched m')) \<and>
    (\<forall>k < length (processes m). processes m' ! k = processes m ! k) \<and>
    table_ok (vm_table m') \<and> sched_inv (sched_view m')"
  using assms by (rule load_registers)

section \<open>Witnesses\<close>

text \<open>A source text given line by line.\<close>

definition source_lines :: "string list \<Rightarrow> string" where
  "source_lines ls = concat (map (\<lambda>l. l @ [newline]) ls)"

definition sample_program :: assembled_program where
  "sample_program = \<lparr>ap_code = [encodeInstruction OP_LOAD 1 0 0 0, encodeInstruction OP_HALT 0 0 0 0],
     ap_data = [7, 0, 0, 0]\<rparr>"

lemma sample_program_fits: "image_fits_memory sample_program (PhysicalMemory 1048576)" "program_fits sample_program"
  by (simp_all add: image_fits_memory_def program_fits_def sample_program_def PhysicalMemory_def)

theorem program_is_loaded_faithfully_witness:
  "\<exists>l pm'. load_image sample_program (PhysicalMemory 1048576) = (Inr l, pm') \<and>
     readDataByte l 0 pm' = (Inr 7, pm') \<and>
     readCodeWord l 1 pm' = (Inr (encodeInstruction OP_HALT 0 0 0 0), pm')"
proof -
  obtain l pm' where l: "load_image sample_program (PhysicalMemory 1048576) = (Inr l, pm')"
    "\<forall>i < length (ap_code sample_program). readCodeWord l (of_nat i) pm' = (Inr (ap_code sample_program ! i), pm')"
    "\<forall>i < length (ap_data sample_program). readDataByte l (of_nat i) pm' = (Inr (ap_data sample_program ! i), pm')"
    using program_is_loaded_faithfully [OF sample_program_fits] by blast
  have "readCodeWord l 1 pm' = (Inr (encodeInstruction OP_HALT 0 0 0 0), pm')"
    using l(2) [rule_format, of 1] by (simp add: sample_program_def)
  moreover have "readDataByte l 0 pm' = (Inr 7, pm')"
    using l(3) [rule_format, of 0] by (simp add: sample_program_def)
  ultimately show ?thesis using l(1) by blast
qed

theorem oversized_program_overlaps_next_region_witness:
  "\<exists>l pm'. load_image \<lparr>ap_code = replicate 15361 0, ap_data = []\<rparr> (PhysicalMemory 1048576) = (Inr l, pm') \<and>
     unat (nextFreeAddress pm') < stack_end l"
  by (rule oversized_program_overlaps_next_region)
    (simp_all add: image_fits_memory_def program_fits_def PhysicalMemory_def)

lemma new_process_stack_holds_a_word_witness:
  "length (stack_contents (load_layout 0 sample_program) (PhysicalMemory 1048576,
     rf_sp (cx_registers (p_context (new_process 1 ''p'' (load_layout 0 sample_program) 100))))) = 1"
proof -
  have "layout_ok (pm_size (PhysicalMemory 1048576)) (load_layout 0 sample_program)"
    using load_layout_ok [OF sample_program_fits] by (simp add: PhysicalMemory_def)
  moreover have "ml_stackSize (load_layout 0 sample_program) = kStackSize"
    using load_layout_fields(7) [of sample_program 0] by (simp add: sample_program_def)
  ultimately show ?thesis
    using new_process_stack_holds_a_word by simp
qed

lemma sample_source: "assemble (source_lines [''CODE:'', ''halt'']) =
    Inr \<lparr>ap_code = [encodeInstruction OP_HALT 0 0 0 0], ap_data = []\<rparr>"
  by code_simp

theorem loading_registers_process_witness:
  "\<exists>m'. loadProgramFromSource (source_lines [''CODE:'', ''halt'']) ''p'' (VirtualOS 100 \<lparr>is_rest = [], is_fail = False\<rparr>)
      = (Inr 1, m') \<and> findProcess 1 m' = Some 0 \<and> 1 \<in> set (readyQueue (vm_sched m'))"
proof -
  let ?m = "VirtualOS 100 \<lparr>is_rest = [], is_fail = False\<rparr>"
  let ?p = "\<lparr>ap_code = [encodeInstruction OP_HALT 0 0 0 0], ap_data = []\<rparr> :: assembled_program"
  have m: "table_ok (vm_table ?m)" "sched_ok (sched_view ?m)" "processes ?m = []"
    "vm_phys ?m = PhysicalMemory 1048576" "nextProcessId (vm_table ?m) = 1"
    by (simp_all add: VirtualOS_def table_ok_def sched_ok_def sched_view_def processes_def
        ProcessTable_def PreemptiveScheduler_def)
  have "image_fits_memory ?p (PhysicalMemory 1048576)"
    by (simp add: image_fits_memory_def PhysicalMemory_def)
  from load_image_ok [OF this] obtain pm' where
    "load_image ?p (vm_phys ?m) = (Inr (load_layout 0 ?p), pm')"
    by (auto simp: m PhysicalMemory_def)
  from loadProgramFromSource_runs [OF sample_source this] obtain m' where
    "loadProgramFromSource (source_lines [''CODE:'', ''halt'']) ''p'' ?m = (Inr 1, m')"
    using m(5) by auto
  with loading_registers_process [OF this m(1,2)] m(3) show ?thesis by simp
qed

end
