(* ===== verification/System.thy ===== *)
theory System
  imports Virtual_OS
begin

text \<open>
  The running system: the loop of every core (\<^verbatim>\<open>coreLoop\<close> of \<^verbatim>\<open>src/vm/cpu/virtual_cpu_core.cpp\<close>)
  and the main thread in \<^verbatim>\<open>run\<close> and \<^verbatim>\<open>stop\<close> of \<^verbatim>\<open>src/vm/os/virtual_os.cpp\<close>, as a step relation
  on the machine, the control states of the cores and that of the main thread. A step is a part of
  the code that other threads cannot see in the middle: what the scheduler does under its mutex, or
  what a core does to the process it holds. The condition variable of the scheduler is modelled with
  its mutex: a core whose predicate was false holds the mutex until it sleeps, and a notification
  wakes the cores that sleep.
\<close>

section \<open>Invariant of the machine\<close>

definition machine_ok :: "machine \<Rightarrow> bool" where
  "machine_ok m \<longleftrightarrow> table_ok (vm_table m) \<and> sched_inv (sched_view m) \<and>
    length (processes m) * 65536 \<le> unat (nextFreeAddress (vm_phys m)) \<and>
    unat (nextFreeAddress (vm_phys m)) \<le> unat (pm_size (vm_phys m)) \<and>
    unat (pm_size (vm_phys m)) < 2 ^ 32"

text \<open>
  What running process \<open>i\<close> does to a machine in that state: the invariant stays, the process runs on
  or is halted, the others do not change, and processes that are added are ready.
\<close>

definition runs :: "pcb_ref \<Rightarrow> machine \<Rightarrow> machine \<Rightarrow> bool" where
  "runs i m m' \<longleftrightarrow>
    machine_ok m \<and> i < length (processes m) \<and> p_state (processes m ! i) \<noteq> Ready \<longrightarrow>
    machine_ok m' \<and> length (processes m) \<le> length (processes m') \<and>
    (\<forall>k < length (processes m). k \<noteq> i \<longrightarrow> processes m' ! k = processes m ! k) \<and>
    (p_state (processes m' ! i) = p_state (processes m ! i) \<or> p_state (processes m' ! i) = Halted) \<and>
    (\<forall>k. length (processes m) \<le> k \<and> k < length (processes m') \<longrightarrow> p_state (processes m' ! k) = Ready) \<and>
    sch_running (vm_sched m') = sch_running (vm_sched m)"

interpretation runs_fr: frame_relation "runs i" for i
proof unfold_locales
  fix s s' s'' :: machine
  show "runs i s s" by (auto simp: runs_def)
  assume 1: "runs i s s'" and 2: "runs i s' s''"
  show "runs i s s''"
    unfolding runs_def
  proof (intro impI, elim conjE)
    assume "machine_ok s" and i: "i < length (processes s)" and st: "p_state (processes s ! i) \<noteq> Ready"
    with 1 have a: "machine_ok s'" "length (processes s) \<le> length (processes s')"
      "\<And>k. k < length (processes s) \<Longrightarrow> k \<noteq> i \<Longrightarrow> processes s' ! k = processes s ! k"
      "p_state (processes s' ! i) = p_state (processes s ! i) \<or> p_state (processes s' ! i) = Halted"
      "\<And>k. length (processes s) \<le> k \<Longrightarrow> k < length (processes s') \<Longrightarrow> p_state (processes s' ! k) = Ready"
      "sch_running (vm_sched s') = sch_running (vm_sched s)"
      by (auto simp: runs_def)
    moreover from a(4) st have "p_state (processes s' ! i) \<noteq> Ready" by auto
    ultimately have b: "machine_ok s''" "length (processes s') \<le> length (processes s'')"
      "\<And>k. k < length (processes s') \<Longrightarrow> k \<noteq> i \<Longrightarrow> processes s'' ! k = processes s' ! k"
      "p_state (processes s'' ! i) = p_state (processes s' ! i) \<or> p_state (processes s'' ! i) = Halted"
      "\<And>k. length (processes s') \<le> k \<Longrightarrow> k < length (processes s'') \<Longrightarrow> p_state (processes s'' ! k) = Ready"
      "sch_running (vm_sched s'') = sch_running (vm_sched s')"
      using 2 i by (auto simp: runs_def)
    have "p_state (processes s'' ! k) = Ready" if "length (processes s) \<le> k" "k < length (processes s'')" for k
      using that a(5) b(3,5) i by (cases "k < length (processes s')") auto
    with a b show "machine_ok s'' \<and> length (processes s) \<le> length (processes s'') \<and>
      (\<forall>k < length (processes s). k \<noteq> i \<longrightarrow> processes s'' ! k = processes s ! k) \<and>
      (p_state (processes s'' ! i) = p_state (processes s ! i) \<or> p_state (processes s'' ! i) = Halted) \<and>
      (\<forall>k. length (processes s) \<le> k \<and> k < length (processes s'') \<longrightarrow> p_state (processes s'' ! k) = Ready) \<and>
      sch_running (vm_sched s'') = sch_running (vm_sched s)"
      by auto
  qed
qed

text \<open>Changing the block of a process that is not ready, to one that is not ready.\<close>

lemma sched_inv_update:
  assumes "sched_inv (sch, ps)" and "i < length ps" and "p_state (ps ! i) \<noteq> Ready"
    and "p_id (f (ps ! i)) = p_id (ps ! i)" and "p_state (f (ps ! i)) \<noteq> Ready"
  shows "sched_inv (sch, update_process i f ps)"
proof -
  have d: "distinct (map p_id ps)" using assms(1) by (simp add: sched_inv_def sched_ok_def)
  have "map p_id (update_process i f ps) = map p_id ps"
    using assms(2,4) by (simp add: update_process_def map_update list_update_same_conv)
  moreover have "ready_ids (update_process i f ps) = ready_ids ps"
    using ready_ids_update [of ps i f, OF d assms(2,4)] ready_ids_nth [OF d assms(2)] assms(3,5) by simp
  ultimately show ?thesis
    using assms(1) by (simp add: sched_inv_def sched_ok_def all_queued_def)
qed

lemma machine_ok_update:
  assumes "machine_ok m" and "i < length (processes m)" and "p_state (processes m ! i) \<noteq> Ready"
    and "\<And>p. p_id (f p) = p_id p" and "p_state (f (processes m ! i)) \<noteq> Ready"
  shows "machine_ok (on_process i f m)"
proof -
  have "table_ok (vm_table (on_process i f m))"
    using assms(1,4) table_ok_update [of "vm_table m" f i] by (simp add: machine_ok_def on_process_def)
  moreover have "sched_inv (sched_view (on_process i f m))"
    using assms by (auto simp: machine_ok_def sched_view_def frame_simps intro: sched_inv_update)
  ultimately show ?thesis using assms(1) by (simp add: machine_ok_def frame_simps)
qed

lemma runs_process:
  assumes "\<And>p. p_id (f p) = p_id p" and "\<And>p. p_state (f p) = p_state p \<or> p_state (f p) = Halted"
  shows "runs i m (on_process i f m)"
proof -
  have "p_state (processes m ! i) \<noteq> Ready \<Longrightarrow> p_state (f (processes m ! i)) \<noteq> Ready"
    using assms(2) [of "processes m ! i"] by auto
  then show ?thesis
    using machine_ok_update [of m i f] assms
    by (auto simp: runs_def frame_simps nth_update_process)
qed

text \<open>Changing fields that the invariant does not mention.\<close>

lemma runs_fields:
  assumes "vm_table m' = vm_table m" and "vm_sched m' = vm_sched m"
    and "pm_size (vm_phys m') = pm_size (vm_phys m)"
    and "nextFreeAddress (vm_phys m') = nextFreeAddress (vm_phys m)"
  shows "runs i m m'"
  using assms by (auto simp: runs_def machine_ok_def processes_def sched_view_def)

lemma runs_memory:
  assumes "\<And>l pm. pm_size (snd (op l pm)) = pm_size pm"
    and "\<And>l pm. nextFreeAddress (snd (op l pm)) = nextFreeAddress pm"
  shows "respecting (runs i) (process_memory k op)"
proof (rule respectsI)
  fix m
  obtain r pm where "op (p_memory (processes m ! k)) (vm_phys m) = (r, pm)" by (metis prod.exhaust)
  with assms [of "p_memory (processes m ! k)" "vm_phys m"]
  show "runs i m (snd (process_memory k op m))"
    by (auto simp: process_memory_def intro: runs_fields)
qed

lemma runs_memory_ops:
  "respecting (runs i) (process_memory k (\<lambda>l. readDataWord l a))"
  "respecting (runs i) (process_memory k (\<lambda>l. readDataByte l a))"
  "respecting (runs i) (process_memory k (\<lambda>l. readCodeWord l a))"
  "respecting (runs i) (process_memory k (\<lambda>l. writeDataWord l a v))"
  using writeDataWord_sizes
  by (auto intro!: runs_memory simp: readDataWord_keeps readDataByte_keeps readCodeWord_keeps)
    (metis prod.collapse)+

lemma runs_read_path: "respecting (runs i) (read_path n k a)"
  by (induction n arbitrary: a) (auto intro!: runs_fr.respects_intros runs_memory_ops)

lemma runs_streams:
  "respecting (runs i) (vmodify (\<lambda>m. m\<lparr>vm_out := f m\<rparr>))"
  "respecting (runs i) (vmodify (\<lambda>m. m\<lparr>vm_in := g m\<rparr>))"
  by (auto intro!: respects_modify runs_fields)

section \<open>Loading keeps the invariant\<close>

definition alloc_frame :: "phys_mem \<Rightarrow> phys_mem \<Rightarrow> bool" where
  "alloc_frame pm pm' \<longleftrightarrow> pm_size pm' = pm_size pm \<and> nextFreeAddress pm' = nextFreeAddress pm"

interpretation alloc_fr: frame_relation alloc_frame
  by unfold_locales (simp_all add: alloc_frame_def)

lemma alloc_frame_writes:
  "respecting alloc_frame (validateRange a n)" "respecting alloc_frame (validateDataOffset l off n)"
  by (simp_all add: validateRange_def validateDataOffset_def Let_def alloc_fr.respects_read
      alloc_fr.respects_return alloc_fr.respects_throw)

lemma alloc_frame_image:
  "respecting alloc_frame (ProcessMemory l data)" "respecting alloc_frame (loadCode l code)"
proof -
  have w: "respecting alloc_frame (writeWord a v)" "respecting alloc_frame (writeBytes a bs n)" for a v bs n
    unfolding writeWord_def writeBytes_def
    by (auto intro!: alloc_fr.respects_intros alloc_frame_writes respects_modify simp: alloc_frame_def)
  then show "respecting alloc_frame (ProcessMemory l data)"
    unfolding ProcessMemory_def by (auto intro!: alloc_fr.respects_intros alloc_frame_writes)
  have "respecting alloc_frame (loadCode_from l i ws)" for i ws
    by (induction ws arbitrary: i) (auto simp: writeCodeWord_def intro!: alloc_fr.respects_intros w)
  then show "respecting alloc_frame (loadCode l code)" by (simp add: loadCode_def)
qed

lemma load_image_allocation:
  assumes "load_image p pm = (q, pm')" and "unat (pm_size pm) < 2 ^ 32"
    and "unat (nextFreeAddress pm) \<le> unat (pm_size pm)"
  shows "pm_size pm' = pm_size pm \<and> unat (nextFreeAddress pm') \<le> unat (pm_size pm) \<and>
    unat (nextFreeAddress pm) \<le> unat (nextFreeAddress pm') \<and>
    (\<forall>l. q = Inr l \<longrightarrow> unat (nextFreeAddress pm') = unat (nextFreeAddress pm) + 65536)"
proof (cases "unat (nextFreeAddress pm) + 65536 \<le> unat (pm_size pm)")
  case False
  with assms show ?thesis
    by (auto simp: load_image_def vm_run allocateRegion_eq MemoryRegionLayout_def)
next
  case True
  let ?pm1 = "pm\<lparr>nextFreeAddress := nextFreeAddress pm + 65536\<rparr>"
  have n: "unat (nextFreeAddress pm + 65536) = unat (nextFreeAddress pm) + 65536"
    using True assms(2) by (subst unat_add_u32) simp_all
  let ?l = "load_layout (nextFreeAddress pm) p"
  have "respecting alloc_frame (vseq (ProcessMemory ?l (ap_data p)) (vseq (loadCode ?l (ap_code p)) (vreturn ?l)))"
    by (intro alloc_fr.respects_intros alloc_frame_image)
  moreover have "vseq (ProcessMemory ?l (ap_data p)) (vseq (loadCode ?l (ap_code p)) (vreturn ?l)) ?pm1 = (q, pm')"
    using assms(1) True by (simp add: load_image_def allocateRegion_eq MemoryRegionLayout_def vbind_def Let_def)
  ultimately have "alloc_frame ?pm1 pm'" by (rule respectsD)
  with n True show ?thesis by (auto simp: alloc_frame_def)
qed

lemma machine_ok_small:
  assumes "machine_ok m"
  shows "length (processes m) \<le> 65536"
proof -
  have "length (processes m) * 65536 < 65536 * 65536"
    using assms by (simp add: machine_ok_def)
  then show ?thesis by simp
qed

lemma runs_createless:
  assumes "loadProgramFromSource source name m = (Inl e, m')"
  shows "runs i m m'"
proof (cases "assemble source")
  case (Inl e)
  with assms show ?thesis
    by (simp add: loadProgramFromSource_def lift_result_def vm_run runs_fr.frame_refl)
next
  case (Inr program)
  obtain q pm where l: "load_image program (vm_phys m) = (q, pm)" by (metis prod.exhaust)
  from assms Inr l have m': "m' = m\<lparr>vm_phys := pm\<rparr>"
    by (auto simp: loadProgramFromSource_def lift_result_def vm_run createProcess_def on_phys_def
        add_process_def nextId_def emplace_def Let_def split: sum.splits)
  show ?thesis
    using load_image_allocation [OF l]
    by (auto simp: runs_def m' machine_ok_def sched_view_def processes_fields)
qed

text \<open>A successful load keeps the invariant and adds one ready process at the end.\<close>

lemma load_machine_ok:
  assumes "loadProgramFromSource source name m = (Inr pid, m')" and "machine_ok m"
  obtains p where "machine_ok m'" and "processes m' = processes m @ [p]" and "p_state p = Ready"
    and "p_id p = pid" and "p_name p = name" and "sch_running (vm_sched m') = sch_running (vm_sched m)"
proof -
  from loadProgramFromSource_ok [OF assms(1)] obtain program lay pm where
    pid: "pid = nextProcessId (vm_table m)" and
    img: "load_image program (vm_phys m) = (Inr lay, pm)" and phys: "vm_phys m' = pm"
    and ps: "processes m' = processes m @ [new_process pid name lay (sch_quantum (vm_sched m))]"
    and sch: "vm_sched m' = (vm_sched m)\<lparr>readyQueue := enqueue_ready (processes m') (readyQueue (vm_sched m))\<rparr>"
    by blast
  have "table_ok (vm_table m') \<and> sched_inv (sched_view m')"
    using load_registers [OF assms(1)] assms(2) machine_ok_small [OF assms(2)]
    by (simp add: machine_ok_def sched_inv_def)
  then have "machine_ok m'"
    using assms(2) load_image_allocation [OF img] ps phys by (simp add: machine_ok_def)
  with ps sch show ?thesis
    by (intro that [of "new_process pid name lay (sch_quantum (vm_sched m))"]) (simp_all add: frame_simps)
qed

lemma runs_load_source: "respecting (runs i) (loadProgramFromSource source name)"
proof (rule respectsI)
  fix m
  obtain r m' where l: "loadProgramFromSource source name m = (r, m')" by (metis prod.exhaust)
  show "runs i m (snd (loadProgramFromSource source name m))"
  proof (cases r)
    case (Inl e)
    with l show ?thesis by (simp add: runs_createless)
  next
    case (Inr pid)
    show ?thesis
      unfolding runs_def l snd_conv
    proof (intro impI, elim conjE)
      assume ok: "machine_ok m" and i: "i < length (processes m)"
      from load_machine_ok [OF l [unfolded Inr] ok] obtain p where
        "machine_ok m'" "processes m' = processes m @ [p]" "p_state p = Ready"
        "sch_running (vm_sched m') = sch_running (vm_sched m)" by metis
      with i show "machine_ok m' \<and> length (processes m) \<le> length (processes m') \<and>
        (\<forall>k < length (processes m). k \<noteq> i \<longrightarrow> processes m' ! k = processes m ! k) \<and>
        (p_state (processes m' ! i) = p_state (processes m ! i) \<or> p_state (processes m' ! i) = Halted) \<and>
        (\<forall>k. length (processes m) \<le> k \<and> k < length (processes m') \<longrightarrow> p_state (processes m' ! k) = Ready) \<and>
        sch_running (vm_sched m') = sch_running (vm_sched m)"
        by (auto simp: nth_append)
    qed
  qed
qed

lemma runs_load: "respecting (runs i) (loadProgram fs path)"
  by (auto simp: loadProgram_def intro!: runs_load_source runs_fr.respects_throw split: option.split)

lemma runs_syscall: "respecting (runs i) (os_syscalls fs sc i a)"
  unfolding os_syscalls_def
proof (cases sc)
  case SYS_Exit
  then show "respecting (runs i) (handle_syscall (Some (loadProgram fs)) sc i a)"
    by (auto simp: syscall_exit_def pcb_defs intro!: respects_modify runs_process)
next
  case SYS_Yield
  then show "respecting (runs i) (handle_syscall (Some (loadProgram fs)) sc i a)"
    by (auto simp: syscall_yield_def pcb_defs intro!: respects_modify runs_process)
qed (auto simp: syscall_print_def syscall_scan_def syscall_load_def intro!: runs_fr.respects_intros
      runs_memory_ops runs_streams runs_read_path runs_load split: prod.split)

lemma runs_context: "respecting (runs i) (on_process_context i f)"
  unfolding on_process_context_def
  by (auto intro!: respects_modify runs_process simp: pcb_defs)

lemma runs_trace: "respecting (runs i) (trace_instruction k pc insn)"
  unfolding trace_instruction_def
  by (auto intro!: respects_modify runs_fields split: option.split)

lemma runs_handler: "respecting (runs i) (run_handler i insn)"
proof (rule respectsI)
  fix m
  obtain r c where rc: "registry_execute insn (execution_context i m) = (r, c)" by (metis prod.exhaust)
  from registry_context_frame [OF this]
  have "pm_size (ec_phys c) = pm_size (vm_phys m)" "nextFreeAddress (ec_phys c) = nextFreeAddress (vm_phys m)"
    by (simp_all add: ctx_frame_def execution_context_def)
  then have "runs i m (m\<lparr>vm_phys := ec_phys c\<rparr>)" by (auto intro: runs_fields)
  moreover have "runs i (m\<lparr>vm_phys := ec_phys c\<rparr>) (write_context i c m)"
    unfolding write_context_def by (rule runs_process) simp_all
  ultimately show "runs i m (snd (run_handler i insn m))"
    by (simp add: run_handler_def rc) (rule runs_fr.frame_trans)
qed

lemma runs_instruction: "respecting (runs i) (executeInstruction (os_syscalls fs) i)"
  unfolding executeInstruction_def execute_call_def Let_def
  by (auto intro!: runs_fr.respects_intros runs_memory_ops runs_trace runs_syscall runs_context runs_handler)

section \<open>The loop of a core\<close>

text \<open>
  Where a core is in \<^verbatim>\<open>coreLoop\<close>: at the loop condition with its local \<^verbatim>\<open>process\<close>; entering the wait of
  \<^verbatim>\<open>acquireProcess\<close>; about to sleep, holding the mutex; asleep; after \<^verbatim>\<open>acquireProcess\<close> returned
  null; at the halted check; executing; with the result; in \<^verbatim>\<open>releaseProcess\<close> (with its flag
  and whether the halt callback follows); in the callback; past the loop; or with an exception that
  nothing catches, which ends the program.
\<close>

datatype core_label =
    C_Head "pcb_ref option"
  | C_Acquire
  | C_Blocking
  | C_Sleeping
  | C_Idle
  | C_Check pcb_ref
  | C_Execute pcb_ref
  | C_Decide pcb_ref execution_result
  | C_Release pcb_ref bool bool
  | C_Callback
  | C_Finished
  | C_Terminated vm_exception

text \<open>The message that the loop prints for a process that failed.\<close>

definition error_message :: "pcb \<Rightarrow> string" where
  "error_message p =
    ''Process '' @ show_word (p_id p) @ '' error at PC='' @ show_word (rf_pc (cx_registers (p_context p))) @
    (case p_lastError p of Some e \<Rightarrow> '': '' @ e | None \<Rightarrow> []) @ [CHR 0x0A]"

text \<open>What the loop does with the result of an instruction.\<close>

definition decide :: "pcb_ref \<Rightarrow> execution_result \<Rightarrow> machine \<Rightarrow> core_label \<times> machine" where
  "decide i result m =
    (let p = processes m ! i in
     if result = ER_Halt \<or> cx_halted (p_context p)
     then (C_Release i False True, on_process i (setState Halted) m)
     else if result = ER_Error
     then (C_Release i False True,
           on_process i (\<lambda>p. on_context (setHalted True) (setState Halted p))
             (m\<lparr>vm_err := vm_err m @ error_message p\<rparr>))
     else if result = ER_Yield \<or> cx_shouldYield (p_context p)
     then (C_Release i True False, on_process i (on_context (setShouldYield False)) m)
     else if cx_timeSliceLeft (p_context p) = 0 then (C_Release i True False, m)
     else (C_Head (Some i), m))"

text \<open>A call of \<^verbatim>\<open>load\<close> that returned has notified the condition variable.\<close>

definition notifies :: "pcb_ref \<Rightarrow> machine \<Rightarrow> bool" where
  "notifies i m \<longleftrightarrow> (case fetched i m of Some insn \<Rightarrow> is_load_call insn | None \<Rightarrow> False)"

text \<open>
  One step of a core: the next label, the machine, and whether sleeping cores are notified; \<open>None\<close>
  when the core cannot move by itself.
\<close>

fun core_step :: "syscall_handler \<Rightarrow> bool \<Rightarrow> core_label \<Rightarrow> machine \<Rightarrow> (core_label \<times> machine \<times> bool) option" where
  "core_step syscalls stopRequested (C_Head process) m =
     Some (if stopRequested then C_Finished
           else case process of None \<Rightarrow> C_Acquire | Some i \<Rightarrow> C_Check i, m, False)"
| "core_step syscalls stopRequested C_Acquire m =
     (case acquireProcess (sched_view m) of
        None \<Rightarrow> Some (C_Blocking, m, False)
      | Some (r, sch, ps) \<Rightarrow>
          Some (case r of None \<Rightarrow> C_Idle | Some i \<Rightarrow> C_Check i,
                m\<lparr>vm_sched := sch, vm_table := (vm_table m)\<lparr>pt_processes := ps\<rparr>\<rparr>, False))"
| "core_step syscalls stopRequested C_Blocking m = Some (C_Sleeping, m, False)"
| "core_step syscalls stopRequested C_Sleeping m = None"
| "core_step syscalls stopRequested C_Idle m =
     (if stopRequested then Some (C_Finished, m, False)
      else Some (C_Head None, on_scheduler onCoreIdle m, True))"
| "core_step syscalls stopRequested (C_Check i) m =
     Some (if cx_halted (p_context (processes m ! i)) \<or> p_state (processes m ! i) = Halted
           then C_Release i False False else C_Execute i, m, False)"
| "core_step syscalls stopRequested (C_Execute i) m =
     (case executeInstruction syscalls i m of
        (Inl e, m') \<Rightarrow> Some (C_Terminated e, m', False)
      | (Inr result, m') \<Rightarrow> Some (C_Decide i result, m', notifies i m))"
| "core_step syscalls stopRequested (C_Decide i result) m =
     (case decide i result m of (l, m') \<Rightarrow> Some (l, m', False))"
| "core_step syscalls stopRequested (C_Release i preempt callback) m =
     Some (if callback then C_Callback else C_Head None, releaseProcess i preempt m, True)"
| "core_step syscalls stopRequested C_Callback m = Some (C_Head None, m, False)"
| "core_step syscalls stopRequested C_Finished m = None"
| "core_step syscalls stopRequested (C_Terminated e) m = None"

text \<open>
  The labels whose step takes the mutex of the scheduler. Of the instructions only a \<^verbatim>\<open>load\<close> call takes it; the others
  are held back with it while a core is between the test of its predicate and its sleep, a step that
  touches nothing they do and commutes with them.
\<close>

fun takes_mutex :: "core_label \<Rightarrow> bool" where
  "takes_mutex C_Acquire = True"
| "takes_mutex C_Idle = True"
| "takes_mutex (C_Execute i) = True"
| "takes_mutex (C_Release i preempt callback) = True"
| "takes_mutex _ = False"

section \<open>The threads together\<close>

record core =
  co_label :: core_label
  co_stopRequested :: bool

text \<open>
  \<^verbatim>\<open>start\<close>, \<^verbatim>\<open>stop\<close> and \<^verbatim>\<open>join\<close> of a core: a fresh thread at the head of the loop, the request to stop, and
  what \<^verbatim>\<open>join\<close> waits for, that the thread has left its loop.
\<close>

definition start_core :: core where
  [simp]: "start_core = \<lparr>co_label = C_Head None, co_stopRequested = False\<rparr>"

definition stop_core :: "core \<Rightarrow> core" where
  [simp]: "stop_core c = c\<lparr>co_stopRequested := True\<rparr>"

definition joinable :: "core \<Rightarrow> bool" where
  [simp]: "joinable c \<longleftrightarrow> co_label c = C_Finished"

text \<open>
  The main thread: waiting for all processes to halt, then the statements of \<^verbatim>\<open>stop\<close> one by one
  (the store to \<^verbatim>\<open>running_\<close> of the scheduler, its notification, the stop flags, the joins).
\<close>

datatype main_label = M_Wait | M_Stop | M_Notify | M_Flag nat | M_Join nat | M_Done

record system =
  sy_machine :: machine
  sy_cores :: "core list"
  sy_main :: main_label

definition mutex_free :: "core list \<Rightarrow> bool" where
  "mutex_free cores \<longleftrightarrow> list_all (\<lambda>c. co_label c \<noteq> C_Blocking) cores"

definition wake :: "core list \<Rightarrow> core list" where
  "wake cores = map (\<lambda>c. if co_label c = C_Sleeping then c\<lparr>co_label := C_Acquire\<rparr> else c) cores"

definition terminated :: "core list \<Rightarrow> bool" where
  "terminated cores \<longleftrightarrow> list_ex (\<lambda>c. case co_label c of C_Terminated e \<Rightarrow> True | _ \<Rightarrow> False) cores"

inductive system_step :: "syscall_handler \<Rightarrow> system \<Rightarrow> system \<Rightarrow> bool" for syscalls where
  core_moves: "system_step syscalls s
     (s\<lparr>sy_machine := m',
       sy_cores := (if notify then wake (sy_cores s) else sy_cores s)
         [c := (sy_cores s ! c)\<lparr>co_label := l'\<rparr>]\<rparr>)"
    if "\<not> terminated (sy_cores s)" and "c < length (sy_cores s)"
      and "takes_mutex (co_label (sy_cores s ! c)) \<longrightarrow> mutex_free (sy_cores s)"
      and "core_step syscalls (co_stopRequested (sy_cores s ! c)) (co_label (sy_cores s ! c)) (sy_machine s)
        = Some (l', m', notify)"
| main_wakes: "system_step syscalls s (s\<lparr>sy_main := M_Stop\<rparr>)"
    if "\<not> terminated (sy_cores s)" and "sy_main s = M_Wait" and "allHalted (vm_table (sy_machine s))"
| main_stops: "system_step syscalls s
     (s\<lparr>sy_machine := on_scheduler stop_scheduler (sy_machine s), sy_main := M_Notify\<rparr>)"
    if "\<not> terminated (sy_cores s)" and "sy_main s = M_Stop"
| main_notifies: "system_step syscalls s (s\<lparr>sy_cores := wake (sy_cores s), sy_main := M_Flag 0\<rparr>)"
    if "\<not> terminated (sy_cores s)" and "sy_main s = M_Notify"
| main_flags: "system_step syscalls s
     (s\<lparr>sy_cores := (sy_cores s)[c := stop_core (sy_cores s ! c)], sy_main := M_Flag (Suc c)\<rparr>)"
    if "\<not> terminated (sy_cores s)" and "sy_main s = M_Flag c" and "c < length (sy_cores s)"
| main_flagged: "system_step syscalls s (s\<lparr>sy_main := M_Join 0\<rparr>)"
    if "\<not> terminated (sy_cores s)" and "sy_main s = M_Flag (length (sy_cores s))"
| main_joins: "system_step syscalls s (s\<lparr>sy_main := M_Join (Suc c)\<rparr>)"
    if "\<not> terminated (sy_cores s)" and "sy_main s = M_Join c" and "c < length (sy_cores s)"
      and "joinable (sy_cores s ! c)"
| main_done: "system_step syscalls s (s\<lparr>sy_main := M_Done\<rparr>)"
    if "\<not> terminated (sy_cores s)" and "sy_main s = M_Join (length (sy_cores s))"

text \<open>\<^verbatim>\<open>run\<close> with the given number of cores, up to the wait.\<close>

definition run_system :: "nat \<Rightarrow> machine \<Rightarrow> system" where
  "run_system coreCount m =
    \<lparr>sy_machine = on_scheduler notifyProcessReady m,
     sy_cores = replicate coreCount start_core, sy_main = M_Wait\<rparr>"

definition reachable :: "syscall_handler \<Rightarrow> nat \<Rightarrow> machine \<Rightarrow> system \<Rightarrow> bool" where
  "reachable syscalls coreCount m s \<longleftrightarrow> (system_step syscalls)\<^sup>*\<^sup>* (run_system coreCount m) s"


section \<open>What a step of a core does\<close>

fun holds :: "core_label \<Rightarrow> pcb_ref option" where
  "holds (C_Head process) = process"
| "holds (C_Check i) = Some i"
| "holds (C_Execute i) = Some i"
| "holds (C_Decide i r) = Some i"
| "holds (C_Release i p cb) = Some i"
| "holds _ = None"

definition has_state :: "machine \<Rightarrow> pcb_ref \<Rightarrow> process_state set \<Rightarrow> bool" where
  "has_state m i sts \<longleftrightarrow> i < length (processes m) \<and> p_state (processes m ! i) \<in> sts"

fun label_ok :: "machine \<Rightarrow> core_label \<Rightarrow> bool" where
  "label_ok m (C_Head (Some i)) = has_state m i {Running, Halted}"
| "label_ok m (C_Check i) = has_state m i {Running, Halted}"
| "label_ok m (C_Execute i) = has_state m i {Running}"
| "label_ok m (C_Decide i r) = has_state m i {Running, Halted}"
| "label_ok m (C_Release i p cb) = has_state m i {Running, Halted}"
| "label_ok m _ = True"

fun leaves_loop :: "core_label \<Rightarrow> bool" where
  "leaves_loop C_Finished = True"
| "leaves_loop (C_Terminated e) = True"
| "leaves_loop _ = False"

text \<open>
  The invariant is kept, only the process of the core changes its state, a core that takes a process
  takes a ready one, a process that runs afterwards is held (unless the core leaves its loop), halted
  processes stay halted, and only an instruction adds processes.
\<close>

definition core_effect :: "core_label \<Rightarrow> machine \<Rightarrow> core_label \<Rightarrow> machine \<Rightarrow> bool" where
  "core_effect l m l' m' \<longleftrightarrow> machine_ok m' \<and> label_ok m' l' \<and> length (processes m) \<le> length (processes m') \<and>
    (\<forall>k < length (processes m). holds l \<noteq> Some k \<and> holds l' \<noteq> Some k \<longrightarrow>
       p_state (processes m' ! k) = p_state (processes m ! k)) \<and>
    (\<forall>k. holds l' = Some k \<longrightarrow> holds l = Some k \<or> has_state m k {Ready}) \<and>
    (leaves_loop l' \<or> (\<forall>k. has_state m' k {Running} \<longrightarrow>
       holds l' = Some k \<or> has_state m k {Running} \<and> holds l \<noteq> Some k)) \<and>
    (\<forall>k. has_state m k {Halted} \<longrightarrow> has_state m' k {Halted}) \<and>
    (\<forall>k. length (processes m) \<le> k \<and> k < length (processes m') \<longrightarrow> (\<exists>i. l = C_Execute i))"

text \<open>Steps that leave the machine alone and keep the process.\<close>

lemma effect_same:
  "machine_ok m \<Longrightarrow> label_ok m l' \<Longrightarrow> holds l' = holds l \<Longrightarrow> core_effect l m l' m"
  by (auto simp: core_effect_def has_state_def)

lemma effect_finished: "machine_ok m \<Longrightarrow> core_effect l m C_Finished m"
  by (auto simp: core_effect_def has_state_def)

definition put_sched :: "sched_state \<Rightarrow> machine \<Rightarrow> machine" where
  "put_sched s m = m\<lparr>vm_sched := fst s, vm_table := (vm_table m)\<lparr>pt_processes := snd s\<rparr>\<rparr>"

lemma put_sched_fields [simp]:
  "processes (put_sched s m) = snd s" "sched_view (put_sched s m) = s" "vm_phys (put_sched s m) = vm_phys m"
  by (simp_all add: put_sched_def processes_def sched_view_def)

lemma on_scheduler_put: "on_scheduler f m = put_sched (f (sched_view m)) m"
  by (simp add: on_scheduler_def put_sched_def split: prod.split)

lemma machine_ok_put:
  assumes "machine_ok m" and "sched_inv s" and "map p_id (snd s) = map p_id (processes m)"
  shows "machine_ok (put_sched s m)"
proof -
  have "length (snd s) = length (processes m)" using map_eq_imp_length_eq [OF assms(3)] .
  moreover have "map (\<lambda>p. unat (p_id p)) (snd s) = map (\<lambda>p. unat (p_id p)) (processes m)"
    using arg_cong [OF assms(3), of "map unat"] by (simp add: o_def)
  ultimately show ?thesis
    using assms(1,2) by (simp add: machine_ok_def table_ok_def put_sched_def processes_def sched_view_def)
qed

lemma ids_update [simp]: "(\<And>p. p_id (f p) = p_id p) \<Longrightarrow> map p_id (update_process i f ps) = map p_id ps"
  by (rule map_update_process)

lemma sched_view_snd [simp]: "snd (sched_view m) = processes m" "fst (sched_view m) = vm_sched m"
  by (simp_all add: sched_view_def)

lemma effect_acquire:
  assumes "machine_ok m" and "acquireProcess (sched_view m) = Some (r, s)"
  shows "core_effect C_Acquire m (case r of None \<Rightarrow> C_Idle | Some i \<Rightarrow> C_Check i) (put_sched s m)"
proof -
  have inv: "sched_inv (sched_view m)" using assms(1) by (simp add: machine_ok_def)
  then have "sched_ok (sched_view m)" by (simp add: sched_inv_def)
  with acquire_ok [OF this assms(2)] inv have "sched_inv s" by (simp add: sched_inv_def)
  from \<open>sched_ok (sched_view m)\<close> assms(2) have "sched_ok (vm_sched m, processes m)"
    "acquireProcess (vm_sched m, processes m) = Some (r, s)"
    by (simp_all add: sched_view_def)
  then show ?thesis
  proof (cases rule: acquire_cases)
    case stopped
    with assms(1) machine_ok_put [OF assms(1) \<open>sched_inv s\<close>] show ?thesis
      by (auto simp: core_effect_def has_state_def)
  next
    case (head i queue)
    have "\<And>q p. p_id (dispatch q p) = p_id p" "\<And>q p. p_state (dispatch q p) = Running"
      by (simp_all add: dispatch_def frame_simps)
    with head machine_ok_put [OF assms(1) \<open>sched_inv s\<close>] show ?thesis
      by (auto simp: core_effect_def has_state_def nth_update_process split: if_splits)
  qed
qed

lemma notify_processes [simp]: "snd (notifyProcessReady s) = snd s"
  by (simp add: notifyProcessReady_def split: prod.split)

lemma notify_machine_ok:
  assumes "machine_ok m"
  shows "machine_ok (on_scheduler notifyProcessReady m)"
  unfolding on_scheduler_put
  using assms by (intro machine_ok_put sched_inv_notify) (auto simp: machine_ok_def sched_inv_def)

lemma effect_idle:
  assumes "machine_ok m"
  shows "core_effect C_Idle m (C_Head None) (on_scheduler onCoreIdle m)"
  using notify_machine_ok [OF assms]
  by (simp add: core_effect_def has_state_def onCoreIdle_def processes_on_scheduler)

lemma effect_execute:
  assumes "machine_ok m" and "has_state m i {Running}"
    and "executeInstruction (os_syscalls fs) i m = (q, m')"
  shows "core_effect (C_Execute i) m (case q of Inl e \<Rightarrow> C_Terminated e | Inr r \<Rightarrow> C_Decide i r) m'"
proof -
  have "runs i m m'" using runs_instruction assms(3) by (rule respectsD)
  with assms(1,2) have a: "machine_ok m'" "length (processes m) \<le> length (processes m')"
    "\<And>k. k < length (processes m) \<Longrightarrow> k \<noteq> i \<Longrightarrow> processes m' ! k = processes m ! k"
    "p_state (processes m' ! i) = Running \<or> p_state (processes m' ! i) = Halted"
    "\<And>k. length (processes m) \<le> k \<Longrightarrow> k < length (processes m') \<Longrightarrow> p_state (processes m' ! k) = Ready"
    by (auto simp: runs_def has_state_def)
  have run: "\<forall>k. has_state m' k {Running} \<longrightarrow> i = k \<or> has_state m k {Running} \<and> i \<noteq> k"
  proof (intro allI impI)
    fix k
    assume "has_state m' k {Running}"
    then show "i = k \<or> has_state m k {Running} \<and> i \<noteq> k"
      using a(3,5) [of k] by (cases "k < length (processes m)") (auto simp: has_state_def)
  qed
  have halt: "\<forall>k. has_state m k {Halted} \<longrightarrow> has_state m' k {Halted}"
  proof (intro allI impI)
    fix k
    assume "has_state m k {Halted}"
    then show "has_state m' k {Halted}"
      using a(2) a(3) [of k] assms(2) by (cases "k = i") (auto simp: has_state_def)
  qed
  have own: "has_state m' i {Running, Halted}"
    using a(2,4) assms(2) by (auto simp: has_state_def)
  have keep: "\<forall>k < length (processes m). i \<noteq> k \<longrightarrow> p_state (processes m' ! k) = p_state (processes m ! k)"
    using a(3) by simp
  show ?thesis
    unfolding core_effect_def using a(1,2) run halt own keep by (cases q) simp_all
qed

lemma effect_update:
  assumes "machine_ok m" and "has_state m i {Running, Halted}" and "\<And>p. p_id (f p) = p_id p"
    and "p_state (f (processes m ! i)) = p_state (processes m ! i) \<or> p_state (f (processes m ! i)) = Halted"
    and "holds l = Some i" and "holds l' = Some i" and "label_ok (on_process i f m) l'"
  shows "core_effect l m l' (on_process i f m)"
proof -
  have "machine_ok (on_process i f m)"
    using assms(1-4) by (intro machine_ok_update) (auto simp: has_state_def)
  with assms(2-) show ?thesis
    by (auto simp: core_effect_def has_state_def frame_simps nth_update_process)
qed

lemma effect_decide:
  assumes "machine_ok m" and "has_state m i {Running, Halted}" and "decide i r m = (l', m')"
  shows "core_effect (C_Decide i r) m l' m'"
proof -
  have error: "core_effect (C_Decide i r) m (C_Release i False True)
      (on_process i (\<lambda>p. on_context (setHalted True) (setState Halted p)) (m\<lparr>vm_err := e\<rparr>))" for e
  proof -
    have "processes (m\<lparr>vm_err := e\<rparr>) = processes m" "machine_ok (m\<lparr>vm_err := e\<rparr>)"
      using assms(1) by (simp_all add: machine_ok_def processes_fields sched_view_def)
    then have "core_effect (C_Decide i r) (m\<lparr>vm_err := e\<rparr>) (C_Release i False True)
      (on_process i (\<lambda>p. on_context (setHalted True) (setState Halted p)) (m\<lparr>vm_err := e\<rparr>))"
      using assms(2) by (intro effect_update) (auto simp: has_state_def frame_simps nth_update_process)
    then show ?thesis by (simp add: core_effect_def has_state_def processes_fields)
  qed
  show ?thesis
    using assms error
    by (auto simp: decide_def Let_def has_state_def frame_simps nth_update_process split: if_splits
        intro!: effect_update effect_same)
qed

lemma release_nth:
  assumes "i < length (processes m)" and "p_state (processes m ! i) \<noteq> Ready" and "k < length (processes m)"
  shows "p_state (processes (releaseProcess i p m) ! k) =
    (if k = i \<and> p_state (processes m ! i) = Running then Ready else p_state (processes m ! k))"
  using assms
  by (cases "p_state (processes m ! i)")
    (auto simp: releaseProcess_def on_scheduler_put onPreempt_def sched_view_def nth_update_process frame_simps
      split: prod.split)

lemma release_ids: "map p_id (processes (releaseProcess i p m)) = map p_id (processes m)"
  by (auto simp: releaseProcess_def on_scheduler_put onPreempt_def frame_simps sched_view_def split: prod.split)

lemma release_ok:
  assumes "machine_ok m" and "has_state m i {Running, Halted}"
  shows "machine_ok (releaseProcess i p m)"
proof -
  have i: "i < length (snd (sched_view m))" and inv: "sched_inv (sched_view m)" "sched_ok (sched_view m)"
    using assms by (simp_all add: has_state_def machine_ok_def sched_inv_def)
  have "machine_ok (on_scheduler (onPreempt i) m)"
    unfolding on_scheduler_put
    using assms(1) preempt_ok [OF inv(2) i] inv(1)
    by (intro machine_ok_put) (auto simp: sched_inv_def onPreempt_def frame_simps sched_view_def split: prod.split)
  moreover have "machine_ok (on_scheduler notifyProcessReady (on_process i (setState Ready) m))"
  proof -
    let ?ps = "update_process i (setState Ready) (processes m)"
    have ids: "map p_id ?ps = map p_id (processes m)" by (simp add: frame_simps)
    have d: "distinct (map p_id (processes m))" using inv(2) by (simp add: sched_ok_def sched_view_def)
    have "ready_ids ?ps = insert (p_id (processes m ! i)) (ready_ids (processes m))"
      using ready_ids_update [OF d, of i "setState Ready"] i by (simp add: frame_simps)
    then have "sched_ok (vm_sched m, ?ps)"
      using inv(2) ids by (auto simp: sched_ok_def sched_view_def)
    then have "sched_inv (notifyProcessReady (vm_sched m, ?ps))" by (rule sched_inv_notify)
    moreover have "on_scheduler notifyProcessReady (on_process i (setState Ready) m) =
        put_sched (notifyProcessReady (vm_sched m, ?ps)) m"
      by (simp add: on_scheduler_put sched_view_def frame_simps) (simp add: put_sched_def on_process_def)
    ultimately show ?thesis
      using machine_ok_put [OF assms(1), of "notifyProcessReady (vm_sched m, ?ps)"] ids by simp
  qed
  ultimately show ?thesis
    using notify_machine_ok [OF assms(1)] by (simp add: releaseProcess_def)
qed

lemma effect_release:
  assumes "machine_ok m" and "has_state m i {Running, Halted}"
  shows "core_effect (C_Release i p cb) m (if cb then C_Callback else C_Head None) (releaseProcess i p m)"
proof -
  let ?m' = "releaseProcess i p m"
  have i: "i < length (processes m)" "p_state (processes m ! i) \<noteq> Ready"
    using assms(2) by (auto simp: has_state_def)
  have len: "length (processes ?m') = length (processes m)"
    using map_eq_imp_length_eq [OF release_ids] .
  note st = release_nth [OF i, of _ p]
  have "has_state ?m' k sts \<longleftrightarrow> k < length (processes m) \<and>
      (if k = i \<and> p_state (processes m ! i) = Running then Ready else p_state (processes m ! k)) \<in> sts" for k sts
    using st len by (auto simp: has_state_def)
  then show ?thesis
    using release_ok [OF assms] assms(2) st len
    by (auto simp: core_effect_def has_state_def split: if_splits)
qed

section \<open>Invariant of the system\<close>

lemma core_step_effect:
  assumes "core_step (os_syscalls fs) stop l m = Some (l', m', nt)" and "machine_ok m" and "label_ok m l"
  shows "core_effect l m l' m'"
proof (cases l)
  case (C_Head process)
  with assms show ?thesis by (cases process) (auto intro!: effect_same effect_finished split: if_splits)
next
  case C_Acquire
  with assms show ?thesis
    using effect_acquire [OF assms(2)]
    by (auto simp: put_sched_def intro!: effect_same split: option.splits prod.splits)
next
  case C_Idle
  with assms show ?thesis
    using effect_idle [OF assms(2)] effect_finished [OF assms(2)] by (auto split: if_splits)
next
  case (C_Check i)
  with assms show ?thesis by (auto simp: has_state_def intro!: effect_same split: if_splits)
next
  case (C_Execute i)
  with assms show ?thesis
    using effect_execute [OF assms(2), of i fs] by (auto split: prod.splits sum.splits)
next
  case (C_Decide i r)
  with assms show ?thesis
    using effect_decide [OF assms(2), of i r] by (auto split: prod.splits)
next
  case (C_Release i p cb)
  with assms show ?thesis using effect_release [OF assms(2), of i p cb] by (cases cb) auto
qed (use assms in \<open>auto intro!: effect_same\<close>)

definition label_of :: "system \<Rightarrow> nat \<Rightarrow> core_label" where
  "label_of s c = co_label (sy_cores s ! c)"

definition all_halted :: "machine \<Rightarrow> bool" where
  "all_halted m \<longleftrightarrow> (\<forall>k < length (processes m). p_state (processes m ! k) = Halted)"

definition sys_inv :: "system \<Rightarrow> bool" where
  "sys_inv s \<longleftrightarrow> machine_ok (sy_machine s) \<and>
    (\<forall>c < length (sy_cores s). label_ok (sy_machine s) (label_of s c)) \<and>
    (\<forall>c < length (sy_cores s). \<forall>d < length (sy_cores s). \<forall>i.
       holds (label_of s c) = Some i \<and> holds (label_of s d) = Some i \<longrightarrow> c = d) \<and>
    (terminated (sy_cores s) \<or> (\<forall>k. has_state (sy_machine s) k {Running} \<longrightarrow>
       (\<exists>c < length (sy_cores s). holds (label_of s c) = Some k))) \<and>
    (sy_main s \<noteq> M_Wait \<longrightarrow> all_halted (sy_machine s)) \<and>
    (\<forall>c < length (sy_cores s). co_stopRequested (sy_cores s ! c) \<longrightarrow> sy_main s \<noteq> M_Wait)"

lemma label_ok_held: "label_ok m l \<Longrightarrow> holds l = Some i \<Longrightarrow> has_state m i {Running, Halted}"
  by (cases "(m, l)" rule: label_ok.cases) (auto simp: has_state_def)

lemma label_ok_free: "holds l = None \<Longrightarrow> label_ok m l"
  by (cases "(m, l)" rule: label_ok.cases) auto

lemma label_ok_cong:
  "label_ok m l \<Longrightarrow> (\<And>i sts. holds l = Some i \<Longrightarrow> has_state m i sts = has_state m' i sts) \<Longrightarrow> label_ok m' l"
  by (cases "(m, l)" rule: label_ok.cases) auto

lemma wake_nth:
  assumes "c < length cores"
  shows "co_label (wake cores ! c) = (if co_label (cores ! c) = C_Sleeping then C_Acquire else co_label (cores ! c))"
    and "co_stopRequested (wake cores ! c) = co_stopRequested (cores ! c)"
  using assms by (simp_all add: wake_def)

lemma wake_length [simp]: "length (wake cores) = length cores"
  by (simp add: wake_def)

lemma terminated_wake [simp]: "terminated (wake cores) = terminated cores"
  by (induction cores) (auto simp: wake_def terminated_def split: core_label.split)

lemma holds_wake: "c < length cores \<Longrightarrow> holds (co_label (wake cores ! c)) = holds (co_label (cores ! c))"
  by (simp add: wake_nth)

lemma label_ok_wake: "c < length cores \<Longrightarrow> label_ok m (co_label (wake cores ! c)) = label_ok m (co_label (cores ! c))"
  by (simp add: wake_nth)

lemma finished_stop:
  "core_step sc stop l m = Some (C_Finished, m', nt) \<Longrightarrow> stop"
  by (cases l)
    (auto simp: decide_def Let_def split: if_splits option.splits prod.splits sum.splits)

lemma effect_halted:
  assumes "core_effect l m l' m'" and "all_halted m" and "label_ok m l"
  shows "all_halted m'"
proof -
  have "length (processes m') = length (processes m)"
  proof (rule ccontr)
    assume "length (processes m') \<noteq> length (processes m)"
    with assms(1) have "length (processes m) < length (processes m')" by (simp add: core_effect_def)
    with assms(1) obtain i where "l = C_Execute i" unfolding core_effect_def by blast
    with assms(2,3) show False by (auto simp: has_state_def all_halted_def)
  qed
  moreover have "has_state m k {Halted} \<Longrightarrow> has_state m' k {Halted}" for k
    using assms(1) by (simp add: core_effect_def)
  ultimately show ?thesis using assms(2) by (auto simp: all_halted_def has_state_def)
qed

text \<open>The cores after a step of core \<open>c\<close>.\<close>

definition cores_after :: "bool \<Rightarrow> nat \<Rightarrow> core_label \<Rightarrow> core list \<Rightarrow> core list" where
  "cores_after notify c l' cores =
    (if notify then wake cores else cores)[c := (cores ! c)\<lparr>co_label := l'\<rparr>]"

lemma cores_after_length [simp]: "length (cores_after notify c l' cores) = length cores"
  by (simp add: cores_after_def)

lemma cores_after_nth:
  assumes "c < length cores" and "d < length cores"
  shows "holds (co_label (cores_after notify c l' cores ! d)) = (if d = c then holds l' else holds (co_label (cores ! d)))"
    "label_ok m (co_label (cores_after notify c l' cores ! d)) = label_ok m (if d = c then l' else co_label (cores ! d))"
    "co_stopRequested (cores_after notify c l' cores ! d) = co_stopRequested (cores ! d)"
    "co_label (cores_after notify c l' cores ! c) = l'"
  using assms by (auto simp: cores_after_def holds_wake label_ok_wake wake_nth nth_list_update)

lemma terminated_after:
  "c < length cores \<Longrightarrow> l' = C_Terminated e \<Longrightarrow> terminated (cores_after notify c l' cores)"
  using cores_after_nth(4) [of c cores c notify l']
  by (auto simp: terminated_def list_ex_iff in_set_conv_nth intro!: bexI [of _ "cores_after notify c l' cores ! c"])

text \<open>What the cores hold after it: no process twice, and each in a state that fits the label.\<close>

lemma moved_effect:
  assumes "sys_inv s" and "c < length (sy_cores s)"
    and "core_step (os_syscalls fs) (co_stopRequested (sy_cores s ! c)) (label_of s c) (sy_machine s) = Some (l', m', notify)"
  shows "core_effect (label_of s c) (sy_machine s) l' m'"
  using assms(3) by (rule core_step_effect) (use assms(1,2) in \<open>simp_all add: sys_inv_def\<close>)

lemma moved_apart:
  assumes inv: "sys_inv s" and c: "c < length (sy_cores s)" and eff: "core_effect (label_of s c) (sy_machine s) l' m'"
    and d: "d < length (sy_cores s)" "d \<noteq> c" "holds (label_of s d) = Some i"
  shows "holds (label_of s c) \<noteq> Some i \<and> holds l' \<noteq> Some i"
proof -
  have "label_ok (sy_machine s) (label_of s d)" using inv d(1) by (simp add: sys_inv_def)
  from label_ok_held [OF this d(3)] have "\<not> has_state (sy_machine s) i {Ready}" by (auto simp: has_state_def)
  moreover have "holds (label_of s c) \<noteq> Some i" using inv c d unfolding sys_inv_def by blast
  ultimately show ?thesis using eff by (auto simp: core_effect_def)
qed

lemma moved_labels:
  assumes inv: "sys_inv s" and c: "c < length (sy_cores s)" and eff: "core_effect (label_of s c) (sy_machine s) l' m'"
    and d: "d < length (sy_cores s)"
  shows "label_ok m' (co_label (cores_after notify c l' (sy_cores s) ! d))"
proof (cases "d = c")
  case True
  with eff cores_after_nth(2) [OF c c] show ?thesis by (simp add: core_effect_def)
next
  case False
  have lok: "label_ok (sy_machine s) (label_of s d)" using inv d by (simp add: sys_inv_def)
  have "label_ok m' (label_of s d)"
  proof (rule label_ok_cong [OF lok])
    fix i sts
    assume h: "holds (label_of s d) = Some i"
    with label_ok_held [OF lok h] moved_apart [OF inv c eff d False h] eff
    show "has_state (sy_machine s) i sts = has_state m' i sts" by (auto simp: has_state_def core_effect_def)
  qed
  with False cores_after_nth(2) [OF c d] show ?thesis by (simp add: label_of_def)
qed

lemma moved_once:
  assumes inv: "sys_inv s" and c: "c < length (sy_cores s)" and eff: "core_effect (label_of s c) (sy_machine s) l' m'"
    and "d < length (sy_cores s)" and "e < length (sy_cores s)"
    and "holds (co_label (cores_after notify c l' (sy_cores s) ! d)) = Some i"
    and "holds (co_label (cores_after notify c l' (sy_cores s) ! e)) = Some i"
  shows "d = e"
proof -
  have "\<And>d e i. d < length (sy_cores s) \<Longrightarrow> e < length (sy_cores s) \<Longrightarrow> holds (label_of s d) = Some i \<Longrightarrow>
      holds (label_of s e) = Some i \<Longrightarrow> d = e"
    using inv unfolding sys_inv_def by blast
  then show ?thesis
    using assms(4-) moved_apart [OF inv c eff, of d i] moved_apart [OF inv c eff, of e i] cores_after_nth(1) [OF c]
    by (auto simp: label_of_def split: if_splits)
qed

text \<open>A process that runs is still held, unless the core ended the program.\<close>

lemma moved_running:
  assumes inv: "sys_inv s" and c: "c < length (sy_cores s)" and nt: "\<not> terminated (sy_cores s)"
    and eff: "core_effect (label_of s c) (sy_machine s) l' m'" and stay: "\<not> leaves_loop l'" and k: "has_state m' k {Running}"
  shows "\<exists>d < length (sy_cores s). holds (co_label (cores_after notify c l' (sy_cores s) ! d)) = Some k"
proof -
  from eff stay k have "holds l' = Some k \<or> has_state (sy_machine s) k {Running} \<and> holds (label_of s c) \<noteq> Some k"
    unfolding core_effect_def by blast
  then show ?thesis
  proof
    assume "holds l' = Some k"
    then show ?thesis using c cores_after_nth(4) [OF c c] by auto
  next
    assume h: "has_state (sy_machine s) k {Running} \<and> holds (label_of s c) \<noteq> Some k"
    with inv nt obtain d where d: "d < length (sy_cores s)" "holds (label_of s d) = Some k"
      unfolding sys_inv_def by blast
    with h have "d \<noteq> c" by auto
    with d show ?thesis using cores_after_nth(1) [OF c d(1)] by (auto simp: label_of_def)
  qed
qed

lemma sys_inv_core_moves:
  assumes inv: "sys_inv s" and c: "c < length (sy_cores s)" and nt: "\<not> terminated (sy_cores s)"
    and step: "core_step (os_syscalls fs) (co_stopRequested (sy_cores s ! c)) (label_of s c) (sy_machine s)
      = Some (l', m', notify)"
  shows "sys_inv (s\<lparr>sy_machine := m', sy_cores := cores_after notify c l' (sy_cores s)\<rparr>)"
proof -
  let ?n = "length (sy_cores s)" and ?cores = "cores_after notify c l' (sy_cores s)"
  note eff = moved_effect [OF inv c step]
  have halt: "sy_main s \<noteq> M_Wait \<Longrightarrow> all_halted m'"
    using effect_halted [OF eff] inv c by (simp add: sys_inv_def)
  have stop: "\<And>d. d < ?n \<Longrightarrow> co_stopRequested (sy_cores s ! d) \<Longrightarrow> sy_main s \<noteq> M_Wait"
    using inv by (simp add: sys_inv_def)
  have running: "terminated ?cores \<or> (\<forall>k. has_state m' k {Running} \<longrightarrow> (\<exists>d < ?n. holds (co_label (?cores ! d)) = Some k))"
  proof (cases l')
    case (C_Terminated e)
    with terminated_after [OF c] show ?thesis by blast
  next
    case C_Finished
    with finished_stop step have "co_stopRequested (sy_cores s ! c)" by blast
    with stop [OF c] halt have "all_halted m'" by blast
    then show ?thesis by (auto simp: has_state_def all_halted_def)
  qed (use moved_running [OF inv c nt eff] in simp_all)
  show ?thesis
    unfolding sys_inv_def
    using eff running halt moved_labels [OF inv c eff, of _ notify] moved_once [OF inv c eff, of _ _ notify]
      stop cores_after_nth(3) [OF c]
    by (simp add: label_of_def core_effect_def)
qed

text \<open>Steps of the main thread, which change no process and no label but to wake cores.\<close>

lemma sys_inv_main:
  assumes inv: "sys_inv s" and nt: "\<not> terminated (sy_cores s)" and ok: "machine_ok m'"
    and ps: "processes m' = processes (sy_machine s)"
    and len: "length cores' = length (sy_cores s)"
    and hold: "\<And>c. c < length cores' \<Longrightarrow> holds (co_label (cores' ! c)) = holds (label_of s c)"
    and lab: "\<And>c m. c < length cores' \<Longrightarrow> label_ok m (co_label (cores' ! c)) = label_ok m (label_of s c)"
    and halt: "all_halted m'" and main: "main' \<noteq> M_Wait"
  shows "sys_inv \<lparr>sy_machine = m', sy_cores = cores', sy_main = main'\<rparr>"
proof -
  have st: "has_state m' k sts = has_state (sy_machine s) k sts" for k sts
    by (simp add: has_state_def ps)
  have "label_ok m' (co_label (cores' ! c))" if "c < length cores'" for c
    using inv that len lab label_ok_cong [of "sy_machine s" "label_of s c" m'] st
    by (auto simp: sys_inv_def)
  moreover have "\<exists>c < length cores'. holds (co_label (cores' ! c)) = Some k" if "has_state m' k {Running}" for k
  proof -
    from inv nt have "\<forall>k. has_state (sy_machine s) k {Running} \<longrightarrow>
        (\<exists>c < length (sy_cores s). holds (label_of s c) = Some k)"
      unfolding sys_inv_def by blast
    with that st obtain c where "c < length (sy_cores s)" "holds (label_of s c) = Some k" by blast
    then show ?thesis using len hold by auto
  qed
  moreover have "c = d" if "c < length cores'" "d < length cores'"
    "holds (co_label (cores' ! c)) = Some i" "holds (co_label (cores' ! d)) = Some i" for c d i
    using that inv len hold by (auto simp: sys_inv_def)
  ultimately show ?thesis
    unfolding sys_inv_def using ok halt main by (simp add: label_of_def)
qed

lemma stop_machine_ok:
  assumes "machine_ok m"
  shows "machine_ok (on_scheduler stop_scheduler m)"
  unfolding on_scheduler_put
  using assms by (intro machine_ok_put)
    (auto simp: machine_ok_def stop_scheduler_def sched_view_def sched_inv_def sched_ok_def all_queued_def)

lemma stop_processes [simp]: "processes (on_scheduler stop_scheduler m) = processes m"
  by (simp add: on_scheduler_put stop_scheduler_def sched_view_def)

lemma all_halted_table: "allHalted (vm_table m) = all_halted m"
  by (auto simp: allHalted_iff all_halted_def processes_def all_set_conv_all_nth)

lemma sys_inv_machine: "sys_inv s \<Longrightarrow> machine_ok (sy_machine s)"
  by (simp add: sys_inv_def)

lemma sys_inv_halted: "sys_inv s \<Longrightarrow> sy_main s \<noteq> M_Wait \<Longrightarrow> all_halted (sy_machine s)"
  by (simp add: sys_inv_def)

lemma system_update:
  "s\<lparr>sy_main := a\<rparr> = \<lparr>sy_machine = sy_machine s, sy_cores = sy_cores s, sy_main = a\<rparr>"
  "s\<lparr>sy_machine := m, sy_main := a\<rparr> = \<lparr>sy_machine = m, sy_cores = sy_cores s, sy_main = a\<rparr>"
  "s\<lparr>sy_cores := cs, sy_main := a\<rparr> = \<lparr>sy_machine = sy_machine s, sy_cores = cs, sy_main = a\<rparr>"
  by simp_all

lemma sys_inv_step:
  assumes "system_step (os_syscalls fs) s s'" and "sys_inv s"
  shows "sys_inv s'"
  using assms
proof (induction rule: system_step.induct)
  case (core_moves s c l' m' notify)
  then show ?case
    using sys_inv_core_moves [of s c fs l' m' notify] by (simp add: label_of_def cores_after_def)
next
  case (main_wakes s)
  then show ?case unfolding system_update
    by (intro sys_inv_main [of s]) (simp_all add: sys_inv_machine label_of_def all_halted_table)
next
  case (main_stops s)
  then have "all_halted (on_scheduler stop_scheduler (sy_machine s))"
    using sys_inv_halted [of s] by (simp add: all_halted_def)
  with main_stops show ?case unfolding system_update
    by (intro sys_inv_main [of s]) (simp_all add: sys_inv_machine stop_machine_ok label_of_def)
next
  case (main_notifies s)
  then show ?case unfolding system_update
    by (intro sys_inv_main [of s])
      (simp_all add: sys_inv_machine sys_inv_halted label_of_def holds_wake label_ok_wake)
next
  case (main_flags s c)
  have "co_label ((sy_cores s)[c := (sy_cores s ! c)\<lparr>co_stopRequested := True\<rparr>] ! d) = label_of s d"
    if "d < length (sy_cores s)" for d
    using that by (cases "d = c") (simp_all add: label_of_def)
  with main_flags show ?case unfolding system_update
    by (intro sys_inv_main [of s]) (simp_all add: sys_inv_machine sys_inv_halted)
next
  case (main_flagged s)
  then show ?case unfolding system_update
    by (intro sys_inv_main [of s]) (simp_all add: sys_inv_machine sys_inv_halted label_of_def)
next
  case (main_joins s c)
  then show ?case unfolding system_update
    by (intro sys_inv_main [of s]) (simp_all add: sys_inv_machine sys_inv_halted label_of_def)
next
  case (main_done s)
  then show ?case unfolding system_update
    by (intro sys_inv_main [of s]) (simp_all add: sys_inv_machine sys_inv_halted label_of_def)
qed

text \<open>The state in which \<^verbatim>\<open>run\<close> is called: programs are loaded and none is running.\<close>

definition ready_to_run :: "machine \<Rightarrow> bool" where
  "ready_to_run m \<longleftrightarrow> machine_ok m \<and> (\<forall>p \<in> set (processes m). p_state p \<noteq> Running)"

lemma sys_inv_initial:
  assumes "ready_to_run m"
  shows "sys_inv (run_system n m)"
proof -
  have "\<not> has_state (on_scheduler notifyProcessReady m) k {Running}" for k
    using assms by (auto simp: has_state_def ready_to_run_def processes_on_scheduler)
  with notify_machine_ok [of m] assms show ?thesis
    by (simp add: sys_inv_def run_system_def ready_to_run_def label_of_def)
qed

lemma sys_inv_reachable:
  assumes "reachable (os_syscalls fs) n m s" and "ready_to_run m"
  shows "sys_inv s"
  using assms(1) unfolding reachable_def
  by (induction rule: rtranclp_induct) (auto intro: sys_inv_step sys_inv_initial [OF assms(2)])

section \<open>Properties of the system\<close>

inductive_cases system_stepE: "system_step syscalls s s'"

text \<open>C4: In every reachable state of the system, whatever the interleaving of the cores and of the main
  thread and whatever the processes do (loading further programs included), no two cores hold the
  same process, a process that a core holds is running or halted, every running process is held
  by a core, and the ready queue holds exactly the ready processes, each once.\<close>

theorem system_mutual_exclusion:
  assumes "reachable (os_syscalls fs) n m s" and "ready_to_run m"
  shows "(\<forall>c < length (sy_cores s). \<forall>d < length (sy_cores s). \<forall>i.
      holds (label_of s c) = Some i \<and> holds (label_of s d) = Some i \<longrightarrow> c = d) \<and>
    (\<forall>c < length (sy_cores s). \<forall>i. holds (label_of s c) = Some i \<longrightarrow>
      has_state (sy_machine s) i {Running, Halted}) \<and>
    (\<not> terminated (sy_cores s) \<longrightarrow> (\<forall>k. has_state (sy_machine s) k {Running} \<longrightarrow>
      (\<exists>c < length (sy_cores s). holds (label_of s c) = Some k))) \<and>
    distinct (readyQueue (vm_sched (sy_machine s))) \<and>
    set (readyQueue (vm_sched (sy_machine s))) = ready_ids (processes (sy_machine s))"
proof -
  have inv: "sys_inv s" using assms by (rule sys_inv_reachable)
  have q: "sched_inv (sched_view (sy_machine s))" using sys_inv_machine [OF inv] by (simp add: machine_ok_def)
  then have "distinct (readyQueue (vm_sched (sy_machine s)))"
    by (simp add: sched_inv_def sched_ok_def sched_view_def)
  moreover have "set (readyQueue (vm_sched (sy_machine s))) = ready_ids (processes (sy_machine s))"
    using q sched_inv_queue by (simp add: sched_view_def)
  moreover have "\<forall>c < length (sy_cores s). \<forall>i. holds (label_of s c) = Some i \<longrightarrow>
      has_state (sy_machine s) i {Running, Halted}"
    using inv label_ok_held unfolding sys_inv_def by blast
  ultimately show ?thesis using inv unfolding sys_inv_def by blast
qed

text \<open>C15: The main thread leaves its wait, and so stops the scheduler and the cores, only after every
  process has halted; from then on they all stay halted.\<close>

theorem shutdown_after_all_halted:
  assumes "reachable (os_syscalls fs) n m s" and "ready_to_run m" and "sy_main s \<noteq> M_Wait"
  shows "\<forall>p \<in> set (processes (sy_machine s)). p_state p = Halted"
  using sys_inv_halted [OF sys_inv_reachable [OF assms(1,2)] assms(3)]
  by (auto simp: all_halted_def in_set_conv_nth)

text \<open>C32: An exception that an instruction throws (a data access outside the segment, an unknown opcode,
  a failed system call) is caught nowhere: it ends not the process but the whole program, no other
  core and not the main thread taking a further step.\<close>

theorem uncaught_exception_ends_program:
  assumes "\<not> terminated (sy_cores s)" and "c < length (sy_cores s)" and "label_of s c = C_Execute i"
    and "mutex_free (sy_cores s)" and "executeInstruction syscalls i (sy_machine s) = (Inl e, m')"
  shows "\<exists>s'. system_step syscalls s s' \<and> label_of s' c = C_Terminated e \<and> (\<forall>s''. \<not> system_step syscalls s' s'')"
proof -
  let ?s' = "s\<lparr>sy_machine := m', sy_cores := cores_after False c (C_Terminated e) (sy_cores s)\<rparr>"
  have "core_step syscalls (co_stopRequested (sy_cores s ! c)) (co_label (sy_cores s ! c)) (sy_machine s) =
      Some (C_Terminated e, m', False)"
    using assms(3,5) by (simp add: label_of_def)
  from system_step.core_moves [OF assms(1,2) _ this] assms(4) have "system_step syscalls s ?s'"
    by (simp add: cores_after_def)
  moreover have "terminated (sy_cores ?s')" using terminated_after [OF assms(2)] by simp
  then have "\<not> system_step syscalls ?s' s''" for s'' by (auto elim: system_stepE)
  moreover have "label_of ?s' c = C_Terminated e"
    using cores_after_nth(4) [OF assms(2,2)] by (simp add: label_of_def)
  ultimately show ?thesis by blast
qed

text \<open>A system with one core, for runs that are written out.\<close>

definition one_core :: "machine \<Rightarrow> core_label \<Rightarrow> bool \<Rightarrow> main_label \<Rightarrow> system" where
  "one_core m l b main =
    \<lparr>sy_machine = m, sy_cores = [\<lparr>co_label = l, co_stopRequested = b\<rparr>], sy_main = main\<rparr>"

lemma one_core_step:
  assumes "core_step syscalls b l m = Some (l', m', notify)" and "\<And>e. l \<noteq> C_Terminated e"
    and "l \<noteq> C_Blocking \<or> \<not> takes_mutex l"
  shows "system_step syscalls (one_core m l b main) (one_core m' l' b main)"
proof -
  have "\<not> terminated (sy_cores (one_core m l b main))"
    using assms(2) by (simp add: one_core_def terminated_def split: core_label.split)
  moreover have "takes_mutex l \<longrightarrow> mutex_free (sy_cores (one_core m l b main))"
    by (cases l) (simp_all add: one_core_def mutex_free_def)
  ultimately show ?thesis
    using system_step.core_moves [of "one_core m l b main" 0 syscalls l' m' notify] assms(1)
    by (cases notify) (simp_all add: one_core_def wake_def)
qed

lemmas one_core_moves = one_core_step [where notify = False]

lemma one_core_alive: "(\<And>e. l \<noteq> C_Terminated e) \<Longrightarrow> \<not> terminated (sy_cores (one_core m l b main))"
  by (simp add: one_core_def terminated_def split: core_label.split)

text \<open>The statements of \<^verbatim>\<open>stop\<close> on a machine with one core that is at the head of its loop.\<close>

lemma one_core_stops:
  "(system_step sc)\<^sup>*\<^sup>* (one_core m (C_Head None) False M_Stop)
    (one_core (on_scheduler stop_scheduler m) C_Finished True M_Done)"
proof -
  let ?R = "(system_step sc)\<^sup>*\<^sup>*" and ?m = "on_scheduler stop_scheduler m"
  have alive: "\<And>m b main. \<not> terminated (sy_cores (one_core m (C_Head None) b main))"
    "\<And>m b main. \<not> terminated (sy_cores (one_core m C_Finished b main))" by (simp_all add: one_core_alive)
  have "?R (one_core m (C_Head None) False M_Stop) (one_core ?m (C_Head None) False M_Notify)"
    using system_step.main_stops [of "one_core m (C_Head None) False M_Stop" sc] alive by (auto simp: one_core_def)
  also have "?R \<dots> (one_core ?m (C_Head None) False (M_Flag 0))"
    using system_step.main_notifies [of "one_core ?m (C_Head None) False M_Notify" sc] alive
    by (auto simp: one_core_def wake_def)
  also have "?R \<dots> (one_core ?m (C_Head None) True (M_Flag 1))"
    using system_step.main_flags [of "one_core ?m (C_Head None) False (M_Flag 0)" 0 sc] alive by (auto simp: one_core_def)
  also have "?R \<dots> (one_core ?m (C_Head None) True (M_Join 0))"
    using system_step.main_flagged [of "one_core ?m (C_Head None) True (M_Flag 1)" sc] alive by (auto simp: one_core_def)
  also have "?R \<dots> (one_core ?m C_Finished True (M_Join 0))"
    by (intro r_into_rtranclp one_core_moves) simp_all
  also have "?R \<dots> (one_core ?m C_Finished True (M_Join 1))"
    using system_step.main_joins [of "one_core ?m C_Finished True (M_Join 0)" 0 sc] alive by (auto simp: one_core_def)
  also have "?R \<dots> (one_core ?m C_Finished True M_Done)"
    using system_step.main_done [of "one_core ?m C_Finished True (M_Join 1)" sc] alive by (auto simp: one_core_def)
  finally show ?thesis .
qed

text \<open>The main thread shuts down such a machine when its processes have halted.\<close>

lemma one_core_shutdown:
  assumes "all_halted m"
  shows "(system_step sc)\<^sup>*\<^sup>* (one_core m (C_Head None) False M_Wait)
    (one_core (on_scheduler stop_scheduler m) C_Finished True M_Done)"
proof (rule converse_rtranclp_into_rtranclp [OF _ one_core_stops])
  have "\<not> terminated (sy_cores (one_core m (C_Head None) False M_Wait))" by (simp add: one_core_alive)
  then show "system_step sc (one_core m (C_Head None) False M_Wait) (one_core m (C_Head None) False M_Stop)"
    using system_step.main_wakes [of "one_core m (C_Head None) False M_Wait" sc] assms
    by (simp add: one_core_def all_halted_table)
qed

text \<open>C35: The wake-up of \<^verbatim>\<open>stop\<close> can be lost: it stores to \<^verbatim>\<open>running_\<close> and notifies without the mutex, so a
  core that has just found its predicate false sleeps through it. The main thread then waits for
  that core for ever. Every machine whose processes have all halted can end this way.\<close>

theorem stop_can_lose_wakeup:
  assumes "machine_ok m" and "all_halted m" and "sch_running (vm_sched m)"
  shows "\<exists>s. reachable syscalls 1 m s \<and> sy_main s = M_Join 0 \<and> (\<forall>s'. \<not> system_step syscalls s s')"
proof -
  let ?m = "on_scheduler notifyProcessReady m"
  let ?m' = "on_scheduler stop_scheduler ?m"
  have "sched_inv (sched_view m)" using assms(1) by (simp add: machine_ok_def)
  then have "sched_inv (notifyProcessReady (sched_view m))"
    using sched_inv_notify [of "sched_view m"] by (simp add: sched_inv_def [of "sched_view m"])
  then have inv: "sched_inv (sched_view ?m)" by (simp add: on_scheduler_put)
  have halted: "all_halted ?m" using assms(2) by (simp add: all_halted_def processes_on_scheduler)
  have "sch_running (vm_sched ?m)"
    using assms(3) by (simp add: on_scheduler_def notifyProcessReady_def sched_view_def)
  moreover have "\<forall>p \<in> set (processes ?m). p_state p \<noteq> Ready"
    using halted by (auto simp: all_halted_def in_set_conv_nth)
  ultimately have blocked: "acquireProcess (sched_view ?m) = None"
    using acquire_waits_iff(1) [of "vm_sched ?m" "processes ?m"] inv by (simp add: sched_view_def)
  let ?R = "(system_step syscalls)\<^sup>*\<^sup>*"
  have "?R (one_core ?m (C_Head None) False M_Wait) (one_core ?m C_Acquire False M_Wait)"
    by (intro r_into_rtranclp one_core_moves) simp_all
  also have "?R \<dots> (one_core ?m C_Blocking False M_Wait)"
    using blocked by (intro r_into_rtranclp one_core_moves) simp_all
  also have "?R \<dots> (one_core ?m C_Blocking False M_Stop)"
    using system_step.main_wakes [OF one_core_alive, of C_Blocking ?m False M_Wait syscalls] halted
    by (simp add: one_core_def all_halted_table r_into_rtranclp)
  also have "?R \<dots> (one_core ?m' C_Blocking False M_Notify)"
    using system_step.main_stops [OF one_core_alive, of C_Blocking ?m False M_Stop syscalls]
    by (simp add: one_core_def r_into_rtranclp)
  also have "?R \<dots> (one_core ?m' C_Blocking False (M_Flag 0))"
    using system_step.main_notifies [OF one_core_alive, of C_Blocking ?m' False M_Notify syscalls]
    by (simp add: one_core_def wake_def r_into_rtranclp)
  also have "?R \<dots> (one_core ?m' C_Sleeping False (M_Flag 0))"
    by (intro r_into_rtranclp one_core_moves) simp_all
  also have "?R \<dots> (one_core ?m' C_Sleeping True (M_Flag 1))"
    using system_step.main_flags [OF one_core_alive, of C_Sleeping ?m' False "M_Flag 0" 0 syscalls]
    by (simp add: one_core_def r_into_rtranclp)
  also have "?R \<dots> (one_core ?m' C_Sleeping True (M_Join 0))"
    using system_step.main_flagged [OF one_core_alive, of C_Sleeping ?m' True "M_Flag 1" syscalls]
    by (simp add: one_core_def r_into_rtranclp)
  finally have "reachable syscalls 1 m (one_core ?m' C_Sleeping True (M_Join 0))"
    by (simp add: reachable_def run_system_def one_core_def)
  moreover have "\<not> system_step syscalls (one_core ?m' C_Sleeping True (M_Join 0)) s'" for s'
    by (auto simp: one_core_def elim!: system_stepE)
  moreover have "sy_main (one_core ?m' C_Sleeping True (M_Join 0)) = M_Join 0" by (simp add: one_core_def)
  ultimately show ?thesis by blast
qed

section \<open>Witnesses\<close>

lemma empty_machine_ok:
  "machine_ok (VirtualOS q input)" "ready_to_run (VirtualOS q input)" "all_halted (VirtualOS q input)"
  "sch_running (vm_sched (VirtualOS q input))"
  by (simp_all add: ready_to_run_def machine_ok_def all_halted_def VirtualOS_def table_ok_def ProcessTable_def
      sched_view_def sched_inv_def sched_ok_def all_queued_def ready_ids_def PreemptiveScheduler_def
      processes_def PhysicalMemory_def)

definition sample_pair :: "process_state \<Rightarrow> machine" where
  "sample_pair st = (VirtualOS 100 \<lparr>is_rest = [], is_fail = False\<rparr>)
     \<lparr>vm_phys := (PhysicalMemory 1048576)\<lparr>nextFreeAddress := 131072\<rparr>,
      vm_table := \<lparr>pt_processes = [setState st (ProcessControlBlock 1 ''a'' (sample_region 0)),
                                  setState st (ProcessControlBlock 2 ''b'' (sample_region 65536))], nextProcessId = 3\<rparr>,
      vm_sched := (PreemptiveScheduler 100)\<lparr>readyQueue := if st = Ready then [1, 2] else []\<rparr>\<rparr>"

lemma sample_pair_fields:
  "sch_running (vm_sched (sample_pair st))" "length (processes (sample_pair st)) = 2"
  "readyQueue (vm_sched (sample_pair st)) = (if st = Ready then [1, 2] else [])"
  by (simp_all add: sample_pair_def PreemptiveScheduler_def processes_def)

lemma sample_pair_ok:
  "machine_ok (sample_pair st)" "st \<noteq> Running \<Longrightarrow> ready_to_run (sample_pair st)" "all_halted (sample_pair Halted)"
proof -
  show ok: "machine_ok (sample_pair st)"
    by (auto simp: machine_ok_def sample_pair_def table_ok_def sched_view_def sched_inv_def sched_ok_def
        all_queued_def ready_ids_def PreemptiveScheduler_def processes_def PhysicalMemory_def ProcessControlBlock_def
        setState_def upt_rec intro: exI [of _ "setState st (ProcessControlBlock 1 ''a'' (sample_region 0))"]
        exI [of _ "setState st (ProcessControlBlock 2 ''b'' (sample_region 65536))"])
  show "st \<noteq> Running \<Longrightarrow> ready_to_run (sample_pair st)"
    using ok by (simp add: ready_to_run_def) (simp add: sample_pair_def processes_def setState_def)
  show "all_halted (sample_pair Halted)"
    by (simp add: all_halted_def sample_pair_def processes_def setState_def nth_Cons split: nat.split)
qed

lemma sample_pair_acquire:
  "\<exists>s. acquireProcess (sched_view (on_scheduler notifyProcessReady (sample_pair Ready))) = Some (Some 0, s)"
  by (simp add: on_scheduler_def notifyProcessReady_def sched_view_def sample_pair_def processes_def
      acquireProcess_def acquire_ready_def pickNextProcess_def PreemptiveScheduler_def ProcessControlBlock_def
      setState_def first_index.simps upt_rec split: prod.split)

theorem system_mutual_exclusion_witness:
  "\<exists>s. reachable (os_syscalls (\<lambda>_. None)) 1 (sample_pair Ready) s \<and> holds (label_of s 0) = Some 0 \<and>
     has_state (sy_machine s) 0 {Running, Halted} \<and>
     set (readyQueue (vm_sched (sy_machine s))) = ready_ids (processes (sy_machine s))"
proof -
  let ?sc = "os_syscalls (\<lambda>_. None)"
  let ?m = "on_scheduler notifyProcessReady (sample_pair Ready)"
  let ?R = "(system_step ?sc)\<^sup>*\<^sup>*"
  obtain sch ps where "acquireProcess (sched_view ?m) = Some (Some 0, sch, ps)"
    using sample_pair_acquire by (metis prod.collapse)
  then have step: "core_step ?sc False C_Acquire ?m =
      Some (C_Check 0, ?m\<lparr>vm_sched := sch, vm_table := (vm_table ?m)\<lparr>pt_processes := ps\<rparr>\<rparr>, False)"
    (is "_ = Some (_, ?m', _)") by simp
  have "?R (one_core ?m (C_Head None) False M_Wait) (one_core ?m C_Acquire False M_Wait)"
    by (intro r_into_rtranclp one_core_moves) simp_all
  also have "?R \<dots> (one_core ?m' (C_Check 0) False M_Wait)"
    by (intro r_into_rtranclp one_core_moves [OF step]) simp_all
  finally have r: "reachable ?sc 1 (sample_pair Ready) (one_core ?m' (C_Check 0) False M_Wait)" (is "reachable _ _ _ ?s")
    by (simp add: reachable_def run_system_def one_core_def)
  have "ready_to_run (sample_pair Ready)" by (rule sample_pair_ok) simp
  note inv = system_mutual_exclusion [OF r this]
  have held: "holds (label_of ?s 0) = Some 0" "0 < length (sy_cores ?s)" by (simp_all add: label_of_def one_core_def)
  with inv have "has_state (sy_machine ?s) 0 {Running, Halted}" by blast
  with r held inv show ?thesis by blast
qed

theorem stop_can_lose_wakeup_witness:
  "\<exists>s. reachable (os_syscalls (\<lambda>_. None)) 1 (sample_pair Halted) s \<and> sy_main s = M_Join 0 \<and>
     (\<forall>s'. \<not> system_step (os_syscalls (\<lambda>_. None)) s s')"
  by (rule stop_can_lose_wakeup) (rule sample_pair_ok sample_pair_fields)+

theorem shutdown_after_all_halted_witness:
  "list_all (\<lambda>p. p_state p = Halted) (processes (sy_machine (one_core (on_scheduler notifyProcessReady
     (sample_pair Halted)) (C_Head None) False M_Stop)))"
proof -
  let ?m = "sample_pair Halted"
  let ?m1 = "on_scheduler notifyProcessReady ?m"
  have "all_halted ?m1"
    using sample_pair_ok(3) by (simp add: all_halted_def processes_on_scheduler)
  then have "system_step (os_syscalls (\<lambda>_. None)) (one_core ?m1 (C_Head None) False M_Wait) (one_core ?m1 (C_Head None) False M_Stop)"
    using system_step.main_wakes [OF one_core_alive, of "C_Head None" ?m1 False M_Wait "os_syscalls (\<lambda>_. None)"]
    by (simp add: one_core_def all_halted_table)
  then have "reachable (os_syscalls (\<lambda>_. None)) 1 ?m (one_core ?m1 (C_Head None) False M_Stop)"
    by (simp add: reachable_def run_system_def one_core_def r_into_rtranclp)
  moreover have "ready_to_run ?m" by (rule sample_pair_ok) simp
  ultimately show ?thesis using shutdown_after_all_halted by (simp add: one_core_def list_all_iff)
qed

theorem uncaught_exception_ends_program_witness:
  "\<exists>s'. system_step (handle_syscall None)
       (one_core (sample_machine (encodeInstruction OP_LOAD 0 0 0 8)) (C_Execute 0) False M_Wait) s' \<and>
     label_of s' 0 = C_Terminated (segment_error ''data'' 8) \<and> (\<forall>s''. \<not> system_step (handle_syscall None) s' s'')"
proof -
  let ?m = "sample_machine (encodeInstruction OP_LOAD 0 0 0 8)"
  let ?i = "decodeInstruction (encodeInstruction OP_LOAD 0 0 0 8)"
  have d: "d_opcode ?i = OP_LOAD" "d_imm ?i = 8"
    using opcode_of_byte_byte [of OP_LOAD] signed_take_bit_12_id [of 8] by (simp_all add: decode_encode)
  have l: "unat (ml_dataSize (p_memory (processes ?m ! 0))) = 8" "vm_tracer ?m = None"
    by (simp_all add: sample_machine_simps)
  have "fst (registry_execute ?i (execution_context 0 ?m)) = Inl (segment_error ''data'' 8)"
    using registry_load [OF decoded_ok_decode d(1), of "execution_context 0 ?m"] d(2) l
      sample_machine_layouts(2) [of "encodeInstruction OP_LOAD 0 0 0 8"]
    by (simp add: execution_context_def)
  then obtain c where "registry_execute ?i (execution_context 0 ?m) = (Inl (segment_error ''data'' 8), c)"
    by (metis prod.collapse)
  then obtain m' where "executeInstruction (handle_syscall None) 0 ?m = (Inl (segment_error ''data'' 8), m')"
    using d(1) l(2) by (simp add: executeInstruction_fetched(1) [OF fetched_sample] execute_fetched_def
        trace_instruction_def run_handler_def vm_run)
  then show ?thesis
    using uncaught_exception_ends_program [of "one_core ?m (C_Execute 0) False M_Wait" 0 0 "handle_syscall None"
        "segment_error ''data'' 8" m']
    by (simp add: one_core_def label_of_def mutex_free_def terminated_def)
qed

end
