(* ===== verification/Core_Turn.thy ===== *)
theory Core_Turn
  imports System
begin

text \<open>
  What a core does with the process it holds, from taking it to giving it back: which steps of the
  loop halt a process, which leave the program of a process as it was, what every step keeps of the
  types of the machine, and why a turn of a core ends.
\<close>

section \<open>Halting\<close>

text \<open>A process has ended when the loop of a core will not execute it again.\<close>

definition ended :: "machine \<Rightarrow> pcb_ref \<Rightarrow> bool" where
  "ended m i \<longleftrightarrow> p_state (processes m ! i) = Halted \<or> cx_halted (p_context (processes m ! i))"

text \<open>Handlers but that of \<^verbatim>\<open>HALT\<close> do not touch the flag of the context.\<close>

definition same_halted :: "exec_context \<Rightarrow> exec_context \<Rightarrow> bool" where
  "same_halted c c' \<longleftrightarrow> cx_halted (ec_cpu c') = cx_halted (ec_cpu c)"

interpretation halted_fr: frame_relation same_halted
  by unfold_locales (simp_all add: same_halted_def)

lemma halted_primitives:
  "respecting same_halted (get_register k)" "respecting same_halted (set_register k v)"
  "respecting same_halted (on_registers f)" "respecting same_halted (setExecutionError msg)"
  "respecting same_halted (on_memory mem)" "respecting same_halted (on_stack stk)"
  unfolding get_register_def set_register_def on_registers_def setExecutionError_def on_memory_def on_stack_def
  by (auto simp: same_halted_def with_registers_def vread_def vupdate_def vmodify_def
      intro!: respectsI split: sum.splits prod.split option.split)

lemma halted_helpers:
  "respecting same_halted (readOperand i)" "respecting same_halted advance_and_continue"
  "respecting same_halted body \<Longrightarrow> respecting same_halted rest \<Longrightarrow> respecting same_halted (try_stack body rest)"
  by (auto simp: readOperand_def advance_and_continue_def try_stack_def
      intro!: halted_fr.respects_intros halted_primitives)

lemma halted_handlers:
  assumes "default_handlers op = Some h" and "op \<noteq> OP_HALT"
  shows "respecting same_halted (h i)"
  using assms by (cases op) (auto simp: register_handlers_defs handler_defs Let_def
      intro!: halted_fr.respects_intros halted_primitives halted_helpers)

lemma registry_halted:
  assumes "registry_execute i c = (Inr r, c')" and "r \<noteq> ER_Halt"
  shows "cx_halted (ec_cpu c') = cx_halted (ec_cpu c)"
proof (cases "d_opcode i = OP_HALT")
  case True
  with assms show ?thesis
    by (auto simp: registry_execute_def register_handlers_defs handle_HALT_def vm_run)
next
  case False
  then have "respecting same_halted (registry_execute i)"
    by (auto simp: registry_execute_def intro: halted_handlers halted_fr.respects_intros split: option.split)
  with assms(1) show ?thesis by (auto dest: respectsD simp: same_halted_def)
qed

text \<open>The same for the operations of the machine.\<close>

definition end_frame :: "pcb_ref \<Rightarrow> machine \<Rightarrow> machine \<Rightarrow> bool" where
  "end_frame i m m' \<longleftrightarrow> (i < length (processes m) \<longrightarrow> i < length (processes m') \<and> ended m' i = ended m i)"

interpretation end_fr: frame_relation "end_frame i" for i
  by unfold_locales (auto simp: end_frame_def)

lemma end_frame_process:
  assumes "\<And>p. (p_state (f p) = Halted \<or> cx_halted (p_context (f p))) = (p_state p = Halted \<or> cx_halted (p_context p))"
  shows "end_frame i m (on_process k f m)"
  using assms by (auto simp: end_frame_def ended_def frame_simps nth_update_process)

lemma end_frame_table:
  "(\<And>m. processes (f m) = processes m) \<Longrightarrow> respecting (end_frame i) (vmodify f)"
  by (rule respects_modify) (simp add: end_frame_def ended_def)

lemma end_frame_memory: "respecting (end_frame i) (process_memory k op)"
  by (rule respectsI) (simp add: process_memory_def end_frame_def ended_def processes_fields split: prod.split)

lemma end_frame_read_path: "respecting (end_frame i) (read_path n k a)"
  by (induction n arbitrary: a) (auto intro!: end_fr.respects_intros end_frame_memory)

lemma end_frame_other:
  assumes "\<And>k. respecting (machine_frame k) op"
  shows "respecting (end_frame i) op"
proof (rule respectsI)
  fix m
  have "machine_frame (Suc i) m (snd (op m))"
    using assms [of "Suc i"] by (simp add: respecting_def)
  then show "end_frame i m (snd (op m))" by (auto simp: machine_frame_def end_frame_def ended_def)
qed

lemma end_frame_context:
  "(\<And>c. cx_halted (f c) = cx_halted c) \<Longrightarrow> respecting (end_frame i) (on_process_context k f)"
  unfolding on_process_context_def
  by (intro respects_modify end_frame_process) (simp add: pcb_defs)

lemma end_frame_trace: "respecting (end_frame i) (trace_instruction k pc insn)"
  unfolding trace_instruction_def
  by (rule end_frame_table) (simp split: option.split)

lemma end_frame_call:
  assumes "callback_framed loadCallback" and "sc \<noteq> SYS_Exit"
  shows "respecting (end_frame i) (handle_syscall loadCallback sc k a)"
proof (cases sc)
  case SYS_Yield
  have "respecting (end_frame i) (vmodify (on_process k (on_context (setShouldYield True))))"
    by (intro respects_modify end_frame_process) (simp add: pcb_defs setShouldYield_def)
  with SYS_Yield show ?thesis by (simp add: syscall_yield_def)
next
  case SYS_Load
  moreover have "respecting (end_frame i) (load path)" if "loadCallback = Some load" for load path
    using assms that by (intro end_frame_other) (simp add: callback_framed_def)
  ultimately show ?thesis
    by (auto simp: syscall_load_def intro!: end_fr.respects_intros end_frame_read_path split: option.split)
qed (use assms in \<open>auto simp: syscall_print_def syscall_scan_def processes_fields
      intro!: end_fr.respects_intros end_frame_memory end_frame_table split: prod.split\<close>)

lemma end_frame_handler:
  assumes "run_handler i insn m = (Inr r, m')" and "r \<noteq> ER_Halt"
  shows "end_frame i m m'"
proof -
  obtain c where rc: "registry_execute insn (execution_context i m) = (Inr r, c)" and m': "m' = write_context i c m"
    using assms(1) by (auto simp: run_handler_def split: prod.splits)
  from registry_halted [OF rc assms(2)]
  show ?thesis
    by (auto simp: m' end_frame_def ended_def write_context_def frame_simps processes_fields nth_update_process
        execution_context_def)
qed

text \<open>Only an instruction that returns \<^verbatim>\<open>Halt\<close> ends its process.\<close>

lemma advance_halted: "cx_halted (advance_context c) = cx_halted c" "cx_halted (use_time_slice c) = cx_halted c"
  by (simp_all add: advance_context_def use_time_slice_def setTimeSliceLeft_def)

lemma instruction_ends:
  assumes "executeInstruction (handle_syscall loadCallback) i m = (Inr r, m')"
    and "callback_framed loadCallback" and "i < length (processes m)" and "r \<noteq> ER_Halt"
  shows "ended m' i = ended m i"
proof -
  obtain insn where f: "fetched i m = Some insn"
    using executeInstruction_fetched(2) [of i m "handle_syscall loadCallback"] assms(1) by fastforce
  obtain m1 where t: "trace_instruction i (rf_pc (registers_of i m)) insn m = (Inr (), m1)"
    by (simp add: trace_instruction_def vmodify_def)
  have e1: "end_frame i m m1" using end_frame_trace t by (rule respectsD)
  have x: "execute_fetched (handle_syscall loadCallback) i insn m1 = (Inr r, m')"
    using assms(1) executeInstruction_fetched(1) [OF f, of "handle_syscall loadCallback"] t by (simp add: vm_run)
  note ctx = end_frame_context [of advance_context, OF advance_halted(1)] end_frame_context [of use_time_slice, OF advance_halted(2)]
  have "end_frame i m1 m'"
  proof (cases "d_opcode insn = OP_CALL")
    case True
    let ?sc = "syscall_of_number (ucast (d_rs1 insn))"
    have "?sc \<noteq> SYS_Exit"
      using x True assms(4) by (auto simp: execute_fetched_def execute_call_def Let_def vm_run split: sum.splits prod.splits)
    then have "respecting (end_frame i) (execute_call (handle_syscall loadCallback) i insn)"
      unfolding execute_call_def Let_def
      by (auto intro!: end_fr.respects_intros end_frame_call assms(2) ctx simp del: handle_syscall.simps)
    with x True show ?thesis by (auto simp: execute_fetched_def dest: respectsD)
  next
    case False
    with x obtain m2 where h: "run_handler i insn m1 = (Inr r, m2)" and u: "on_process_context i use_time_slice m2 = (Inr (), m')"
      by (auto simp: execute_fetched_def vm_run on_process_context_def split: sum.splits prod.splits)
    from end_frame_handler [OF h assms(4)] respectsD [OF ctx(2) u] show ?thesis by (rule end_fr.frame_trans)
  qed
  with e1 have "end_frame i m m'" by (rule end_fr.frame_trans)
  with assms(3) show ?thesis by (simp add: end_frame_def)
qed

section \<open>Steps that execute nothing\<close>

text \<open>What the program of a process consists of stays: its registers, its memory and its last error.\<close>

definition same_program :: "pcb \<Rightarrow> pcb \<Rightarrow> bool" where
  "same_program p p' \<longleftrightarrow> p_id p' = p_id p \<and> p_memory p' = p_memory p \<and> p_lastError p' = p_lastError p \<and>
    cx_registers (p_context p') = cx_registers (p_context p)"

definition quiet :: "machine \<Rightarrow> machine \<Rightarrow> bool" where
  "quiet m m' \<longleftrightarrow> vm_phys m' = vm_phys m \<and> vm_out m' = vm_out m \<and> vm_in m' = vm_in m \<and>
    list_all2 same_program (processes m) (processes m')"

lemma same_program_refl [simp]: "same_program p p"
  by (simp add: same_program_def)

interpretation quiet_fr: frame_relation quiet
proof unfold_locales
  show "quiet m m" for m by (simp add: quiet_def list_all2_refl)
  show "quiet m m' \<Longrightarrow> quiet m' m'' \<Longrightarrow> quiet m m''" for m m' m''
    using list_all2_trans [of same_program same_program same_program "processes m" "processes m'" "processes m''"]
    by (simp add: quiet_def) (simp add: same_program_def)
qed

lemma quiet_update_process:
  assumes "\<And>p. same_program p (f p)"
  shows "list_all2 same_program ps (update_process i f ps)"
proof (rule list_all2_all_nthI)
  show "same_program (ps ! n) (update_process i f ps ! n)" if "n < length ps" for n
    using that assms by (simp add: nth_update_process)
qed simp

lemma quiet_process: "(\<And>p. same_program p (f p)) \<Longrightarrow> quiet m (on_process i f m)"
  by (simp add: quiet_def frame_simps quiet_update_process)

lemma quiet_put:
  "list_all2 same_program (processes m) (snd s) \<Longrightarrow> quiet m (put_sched s m)"
  by (simp add: quiet_def) (simp add: put_sched_def)

lemma quiet_pick:
  assumes "pickNextProcess (sch, ps) = (r, s')"
  shows "list_all2 same_program ps (snd s')"
proof -
  have "list_all2 same_program ps (update_process i (dispatch q) ps)" for i q
    by (rule quiet_update_process) (simp add: same_program_def dispatch_def pcb_defs resetTimeSlice_def)
  with assms show ?thesis
    by (auto simp: pickNextProcess_def Let_def list_all2_refl split: prod.splits option.splits)
qed

lemma quiet_acquire:
  "acquireProcess (sched_view m) = Some (r, s) \<Longrightarrow> quiet m (put_sched s m)"
  using quiet_pick [of "vm_sched m" "processes m" r s]
  by (auto simp: acquireProcess_def sched_view_def list_all2_refl split: if_splits intro!: quiet_put)

lemma quiet_scheduler:
  "quiet m (on_scheduler notifyProcessReady m)" "quiet m (on_scheduler onCoreIdle m)"
  "quiet m (on_scheduler (onPreempt i) m)" "quiet m (on_scheduler stop_scheduler m)"
  by (auto simp: on_scheduler_put sched_view_def notifyProcessReady_def onCoreIdle_def onPreempt_def stop_scheduler_def
      list_all2_refl same_program_def pcb_defs intro!: quiet_put quiet_update_process)

lemma quiet_release: "quiet m (releaseProcess i preempt m)"
proof -
  have "quiet m (on_process i (setState s) m)" for s
    by (rule quiet_process) (simp add: same_program_def pcb_defs)
  then show ?thesis
    using quiet_fr.frame_trans [OF _ quiet_scheduler(1)] quiet_scheduler by (simp add: releaseProcess_def)
qed

lemma quiet_decide: "decide i r m = (l', m') \<Longrightarrow> quiet m m'"
proof -
  have p: "quiet m (on_process i f m)" if "f = setState Halted \<or> f = on_context (setShouldYield False)" for f m
    by (rule quiet_process) (use that in \<open>auto simp: same_program_def pcb_defs setShouldYield_def\<close>)
  have "quiet m (m\<lparr>vm_err := e\<rparr>)" for e by (simp add: quiet_def processes_fields list_all2_refl)
  moreover have "quiet m (on_process i (\<lambda>p. on_context (setHalted True) (setState Halted p)) m)" for m
    by (rule quiet_process) (simp add: same_program_def pcb_defs setHalted_def)
  ultimately have "quiet m (on_process i (\<lambda>p. on_context (setHalted True) (setState Halted p)) (m\<lparr>vm_err := e\<rparr>))" for e
    by (rule quiet_fr.frame_trans)
  with p show "decide i r m = (l', m') \<Longrightarrow> quiet m m'"
    by (auto simp: decide_def Let_def quiet_fr.frame_refl split: if_splits)
qed

lemma put_acquire: "m\<lparr>vm_sched := sch, vm_table := (vm_table m)\<lparr>pt_processes := ps\<rparr>\<rparr> = put_sched (sch, ps) m"
  by (simp add: put_sched_def)

text \<open>All steps of a core but the execution of an instruction.\<close>

lemma quiet_step:
  assumes "core_step syscalls stop l m = Some (l', m', notify)" and "\<And>i. l \<noteq> C_Execute i"
  shows "quiet m m'"
proof (cases l)
  case C_Acquire
  with assms(1) show ?thesis
    by (auto simp: put_acquire quiet_fr.frame_refl split: option.splits intro: quiet_acquire)
next
  case (C_Decide i r)
  with assms(1) show ?thesis by (auto split: prod.splits dest: quiet_decide)
qed (use assms in \<open>auto simp: quiet_fr.frame_refl quiet_scheduler quiet_release split: if_splits\<close>)

text \<open>Of these steps only the decision about a halted or failed process ends one.\<close>

definition same_end :: "pcb \<Rightarrow> pcb \<Rightarrow> bool" where
  "same_end p p' \<longleftrightarrow> (p_state p' = Halted \<longleftrightarrow> p_state p = Halted) \<and> cx_halted (p_context p') = cx_halted (p_context p)"

lemma same_end_refl [simp]: "same_end p p"
  by (simp add: same_end_def)

lemma ended_same: "same_end (processes m ! k) (processes m' ! k) \<Longrightarrow> ended m' k = ended m k"
  by (simp add: same_end_def ended_def)

lemma ends_scheduler:
  "same_end (processes m ! k) (processes (on_scheduler notifyProcessReady m) ! k)"
  "same_end (processes m ! k) (processes (on_scheduler onCoreIdle m) ! k)"
  "same_end (processes m ! k) (processes (on_scheduler stop_scheduler m) ! k)"
  by (simp_all add: on_scheduler_put sched_view_def notifyProcessReady_def onCoreIdle_def stop_scheduler_def)

lemma ends_acquire:
  assumes "sched_inv (sched_view m)" and "acquireProcess (sched_view m) = Some (r, s)"
  shows "same_end (processes m ! k) (snd s ! k)"
proof -
  from assms have "sched_ok (vm_sched m, processes m)" "acquireProcess (vm_sched m, processes m) = Some (r, s)"
    by (simp_all add: sched_inv_def sched_view_def)
  then show ?thesis
  proof (cases rule: acquire_cases)
    case (head i queue)
    then show ?thesis
      by (cases "k = i") (simp_all add: update_process_def same_end_def dispatch_def pcb_defs resetTimeSlice_def)
  qed simp
qed

lemma ends_release:
  assumes "i < length (processes m)"
  shows "same_end (processes m ! k) (processes (releaseProcess i preempt m) ! k)"
proof (cases "p_state (processes m ! i) = Halted")
  case True
  then show ?thesis by (simp add: releaseProcess_def ends_scheduler)
next
  case False
  with assms show ?thesis
    by (cases "k = i")
      (simp_all add: releaseProcess_def on_scheduler_put sched_view_def notifyProcessReady_def onPreempt_def
        same_end_def update_process_def pcb_defs frame_simps)
qed

lemma ends_decide:
  assumes "decide i r m = (l', m')" and "k < length (processes m)" and "i < length (processes m)"
  shows "ended m' k \<longleftrightarrow> ended m k \<or> k = i \<and> (r = ER_Halt \<or> r = ER_Error)"
  using assms
  by (auto simp: decide_def Let_def ended_def frame_simps nth_update_process pcb_defs setHalted_def
      setShouldYield_def processes_fields split: if_splits)

lemma quiet_ends:
  assumes "core_step syscalls stop l m = Some (l', m', notify)" and "\<And>i. l \<noteq> C_Execute i"
    and "machine_ok m" and "label_ok m l" and "k < length (processes m)"
  shows "ended m' k \<longleftrightarrow> ended m k \<or> l = C_Decide k ER_Halt \<or> l = C_Decide k ER_Error"
proof (cases l)
  case C_Acquire
  have inv: "sched_inv (sched_view m)" using assms(3) by (simp add: machine_ok_def)
  show ?thesis
  proof (cases "acquireProcess (sched_view m)")
    case None
    with assms(1) C_Acquire show ?thesis by simp
  next
    case (Some rs)
    then have "ended (put_sched (snd rs) m) k = ended m k"
      using ends_acquire [OF inv, of "fst rs" "snd rs" k] by (intro ended_same) simp
    with Some assms(1) C_Acquire show ?thesis by (auto simp: put_acquire split: prod.splits)
  qed
next
  case (C_Decide i r)
  with assms(4) have "i < length (processes m)" by (simp add: has_state_def)
  with assms(1,5) C_Decide ends_decide [of i r m] show ?thesis by (auto split: prod.splits)
next
  case (C_Release i p cb)
  with assms(4) have "i < length (processes m)" by (simp add: has_state_def)
  then have "ended (releaseProcess i p m) k = ended m k" by (intro ended_same ends_release)
  with assms(1) C_Release show ?thesis by (auto split: if_splits)
next
  case C_Idle
  with assms(1) ended_same [OF ends_scheduler(2)] show ?thesis by (auto split: if_splits)
qed (use assms in \<open>auto split: if_splits\<close>)

section \<open>Types of the machine\<close>

text \<open>
  Every process has sixteen registers and a region of the default size with a stack of the default size; the
  regions lie in the physical memory below the next free address, one behind the other.
\<close>

definition process_typed :: "pcb \<Rightarrow> bool" where
  "process_typed p \<longleftrightarrow> regs_ok (cx_registers (p_context p)) \<and> ml_codeOffset (p_memory p) = 0 \<and>
    ml_stackSize (p_memory p) = kStackSize \<and> ml_totalSize (p_memory p) = kDefaultProcessMemorySize"

definition region_base :: "machine \<Rightarrow> pcb_ref \<Rightarrow> nat" where
  "region_base m k = unat (ml_base (p_memory (processes m ! k)))"

definition regions_ok :: "machine \<Rightarrow> bool" where
  "regions_ok m \<longleftrightarrow> unat (nextFreeAddress (vm_phys m)) \<le> unat (pm_size (vm_phys m)) \<and>
    unat (pm_size (vm_phys m)) < 2 ^ 32 \<and>
    (\<forall>k < length (processes m). process_typed (processes m ! k) \<and>
       region_base m k + 65536 \<le> unat (nextFreeAddress (vm_phys m)) \<and>
       (\<forall>j < k. region_base m j + 65536 \<le> region_base m k))"

definition keeps_types :: "machine \<Rightarrow> machine \<Rightarrow> bool" where
  "keeps_types m m' \<longleftrightarrow> (regions_ok m \<longrightarrow> regions_ok m')"

interpretation types_fr: frame_relation keeps_types
  by unfold_locales (simp_all add: keeps_types_def)

text \<open>A change that keeps the memory layout of every process and the size of its register file.\<close>

definition same_types :: "pcb \<Rightarrow> pcb \<Rightarrow> bool" where
  "same_types p p' \<longleftrightarrow> p_memory p' = p_memory p \<and>
    (regs_ok (cx_registers (p_context p)) \<longrightarrow> regs_ok (cx_registers (p_context p')))"

lemma same_types_refl [simp]: "same_types p p"
  by (simp add: same_types_def)

lemma keeps_types_same:
  assumes "list_all2 same_types (processes m) (processes m')"
    and "pm_size (vm_phys m') = pm_size (vm_phys m)" and "nextFreeAddress (vm_phys m') = nextFreeAddress (vm_phys m)"
  shows "keeps_types m m'"
proof -
  have "length (processes m') = length (processes m)" using assms(1) by (simp add: list_all2_lengthD)
  moreover have "same_types (processes m ! k) (processes m' ! k)" if "k < length (processes m)" for k
    using assms(1) that by (rule list_all2_nthD)
  ultimately show ?thesis
    using assms(2,3) by (auto simp: keeps_types_def regions_ok_def region_base_def process_typed_def same_types_def)
qed

lemma keeps_types_process:
  assumes "\<And>p. same_types p (f p)"
  shows "keeps_types m (on_process i f m)"
proof (rule keeps_types_same)
  show "list_all2 same_types (processes m) (processes (on_process i f m))"
    using assms by (auto simp: frame_simps nth_update_process intro!: list_all2_all_nthI)
qed (simp_all add: frame_simps)

lemma keeps_types_fields:
  "processes m' = processes m \<Longrightarrow> pm_size (vm_phys m') = pm_size (vm_phys m) \<Longrightarrow>
     nextFreeAddress (vm_phys m') = nextFreeAddress (vm_phys m) \<Longrightarrow> keeps_types m m'"
  by (rule keeps_types_same) (simp_all add: list_all2_refl)

lemma keeps_types_quiet:
  assumes "quiet m m'"
  shows "keeps_types m m'"
proof (rule keeps_types_same)
  have "list_all2 same_program (processes m) (processes m')" using assms by (simp add: quiet_def)
  then show "list_all2 same_types (processes m) (processes m')"
    by (rule list_all2_mono) (simp add: same_program_def same_types_def)
qed (use assms in \<open>simp_all add: quiet_def\<close>)

lemma keeps_types_memory:
  assumes "\<And>l pm. pm_size (snd (op l pm)) = pm_size pm"
    and "\<And>l pm. nextFreeAddress (snd (op l pm)) = nextFreeAddress pm"
  shows "respecting keeps_types (process_memory k op)"
proof (rule respectsI)
  fix m
  obtain r pm where "op (p_memory (processes m ! k)) (vm_phys m) = (r, pm)" by (metis prod.exhaust)
  with assms [of "p_memory (processes m ! k)" "vm_phys m"] show "keeps_types m (snd (process_memory k op m))"
    by (auto simp: process_memory_def processes_fields intro: keeps_types_fields)
qed

lemma types_memory_ops:
  "respecting keeps_types (process_memory k (\<lambda>l. readDataWord l a))"
  "respecting keeps_types (process_memory k (\<lambda>l. readDataByte l a))"
  "respecting keeps_types (process_memory k (\<lambda>l. readCodeWord l a))"
  "respecting keeps_types (process_memory k (\<lambda>l. writeDataWord l a v))"
  using writeDataWord_sizes
  by (auto intro!: keeps_types_memory simp: readDataWord_keeps readDataByte_keeps readCodeWord_keeps)
    (metis prod.collapse)+

lemma types_read_path: "respecting keeps_types (read_path n k a)"
  by (induction n arbitrary: a) (auto intro!: types_fr.respects_intros types_memory_ops)

lemma types_streams:
  "respecting keeps_types (vmodify (\<lambda>m. m\<lparr>vm_out := f m\<rparr>))"
  "respecting keeps_types (vmodify (\<lambda>m. m\<lparr>vm_in := g m\<rparr>))"
  by (auto intro!: respects_modify keeps_types_fields simp: processes_fields)

text \<open>Loading, which adds a region at the next free address.\<close>

lemma load_image_layout:
  assumes "load_image p pm = (Inr l, pm')"
  shows "l = load_layout (nextFreeAddress pm) p"
proof -
  from assms obtain a pm1 where "allocateRegion (ml_totalSize MemoryRegionLayout) pm = (Inr a, pm1)" "l = load_layout a p"
    by (auto simp: load_image_def vbind_Inr vseq_def vreturn_def Let_def)
  then show ?thesis by (auto simp: allocateRegion_def Let_def vm_run split: if_splits)
qed

lemma regions_ok_add:
  assumes "regions_ok m" and "load_image p (vm_phys m) = (Inr l, pm)"
    and "processes m' = processes m @ [new_process pid name l q]" and "vm_phys m' = pm"
  shows "regions_ok m'"
proof -
  let ?n = "length (processes m)" and ?f = "unat (nextFreeAddress (vm_phys m))"
  have small: "unat (pm_size (vm_phys m)) < 2 ^ 32" "?f \<le> unat (pm_size (vm_phys m))"
    using assms(1) by (simp_all add: regions_ok_def)
  from load_image_allocation [OF assms(2) small] have f: "unat (nextFreeAddress pm) = ?f + 65536"
    "pm_size pm = pm_size (vm_phys m)" "unat (nextFreeAddress pm) \<le> unat (pm_size (vm_phys m))" by auto
  have l: "l = load_layout (nextFreeAddress (vm_phys m)) p" using assms(2) by (rule load_image_layout)
  have new: "process_typed (processes m' ! ?n)" "region_base m' ?n = ?f"
    using assms(3) by (simp_all add: process_typed_def region_base_def frame_simps)
      (simp_all add: l load_layout_def MemoryRegionLayout_def Let_def)
  have old: "processes m' ! k = processes m ! k" "region_base m' k = region_base m k" if "k < ?n" for k
    using that assms(3) by (simp_all add: nth_append region_base_def)
  have "process_typed (processes m' ! k) \<and> region_base m' k + 65536 \<le> unat (nextFreeAddress pm) \<and>
      (\<forall>j < k. region_base m' j + 65536 \<le> region_base m' k)" if "k < Suc ?n" for k
  proof (cases "k = ?n")
    case True
    with assms(1) new old f(1) show ?thesis by (auto simp: regions_ok_def)
  next
    case False
    with that have k: "k < ?n" by simp
    with assms(1) have "region_base m k + 65536 \<le> ?f" by (simp add: regions_ok_def)
    then have "region_base m k \<le> ?f" by simp
    with k assms(1) old f(1) show ?thesis by (simp add: regions_ok_def)
  qed
  then show ?thesis using assms(3,4) f small by (simp add: regions_ok_def)
qed

lemma types_load_source: "respecting keeps_types (loadProgramFromSource source name)"
proof (rule respectsI)
  fix m
  obtain r m' where l: "loadProgramFromSource source name m = (r, m')" by (metis prod.exhaust)
  show "keeps_types m (snd (loadProgramFromSource source name m))"
  proof (cases r)
    case (Inr pid)
    with loadProgramFromSource_ok [of source name m pid m'] l obtain p lay pm where
      "load_image p (vm_phys m) = (Inr lay, pm)" "vm_phys m' = pm"
      "processes m' = processes m @ [new_process pid name lay (sch_quantum (vm_sched m))]" by auto
    with l show ?thesis using regions_ok_add by (auto simp: keeps_types_def)
  next
    case (Inl e)
    show ?thesis
    proof (cases "assemble source")
      case (Inl e')
      with l show ?thesis by (auto simp: loadProgramFromSource_def lift_result_def vm_run types_fr.frame_refl)
    next
      case asm: (Inr p)
      obtain q pm where i: "load_image p (vm_phys m) = (q, pm)" by (metis prod.exhaust)
      with l asm \<open>r = Inl e\<close> have "m' = m\<lparr>vm_phys := pm\<rparr>"
        by (auto simp: loadProgramFromSource_def lift_result_def vm_run createProcess_def on_phys_def
            add_process_def nextId_def emplace_def Let_def split: sum.splits)
      with l load_image_allocation [OF i] show ?thesis
        by (auto simp: keeps_types_def regions_ok_def region_base_def processes_fields)
    qed
  qed
qed

lemma types_load: "respecting keeps_types (loadProgram fs path)"
  by (auto simp: loadProgram_def intro!: types_load_source types_fr.respects_throw split: option.split)

lemma types_syscall: "respecting keeps_types (os_syscalls fs sc i a)"
  unfolding os_syscalls_def
proof (cases sc)
  case SYS_Exit
  have "respecting keeps_types (vmodify (on_process i (\<lambda>p. on_context (setHalted True) (setState Halted p))))"
    by (intro respects_modify keeps_types_process) (simp add: same_types_def pcb_defs setHalted_def)
  with SYS_Exit show "respecting keeps_types (handle_syscall (Some (loadProgram fs)) sc i a)"
    by (simp add: syscall_exit_def)
next
  case SYS_Yield
  have "respecting keeps_types (vmodify (on_process i (on_context (setShouldYield True))))"
    by (intro respects_modify keeps_types_process) (simp add: same_types_def pcb_defs setShouldYield_def)
  with SYS_Yield show "respecting keeps_types (handle_syscall (Some (loadProgram fs)) sc i a)"
    by (simp add: syscall_yield_def)
qed (auto simp: syscall_print_def syscall_scan_def syscall_load_def intro!: types_fr.respects_intros
      types_memory_ops types_streams types_read_path types_load split: prod.split)

lemma types_context:
  "(\<And>c. regs_ok (cx_registers (f c)) = regs_ok (cx_registers c)) \<Longrightarrow> respecting keeps_types (on_process_context i f)"
  unfolding on_process_context_def
  by (intro respects_modify keeps_types_process) (simp add: same_types_def pcb_defs)

lemma types_trace: "respecting keeps_types (trace_instruction k pc insn)"
  unfolding trace_instruction_def
  by (intro respects_modify keeps_types_fields) (simp_all split: option.split)

lemma types_handler: "respecting keeps_types (run_handler i insn)"
proof (rule respectsI)
  fix m
  obtain r c where rc: "registry_execute insn (execution_context i m) = (r, c)" by (metis prod.exhaust)
  from registry_context_frame [OF this]
  have f: "pm_size (ec_phys c) = pm_size (vm_phys m)" "nextFreeAddress (ec_phys c) = nextFreeAddress (vm_phys m)"
    "regs_ok (cx_registers (p_context (processes m ! i))) \<Longrightarrow> regs_ok (cx_registers (ec_cpu c))"
    by (simp_all add: ctx_frame_def execution_context_def ec_registers_def)
  have "list_all2 same_types (processes m) (processes (write_context i c m))"
    using f(3) by (auto simp: write_context_def frame_simps processes_fields nth_update_process same_types_def
        intro!: list_all2_all_nthI)
  then show "keeps_types m (snd (run_handler i insn m))"
    using f by (auto simp: run_handler_def rc intro!: keeps_types_same) (simp_all add: write_context_def frame_simps)
qed

lemma regs_ok_context:
  "regs_ok (cx_registers (advance_context c)) = regs_ok (cx_registers c)"
  "regs_ok (cx_registers (use_time_slice c)) = regs_ok (cx_registers c)"
  by (simp_all add: advance_context_def use_time_slice_def setTimeSliceLeft_def)

lemma types_instruction: "respecting keeps_types (executeInstruction (os_syscalls fs) i)"
  unfolding executeInstruction_def execute_call_def Let_def
  by (auto intro!: types_fr.respects_intros types_memory_ops types_trace types_syscall types_handler types_context
      simp: regs_ok_context)

text \<open>Hence every step of the system keeps the types.\<close>

lemma types_core_step:
  assumes "core_step (os_syscalls fs) stop l m = Some (l', m', notify)"
  shows "keeps_types m m'"
proof (cases "\<exists>i. l = C_Execute i")
  case True
  then obtain i where "l = C_Execute i" by blast
  with assms obtain r where "executeInstruction (os_syscalls fs) i m = (r, m')"
    by (auto split: prod.splits sum.splits)
  with types_instruction show ?thesis by (rule respectsD)
next
  case False
  with quiet_step [OF assms] show ?thesis by (blast intro: keeps_types_quiet)
qed

lemma types_system_step:
  "system_step (os_syscalls fs) s s' \<Longrightarrow> keeps_types (sy_machine s) (sy_machine s')"
  by (erule system_step.cases)
    (auto simp: types_fr.frame_refl dest: types_core_step intro: keeps_types_quiet quiet_scheduler)

lemma types_reachable:
  assumes "(system_step (os_syscalls fs))\<^sup>*\<^sup>* s s'"
  shows "keeps_types (sy_machine s) (sy_machine s')"
  using assms
  by (induction rule: rtranclp_induct)
    (auto intro: types_fr.frame_refl types_fr.frame_trans types_system_step)

section \<open>A turn of a core\<close>

text \<open>
  The loop of a core for as long as it holds a process, with the number of instructions executed;
  \<open>None\<close> would be a loop that does not end.
\<close>

partial_function (option) core_turn ::
  "syscall_handler \<Rightarrow> nat \<Rightarrow> core_label \<Rightarrow> machine \<Rightarrow> (nat \<times> core_label \<times> machine) option" where
  "core_turn syscalls n l m =
    (if holds l = None then Some (n, l, m)
     else case core_step syscalls False l m of
            None \<Rightarrow> None
          | Some (l', m', notify) \<Rightarrow>
              core_turn syscalls (case l of C_Execute i \<Rightarrow> Suc n | _ \<Rightarrow> n) l' m')"

lemma turn_over: "holds l = None \<Longrightarrow> core_turn syscalls n l m = Some (n, l, m)"
  by (subst core_turn.simps) simp

lemma turn_step:
  "holds l \<noteq> None \<Longrightarrow> core_step syscalls False l m = Some (l', m', notify) \<Longrightarrow>
     core_turn syscalls n l m = core_turn syscalls (case l of C_Execute i \<Rightarrow> Suc n | _ \<Rightarrow> n) l' m'"
  by (subst core_turn.simps) auto

definition turn_ends :: "syscall_handler \<Rightarrow> nat \<Rightarrow> core_label \<Rightarrow> machine \<Rightarrow> nat \<Rightarrow> bool" where
  "turn_ends syscalls n l m bound \<longleftrightarrow> (\<exists>k l' m'. core_turn syscalls n l m = Some (k, l', m') \<and> k \<le> bound \<and>
     (l' = C_Head None \<or> l' = C_Callback \<or> (\<exists>e. l' = C_Terminated e)))"

lemma turn_ends_over:
  "l = C_Head None \<or> l = C_Callback \<or> l = C_Terminated e \<Longrightarrow> n \<le> bound \<Longrightarrow> turn_ends syscalls n l m bound"
  using turn_over [of l syscalls n m] by (auto simp: turn_ends_def)

lemma turn_ends_step:
  assumes "core_step syscalls False l m = Some (l', m', notify)" and "holds l \<noteq> None"
    and "turn_ends syscalls (case l of C_Execute i \<Rightarrow> Suc n | _ \<Rightarrow> n) l' m' bound"
  shows "turn_ends syscalls n l m bound"
  using assms turn_step [OF assms(2,1)] by (simp add: turn_ends_def)

lemma turn_ends_release: "n \<le> bound \<Longrightarrow> turn_ends syscalls n (C_Release i p cb) m bound"
  by (rule turn_ends_step [where l' = "if cb then C_Callback else C_Head None" and m' = "releaseProcess i p m"
        and notify = True]) (auto intro: turn_ends_over)

lemma turn_ends_head: "turn_ends syscalls n (C_Check i) m bound \<Longrightarrow> turn_ends syscalls n (C_Head (Some i)) m bound"
  by (rule turn_ends_step [where l' = "C_Check i" and m' = m and notify = False]) simp_all

lemma turn_ends_decide:
  "decide i r m = (l', m') \<Longrightarrow> turn_ends syscalls n l' m' bound \<Longrightarrow> turn_ends syscalls n (C_Decide i r) m bound"
  by (rule turn_ends_step [where l' = l' and m' = m' and notify = False]) simp_all

lemma turn_ends_execute:
  "executeInstruction syscalls i m = (Inr r, m') \<Longrightarrow> turn_ends syscalls (Suc n) (C_Decide i r) m' bound \<Longrightarrow>
     turn_ends syscalls n (C_Execute i) m bound"
  by (rule turn_ends_step [where l' = "C_Decide i r" and m' = m' and notify = "notifies i m"]) simp_all

lemma turn_ends_check:
  "n \<le> bound \<Longrightarrow> turn_ends syscalls n (C_Execute i) m bound \<Longrightarrow> turn_ends syscalls n (C_Check i) m bound"
  by (rule turn_ends_step [where l' = "if ended m i then C_Release i False False else C_Execute i" and m' = m
        and notify = False]) (auto simp: ended_def turn_ends_release)

text \<open>After an instruction the core goes on with the process only if time is left.\<close>

lemma decide_goes_on:
  assumes "decide i r m = (l', m')"
  shows "(\<exists>p cb. l' = C_Release i p cb) \<or>
    l' = C_Head (Some i) \<and> m' = m \<and> 0 < slice_left i m \<and> r \<noteq> ER_Halt \<and> r \<noteq> ER_Yield"
  using assms by (auto simp: decide_def Let_def slice_left_def word_gt_0 split: if_splits)

context syscall_interface
begin

lemma turn_bounded:
  "i < length (processes m) \<Longrightarrow> n + max 1 (unat (slice_left i m)) \<le> bound \<Longrightarrow>
     turn_ends syscalls n (C_Check i) m bound"
proof (induction "unat (slice_left i m)" arbitrary: m n rule: less_induct)
  case less
  have bound: "Suc n \<le> bound" using less.prems(2) by simp
  have execute: "turn_ends syscalls n (C_Execute i) m bound"
  proof (cases "executeInstruction syscalls i m")
    case (Pair q m1)
    show ?thesis
    proof (cases q)
      case (Inl e)
      show ?thesis
        by (rule turn_ends_step [where l' = "C_Terminated e" and m' = m1 and notify = False])
          (use Inl Pair bound in \<open>auto intro: turn_ends_over\<close>)
    next
      case (Inr r)
      have frame: "machine_frame i m m1" using executeInstruction_frame Pair by (rule respectsD)
      obtain l2 m2 where d: "decide i r m1 = (l2, m2)" by (metis prod.exhaust)
      have "turn_ends syscalls (Suc n) l2 m2 bound"
        using decide_goes_on [OF d]
      proof
        assume "\<exists>p cb. l2 = C_Release i p cb"
        with bound show ?thesis by (auto intro: turn_ends_release)
      next
        assume go: "l2 = C_Head (Some i) \<and> m2 = m1 \<and> 0 < slice_left i m1 \<and> r \<noteq> ER_Halt \<and> r \<noteq> ER_Yield"
        have left: "slice_left i m1 = (if 0 < slice_left i m then slice_left i m - 1 else 0)"
          using executeInstruction_slice [of i m r m1] Pair Inr less.prems(1) go by simp
        with go have pos: "slice_left i m \<noteq> 0" "slice_left i m1 = slice_left i m - 1" "slice_left i m1 \<noteq> 0"
          by (auto split: if_splits)
        from pos(1,2) have "unat (slice_left i m1) = unat (slice_left i m) - 1" by (simp add: unat_minus_one)
        moreover from pos(3) have "0 < unat (slice_left i m1)" by (simp only: unat_gt_0 not_False_eq_True)
        ultimately have u: "unat (slice_left i m1) = unat (slice_left i m) - 1" "0 < unat (slice_left i m1)" .
        have "turn_ends syscalls (Suc n) (C_Check i) m1 bound"
        proof (rule less.hyps)
          show "unat (slice_left i m1) < unat (slice_left i m)" using u by simp
          show "i < length (processes m1)" using frame less.prems(1) by (simp add: machine_frame_def)
          show "Suc n + max 1 (unat (slice_left i m1)) \<le> bound" using u less.prems(2) by simp
        qed
        with go show ?thesis by (simp add: turn_ends_head)
      qed
      with Pair Inr d show ?thesis by (blast intro: turn_ends_execute turn_ends_decide)
    qed
  qed
  show ?case by (rule turn_ends_check [OF _ execute]) (use bound in simp)
qed

end

section \<open>Properties\<close>

text \<open>C11: Preemption: a core that has taken a process from the scheduler gives it back, after at most a quantum of
  instructions, whatever program the process runs - a program that loops for ever included - or the
  machine ends with an exception.\<close>

theorem core_gives_process_back:
  assumes "machine_ok m" and "acquireProcess (sched_view m) = Some (Some i, s)" and "callback_framed loadCallback"
  shows "\<exists>n l' m'. core_turn (handle_syscall loadCallback) 0 (C_Check i) (put_sched s m) = Some (n, l', m') \<and>
    n \<le> max 1 (unat (sch_quantum (vm_sched m))) \<and>
    (l' = C_Head None \<or> l' = C_Callback \<or> (\<exists>e. l' = C_Terminated e))"
proof -
  have "sched_ok (vm_sched m, processes m)" "acquireProcess (vm_sched m, processes m) = Some (Some i, s)"
    using assms(1,2) by (simp_all add: machine_ok_def sched_inv_def sched_view_def)
  then obtain queue where i: "i < length (processes m)"
    "s = ((vm_sched m)\<lparr>readyQueue := queue\<rparr>, update_process i (dispatch (sch_quantum (vm_sched m))) (processes m))"
    by (cases rule: acquire_cases) auto
  then have "slice_left i (put_sched s m) = sch_quantum (vm_sched m)" "i < length (processes (put_sched s m))"
    by (simp_all add: slice_left_def nth_update_process dispatch_def pcb_defs resetTimeSlice_def)
  with syscall_interface.turn_bounded [OF handle_syscall_interface [OF assms(3)], of i "put_sched s m" 0]
  show ?thesis by (simp add: turn_ends_def)
qed

text \<open>What the types of a machine say of a process and of the others.\<close>

lemma regions_ok_apart:
  assumes "regions_ok m" and "k < length (processes m)"
  shows "process_typed (processes m ! k) \<and> region_base m k + 65536 \<le> unat (pm_size (vm_phys m)) \<and>
    (\<forall>j < length (processes m). j \<noteq> k \<longrightarrow>
      regions_disjoint (p_memory (processes m ! j)) (p_memory (processes m ! k)))"
proof (intro conjI allI impI)
  show "process_typed (processes m ! k)" "region_base m k + 65536 \<le> unat (pm_size (vm_phys m))"
    using assms by (auto simp: regions_ok_def intro: order_trans)
  fix j
  assume j: "j < length (processes m)" "j \<noteq> k"
  have "process_typed (processes m ! j)" "process_typed (processes m ! k)"
    using assms j by (simp_all add: regions_ok_def)
  moreover have "j < k \<or> k < j" using j(2) by linarith
  ultimately show "regions_disjoint (p_memory (processes m ! j)) (p_memory (processes m ! k))"
    using assms j by (auto simp: regions_ok_def region_base_def regions_disjoint_def process_typed_def)
qed

text \<open>Whatever the threads and the programs do, loading more programs included, the types of the machine stay.\<close>

lemma system_keeps_types:
  assumes "(system_step (os_syscalls fs))\<^sup>*\<^sup>* s s'" and "regions_ok (sy_machine s)"
    and "k < length (processes (sy_machine s'))" and "j < length (processes (sy_machine s'))" and "j \<noteq> k"
  shows "process_typed (processes (sy_machine s') ! k) \<and>
    region_base (sy_machine s') k + 65536 \<le> unat (pm_size (vm_phys (sy_machine s'))) \<and>
    regions_disjoint (p_memory (processes (sy_machine s') ! j)) (p_memory (processes (sy_machine s') ! k))"
  using types_reachable [OF assms(1)] assms(2-) regions_ok_apart [of "sy_machine s'" k] by (simp add: keeps_types_def)

section \<open>Witnesses\<close>

lemma sample_pair_types: "regions_ok (sample_pair st)"
  by (auto simp: regions_ok_def region_base_def process_typed_def sample_pair_def processes_def PhysicalMemory_def
      ProcessControlBlock_def pcb_defs CpuContext_def sample_region_def MemoryRegionLayout_def less_Suc_eq)

theorem core_gives_process_back_witness:
  "\<exists>s n l' m'. acquireProcess (sched_view (on_scheduler notifyProcessReady (sample_pair Ready))) = Some (Some 0, s) \<and>
     core_turn (handle_syscall None) 0 (C_Check 0) (put_sched s (on_scheduler notifyProcessReady (sample_pair Ready))) =
       Some (n, l', m') \<and> n \<le> 100"
proof -
  let ?m = "on_scheduler notifyProcessReady (sample_pair Ready)"
  have "machine_ok ?m" using sample_pair_ok(1) by (rule notify_machine_ok)
  moreover obtain s where "acquireProcess (sched_view ?m) = Some (Some 0, s)" using sample_pair_acquire by blast
  moreover have "sch_quantum (vm_sched ?m) = 100"
    by (simp add: on_scheduler_put put_sched_def notifyProcessReady_def sched_view_def sample_pair_def PreemptiveScheduler_def)
  ultimately show ?thesis
    using core_gives_process_back [of ?m 0 s None] by (fastforce simp: callback_framed_def)
qed

lemma system_keeps_types_witness:
  "\<exists>s. (system_step (os_syscalls (\<lambda>_. None)))\<^sup>*\<^sup>* (run_system 1 (sample_pair Ready)) s \<and> label_of s 0 = C_Acquire \<and>
     process_typed (processes (sy_machine s) ! 1) \<and>
     regions_disjoint (p_memory (processes (sy_machine s) ! 0)) (p_memory (processes (sy_machine s) ! 1))"
proof -
  let ?m = "on_scheduler notifyProcessReady (sample_pair Ready)" and ?step = "system_step (os_syscalls (\<lambda>_. None))"
  let ?s = "one_core ?m C_Acquire False M_Wait"
  have "?step\<^sup>*\<^sup>* (one_core ?m (C_Head None) False M_Wait) ?s"
    by (intro r_into_rtranclp one_core_moves) simp_all
  then have r: "?step\<^sup>*\<^sup>* (run_system 1 (sample_pair Ready)) ?s" by (simp add: run_system_def one_core_def)
  have "keeps_types (sample_pair Ready) ?m" by (rule keeps_types_quiet [OF quiet_scheduler(1)])
  then have "regions_ok (sy_machine (run_system 1 (sample_pair Ready)))"
    by (simp add: keeps_types_def sample_pair_types run_system_def)
  moreover have "length (processes (sy_machine ?s)) = 2"
    by (simp add: one_core_def processes_on_scheduler sample_pair_fields)
  ultimately have "process_typed (processes (sy_machine ?s) ! 1) \<and>
      regions_disjoint (p_memory (processes (sy_machine ?s) ! 0)) (p_memory (processes (sy_machine ?s) ! 1))"
    using system_keeps_types [OF r, of 1 0] by simp
  moreover have "label_of ?s 0 = C_Acquire" by (simp add: label_of_def one_core_def)
  ultimately show ?thesis using r by blast
qed

end
