(* ===== verification/Virtual_Machine.thy ===== *)
theory Virtual_Machine
  imports System
begin

text \<open>
  The class that a client uses (\<^verbatim>\<open>src/vm/virtual_machine.cpp\<close>): it owns the operating system and shares the
  ownership of the tracer, to which the system and its cores only have a pointer.
\<close>

section \<open>The class\<close>

text \<open>
  The members \<^verbatim>\<open>os_\<close> and \<^verbatim>\<open>tracer_\<close>, and how many cores the constructor of \<^verbatim>\<open>os_\<close> has created.
\<close>

record virtual_machine =
  vf_os :: machine
  vf_coreCount :: size_t
  vf_tracer :: "tracer option"

definition VirtualMachine :: "size_t \<Rightarrow> size_t \<Rightarrow> input_stream \<Rightarrow> virtual_machine" where
  "VirtualMachine coreCount timeSlice input =
    \<lparr>vf_os = VirtualOS timeSlice input, vf_coreCount = coreCount, vf_tracer = None\<rparr>"

text \<open>The members that only forward a call to \<^verbatim>\<open>os_\<close>.\<close>

definition on_os :: "(machine, 'a) vm \<Rightarrow> (virtual_machine, 'a) vm" where
  "on_os op = (\<lambda>vm. case op (vf_os vm) of (r, m) \<Rightarrow> (r, vm\<lparr>vf_os := m\<rparr>))"

definition VirtualMachine_loadProgram :: "file_system \<Rightarrow> string \<Rightarrow> (virtual_machine, ProcessId) vm" where
  "VirtualMachine_loadProgram fs path = on_os (loadProgram fs path)"

definition VirtualMachine_loadProgramFromSource :: "string \<Rightarrow> string \<Rightarrow> (virtual_machine, ProcessId) vm" where
  "VirtualMachine_loadProgramFromSource source name = on_os (loadProgramFromSource source name)"

definition VirtualMachine_getRegister :: "ProcessId \<Rightarrow> u8 \<Rightarrow> (virtual_machine, Word) vm" where
  "VirtualMachine_getRegister pid reg = on_os (getRegister pid reg)"

definition VirtualMachine_step :: "file_system \<Rightarrow> ProcessId \<Rightarrow> size_t \<Rightarrow> (virtual_machine, execution_result) vm" where
  "VirtualMachine_step fs pid steps = on_os (vm_step fs pid steps)"

text \<open>
  \<^verbatim>\<open>run\<close> starts the threads; what it leaves is the system when the main thread is done.
\<close>

definition VirtualMachine_run :: "virtual_machine \<Rightarrow> system" where
  "VirtualMachine_run vm = run_system (unat (vf_coreCount vm)) (vf_os vm)"

text \<open>A tracer of the repository is created only if there is none; the last tracer is kept when tracing is off.\<close>

definition enableTrace :: "bool \<Rightarrow> virtual_machine \<Rightarrow> virtual_machine" where
  "enableTrace enabled vm =
    (if enabled
     then let vm' = (if vf_tracer vm = None then vm\<lparr>vf_tracer := Some StdoutTracer\<rparr> else vm)
          in vm'\<lparr>vf_os := os_setTracer (vf_tracer vm') (vf_os vm')\<rparr>
     else vm\<lparr>vf_os := os_setTracer None (vf_os vm)\<rparr>)"

definition setTracer :: "tracer option \<Rightarrow> virtual_machine \<Rightarrow> virtual_machine" where
  "setTracer tracer vm =
    (let vm' = vm\<lparr>vf_tracer := tracer\<rparr>
     in vm'\<lparr>vf_os := os_setTracer (vf_tracer vm') (vf_os vm')\<rparr>)"

section \<open>Calls of a client\<close>

text \<open>
  What a client can call one after the other; a call that throws leaves what it has done. A call of \<^verbatim>\<open>run\<close> that returns
  leaves the machine of a system whose main thread is done; \<^verbatim>\<open>stop\<close> does nothing then, nor before the first \<^verbatim>\<open>run\<close>.
\<close>

inductive client_call :: "file_system \<Rightarrow> virtual_machine \<Rightarrow> virtual_machine \<Rightarrow> bool" for fs where
  call_load: "client_call fs vm (snd (VirtualMachine_loadProgram fs path vm))"
| call_load_source: "client_call fs vm (snd (VirtualMachine_loadProgramFromSource source name vm))"
| call_step: "client_call fs vm (snd (VirtualMachine_step fs pid steps vm))"
| call_stop: "client_call fs vm vm"
| call_register: "client_call fs vm (snd (VirtualMachine_getRegister pid reg vm))"
| call_enable: "client_call fs vm (enableTrace enabled vm)"
| call_set: "client_call fs vm (setTracer tracer vm)"
| call_run: "client_call fs vm (vm\<lparr>vf_os := sy_machine s\<rparr>)"
    if "(system_step (os_syscalls fs))\<^sup>*\<^sup>* (VirtualMachine_run vm) s" and "sy_main s = M_Done"

end
