(* ===== verification/Main_Program.thy ===== *)
theory Main_Program
  imports Virtual_Machine
begin

text \<open>
  The program itself (\<^verbatim>\<open>main.cpp\<close>): the options of the command line, the loading of the programs and
  the start of the system. The arguments are those after the program name, which is given apart.
\<close>

section \<open>Options\<close>

text \<open>
  \<^verbatim>\<open>std::stoul\<close>: white space, a sign, the longest run of digits; a minus sign negates modulo \<open>2 ^ 64\<close>.
  An \<^verbatim>\<open>unsigned long\<close> has 64 bits, as on the Unix platforms.
\<close>

definition std_stoul :: "string \<Rightarrow> vm_exception + u64" where
  "std_stoul s =
    (let s1 = dropWhile is_space s;
         negative = (s1 \<noteq> [] \<and> hd s1 = CHR ''-'');
         s2 = (if s1 \<noteq> [] \<and> (hd s1 = CHR ''-'' \<or> hd s1 = CHR ''+'') then tl s1 else s1);
         ds = takeWhile is_digit s2
     in if ds = [] then Inl (StdInvalidArgument ''stoul'')
        else if 2 ^ 64 \<le> digits_val ds then Inl (StdOutOfRange ''stoul'')
        else Inr (if negative then - of_nat (digits_val ds) else of_nat (digits_val ds)))"

text \<open>Every exception that leaves the \<^verbatim>\<open>try\<close> block, the one for zero included, becomes the same message.\<close>

definition parsePositiveOption :: "string \<Rightarrow> string \<Rightarrow> vm_exception + size_t" where
  "parsePositiveOption name value =
    (let bad = Inl (StdInvalidArgument (''invalid value for '' @ name @ '': '' @ value))
     in case std_stoul value of
          Inl e \<Rightarrow> bad
        | Inr parsed \<Rightarrow> if parsed = 0 then bad else Inr parsed)"

record options =
  op_cores :: size_t
  op_quantum :: size_t
  op_trace :: bool
  op_programs :: "string list"

definition default_options :: options where
  "default_options = \<lparr>op_cores = kDefaultCoreCount, op_quantum = kDefaultTimeSlice, op_trace = False, op_programs = []\<rparr>"

text \<open>
  The loop over the arguments after the program name. \<^verbatim>\<open>--help\<close> ends it (\<open>None\<close>); an option that
  takes a value but is the last argument is taken for a program.
\<close>

definition add_program :: "string \<Rightarrow> options \<Rightarrow> options" where
  "add_program arg opts = opts\<lparr>op_programs := op_programs opts @ [arg]\<rparr>"

fun parse_arguments :: "string list \<Rightarrow> options \<Rightarrow> vm_exception + options option" where
  "parse_arguments [] opts = Inr (Some opts)"
| "parse_arguments [arg] opts =
     (if arg = ''--trace'' then Inr (Some (opts\<lparr>op_trace := True\<rparr>))
      else if arg = ''--help'' then Inr None
      else Inr (Some (add_program arg opts)))"
| "parse_arguments (arg # value # rest) opts =
     (if arg = ''--cores''
      then (case parsePositiveOption ''--cores'' value of
              Inl e \<Rightarrow> Inl e
            | Inr cores \<Rightarrow> parse_arguments rest (opts\<lparr>op_cores := cores\<rparr>))
      else if arg = ''--quantum''
      then (case parsePositiveOption ''--quantum'' value of
              Inl e \<Rightarrow> Inl e
            | Inr quantum \<Rightarrow> parse_arguments rest (opts\<lparr>op_quantum := quantum\<rparr>))
      else if arg = ''--trace'' then parse_arguments (value # rest) (opts\<lparr>op_trace := True\<rparr>)
      else if arg = ''--help'' then Inr None
      else parse_arguments (value # rest) (add_program arg opts))"

section \<open>The program\<close>

definition usage :: "string \<Rightarrow> string" where
  "usage program =
    ''Usage: '' @ program @ '' [options] <program.asm>...'' @ [CHR 0x0A] @
    ''Options:'' @ [CHR 0x0A] @
    ''  --cores <n>     Number of virtual CPU cores (default: 4)'' @ [CHR 0x0A] @
    ''  --quantum <n>   Instruction time slice (default: 100)'' @ [CHR 0x0A] @
    ''  --trace         Print instruction trace to stderr'' @ [CHR 0x0A]"

text \<open>\<^verbatim>\<open>ex.what()\<close>.\<close>

fun exception_what :: "vm_exception \<Rightarrow> string" where
  "exception_what (VmException msg) = msg"
| "exception_what (AssemblerError line msg) = ''line '' @ show_nat line @ '': '' @ msg"
| "exception_what (StdInvalidArgument msg) = msg"
| "exception_what (StdOutOfRange msg) = msg"

definition error_line :: "vm_exception \<Rightarrow> string" where
  "error_line e = ''Error: '' @ exception_what e @ [CHR 0x0A]"

fun load_programs :: "file_system \<Rightarrow> string list \<Rightarrow> (virtual_machine, unit) vm" where
  "load_programs fs [] = vreturn ()"
| "load_programs fs (path # paths) = vbind (VirtualMachine_loadProgram fs path) (\<lambda>_. load_programs fs paths)"

text \<open>
  \<^verbatim>\<open>main\<close> up to the call of \<^verbatim>\<open>run\<close>: it ends with an exit status and what was written to the error
  stream, or starts the system.
\<close>

datatype main_result = Exit nat string | Run system

definition boot :: "options \<Rightarrow> input_stream \<Rightarrow> virtual_machine" where
  "boot opts input =
    (let vm = VirtualMachine (op_cores opts) (op_quantum opts) input
     in if op_trace opts then enableTrace True vm else vm)"

definition main_program :: "file_system \<Rightarrow> input_stream \<Rightarrow> string \<Rightarrow> string list \<Rightarrow> main_result" where
  "main_program fs input argv0 args =
    (case parse_arguments args default_options of
       Inl e \<Rightarrow> Exit 1 (error_line e @ usage argv0)
     | Inr None \<Rightarrow> Exit 0 (usage argv0)
     | Inr (Some opts) \<Rightarrow>
         if op_programs opts = [] then Exit 1 (usage argv0)
         else case load_programs fs (op_programs opts) (boot opts input) of
                (Inl e, m) \<Rightarrow> Exit 1 (error_line e)
              | (Inr (), vm) \<Rightarrow> Run (VirtualMachine_run vm))"

section \<open>What is started\<close>

lemma option_positive: "parsePositiveOption name value = Inr v \<Longrightarrow> v \<noteq> 0"
  by (auto simp: parsePositiveOption_def Let_def split: sum.splits if_splits)

definition options_ok :: "options \<Rightarrow> bool" where
  "options_ok opts \<longleftrightarrow> op_cores opts \<noteq> 0 \<and> op_quantum opts \<noteq> 0"

lemma parse_arguments_ok:
  "parse_arguments args opts = Inr (Some opts') \<Longrightarrow> options_ok opts \<Longrightarrow> options_ok opts'"
  by (induction args opts rule: parse_arguments.induct)
    (auto simp: options_ok_def add_program_def option_positive split: if_splits sum.splits)

lemma on_os_Inr: "on_os op vm = (Inr a, vm') \<longleftrightarrow> (\<exists>m. op (vf_os vm) = (Inr a, m) \<and> vm' = vm\<lparr>vf_os := m\<rparr>)"
  by (auto simp: on_os_def split: prod.splits)

lemma load_programs_Cons:
  assumes "load_programs fs (path # paths) vm = (Inr (), vm')"
  obtains pid vm1 where "loadProgram fs path (vf_os vm) = (Inr pid, vf_os vm1)" and "vf_coreCount vm1 = vf_coreCount vm"
    and "load_programs fs paths vm1 = (Inr (), vm')"
proof -
  from assms obtain pid m where "loadProgram fs path (vf_os vm) = (Inr pid, m)"
    "load_programs fs paths (vm\<lparr>vf_os := m\<rparr>) = (Inr (), vm')"
    by (auto simp: vbind_Inr VirtualMachine_loadProgram_def on_os_Inr)
  then show ?thesis using that [of pid "vm\<lparr>vf_os := m\<rparr>"] by simp
qed

lemma loadProgram_ready:
  assumes "loadProgram fs path m = (Inr pid, m')" and "ready_to_run m"
  shows "ready_to_run m' \<and> map p_name (processes m') = map p_name (processes m) @ [path_filename path] \<and>
    sch_quantum (vm_sched m') = sch_quantum (vm_sched m)"
proof -
  from assms(1) obtain source where ld: "loadProgramFromSource source (path_filename path) m = (Inr pid, m')"
    by (auto simp: loadProgram_def vthrow_def split: option.splits)
  then have "sch_quantum (vm_sched m') = sch_quantum (vm_sched m)" by (auto dest: loadProgramFromSource_ok)
  moreover from load_machine_ok [OF ld] assms(2) obtain p where
    "machine_ok m'" "processes m' = processes m @ [p]" "p_state p = Ready" "p_name p = path_filename path"
    by (metis ready_to_run_def)
  ultimately show ?thesis using assms(2) by (auto simp: ready_to_run_def)
qed

lemma load_programs_ok:
  assumes "load_programs fs paths vm = (Inr (), vm')" and "ready_to_run (vf_os vm)"
  shows "ready_to_run (vf_os vm') \<and> vf_coreCount vm' = vf_coreCount vm \<and>
    sch_quantum (vm_sched (vf_os vm')) = sch_quantum (vm_sched (vf_os vm)) \<and>
    map p_name (processes (vf_os vm')) = map p_name (processes (vf_os vm)) @ map path_filename paths"
  using assms
proof (induction paths arbitrary: vm)
  case (Cons path paths)
  from Cons.prems(1) obtain pid vm1 where
    m1: "loadProgram fs path (vf_os vm) = (Inr pid, vf_os vm1)" "vf_coreCount vm1 = vf_coreCount vm"
    and rest: "load_programs fs paths vm1 = (Inr (), vm')" by (rule load_programs_Cons)
  from Cons.IH [OF rest] loadProgram_ready [OF m1(1) Cons.prems(2)] m1(2) show ?case by simp
qed (simp add: vreturn_def)

lemma boot_fields:
  "vf_os (boot opts input) = (VirtualOS (op_quantum opts) input)
     \<lparr>vm_tracer := (if op_trace opts then Some StdoutTracer else None)\<rparr>"
  "vf_coreCount (boot opts input) = op_cores opts"
  by (simp_all add: boot_def VirtualMachine_def enableTrace_def os_setTracer_def Let_def) (simp add: VirtualOS_def)

lemma boot_ready: "ready_to_run (vf_os (boot opts input))" "processes (vf_os (boot opts input)) = []"
  using empty_machine_ok(2) [of "op_quantum opts" input]
  by (simp_all add: boot_fields ready_to_run_def machine_ok_def processes_def sched_view_def)
    (simp add: VirtualOS_def ProcessTable_def)

lemma main_starts:
  assumes "parse_arguments args default_options = Inr (Some opts)" and "op_programs opts \<noteq> []"
    and "load_programs fs (op_programs opts) (boot opts input) = (Inr (), vm)"
  shows "main_program fs input argv0 args = Run (run_system (unat (op_cores opts)) (vf_os vm))"
proof -
  have "vf_coreCount vm = op_cores opts" using load_programs_ok [OF assms(3) boot_ready(1)] by (simp add: boot_fields(2))
  then show ?thesis
    by (simp only: main_program_def assms sum.case option.case prod.case unit.case if_False VirtualMachine_run_def)
qed

lemma main_runs:
  assumes "main_program fs input argv0 args = Run s"
  shows "\<exists>opts m. parse_arguments args default_options = Inr (Some opts) \<and> options_ok opts \<and>
    s = run_system (unat (op_cores opts)) m \<and> ready_to_run m \<and> sch_quantum (vm_sched m) = op_quantum opts \<and>
    map p_name (processes m) = map path_filename (op_programs opts)"
proof -
  obtain opts where opts: "parse_arguments args default_options = Inr (Some opts)"
    using assms unfolding main_program_def
    by (cases "parse_arguments args default_options") (simp_all split: option.splits)
  have ne: "op_programs opts \<noteq> []" using assms by (auto simp: main_program_def opts)
  obtain r vm where rm: "load_programs fs (op_programs opts) (boot opts input) = (r, vm)" by (metis prod.exhaust)
  have r: "r = Inr ()" using assms by (cases r) (simp_all add: main_program_def opts ne rm)
  note load = rm [unfolded r]
  have s: "s = run_system (unat (op_cores opts)) (vf_os vm)"
    using assms main_starts [OF opts ne load] by simp
  have "options_ok default_options" by (simp add: options_ok_def default_options_def)
  with parse_arguments_ok [OF opts] have "options_ok opts" .
  moreover have "sch_quantum (vm_sched (vf_os (boot opts input))) = op_quantum opts"
    by (simp add: boot_fields VirtualOS_def PreemptiveScheduler_def)
  then have "sch_quantum (vm_sched (vf_os vm)) = op_quantum opts"
    using load_programs_ok [OF load boot_ready(1)] by simp
  moreover have "ready_to_run (vf_os vm)" "map p_name (processes (vf_os vm)) = map path_filename (op_programs opts)"
    using load_programs_ok [OF load boot_ready(1)] by (simp_all add: boot_ready(2))
  ultimately show ?thesis using opts s by blast
qed

lemma std_stoul_digits:
  assumes "list_all is_digit ds" and "ds \<noteq> []"
  shows "std_stoul ds = (if 2 ^ 64 \<le> digits_val ds then Inl (StdOutOfRange ''stoul'') else Inr (of_nat (digits_val ds)))"
    and "std_stoul (CHR ''-'' # ds) =
      (if 2 ^ 64 \<le> digits_val ds then Inl (StdOutOfRange ''stoul'') else Inr (- of_nat (digits_val ds)))"
proof -
  obtain c cs where ds: "ds = c # cs" and c: "is_digit c" using assms by (cases ds) auto
  have tw: "takeWhile is_digit ds = ds" using assms(1) by (auto simp: list_all_iff)
  have c': "\<not> is_space c" "c \<noteq> CHR ''-''" "c \<noteq> CHR ''+''"
    using c is_digit_not_space is_digit_not_sign by auto
  show "std_stoul ds = (if 2 ^ 64 \<le> digits_val ds then Inl (StdOutOfRange ''stoul'') else Inr (of_nat (digits_val ds)))"
    using tw c' by (simp add: std_stoul_def Let_def ds del: takeWhile_eq_all_conv)
  show "std_stoul (CHR ''-'' # ds) =
      (if 2 ^ 64 \<le> digits_val ds then Inl (StdOutOfRange ''stoul'') else Inr (- of_nat (digits_val ds)))"
    using tw assms(2) by (simp add: std_stoul_def Let_def is_space_def del: takeWhile_eq_all_conv)
qed

lemma std_stoul_show:
  "std_stoul (show_nat n) = (if 2 ^ 64 \<le> n then Inl (StdOutOfRange ''stoul'') else Inr (of_nat n))"
  "std_stoul (CHR ''-'' # show_nat n) = (if 2 ^ 64 \<le> n then Inl (StdOutOfRange ''stoul'') else Inr (- of_nat n))"
  using std_stoul_digits [OF show_nat_digits [of n]] by simp_all

lemma of_nat_u64_nonzero: "0 < n \<Longrightarrow> n < 2 ^ 64 \<Longrightarrow> (of_nat n :: u64) \<noteq> 0"
  by (simp add: word_of_nat_eq_0_iff nat_dvd_not_less)

section \<open>Properties\<close>

text \<open>C16: The program starts its cores only in a good state: with at least one core and the
  quantum of the command line, at least one, in the scheduler; the processes are the given programs in the order of the command line, and in whatever
  happens from there the invariant of the machine holds: identifiers are unique, the ready queue is
  exact, and memory for every process has been allocated.\<close>

theorem started_system_is_well_formed:
  assumes "main_program fs input argv0 args = Run s0"
    and "(system_step (os_syscalls fs))\<^sup>*\<^sup>* s0 s"
  shows "\<exists>opts. parse_arguments args default_options = Inr (Some opts) \<and>
    map p_name (processes (sy_machine s0)) = map path_filename (op_programs opts) \<and>
    length (sy_cores s0) = unat (op_cores opts) \<and> 1 \<le> length (sy_cores s0) \<and>
    sch_quantum (vm_sched (sy_machine s0)) = op_quantum opts \<and> 1 \<le> unat (op_quantum opts) \<and>
    machine_ok (sy_machine s)"
proof -
  from main_runs [OF assms(1)] obtain opts m where
    opts: "parse_arguments args default_options = Inr (Some opts)" "options_ok opts"
      "s0 = run_system (unat (op_cores opts)) m" "ready_to_run m" "sch_quantum (vm_sched m) = op_quantum opts"
      "map p_name (processes m) = map path_filename (op_programs opts)" by blast
  have "reachable (os_syscalls fs) (unat (op_cores opts)) m s"
    using assms(2) opts(3) by (simp add: reachable_def)
  from sys_inv_machine [OF sys_inv_reachable [OF this opts(4)]] have "machine_ok (sy_machine s)" .
  moreover have "processes (sy_machine s0) = processes m" using opts(3) by (simp add: run_system_def processes_on_scheduler)
  moreover have "sch_quantum (vm_sched (sy_machine s0)) = op_quantum opts"
    using opts(3,5) by (simp add: run_system_def on_scheduler_put put_sched_def notifyProcessReady_def sched_view_def)
  moreover have "1 \<le> unat (op_cores opts)" "1 \<le> unat (op_quantum opts)"
    using opts(2) by (simp_all add: options_ok_def Suc_le_eq unat_gt_0)
  ultimately show ?thesis using opts by (simp add: run_system_def)
qed

text \<open>Options: a positive decimal number within 64 bits is the value; zero, a text without digits and numbers
  beyond 64 bits are rejected with one and the same message. A negative number is not rejected:
  \<^verbatim>\<open>std::stoul\<close> takes it modulo \<open>2 ^ 64\<close>, so that \<open>-1\<close> asks for \<open>2 ^ 64 - 1\<close> cores.\<close>

lemma option_values:
  assumes "0 < n" and "n < 2 ^ 64"
  shows "parsePositiveOption name (show_nat n) = Inr (of_nat n) \<and>
    parsePositiveOption name (CHR ''-'' # show_nat n) = Inr (of_nat (2 ^ 64 - n)) \<and>
    (\<forall>k. k = 0 \<or> 2 ^ 64 \<le> k \<longrightarrow> parsePositiveOption name (show_nat k) =
       Inl (StdInvalidArgument (''invalid value for '' @ name @ '': '' @ show_nat k)))"
proof -
  have neg: "(- of_nat n :: u64) = of_nat (2 ^ 64 - n)"
  proof -
    have "(of_nat n + of_nat (2 ^ 64 - n) :: u64) = of_nat (n + (2 ^ 64 - n))" by (simp only: of_nat_add)
    also have "\<dots> = of_nat (2 ^ 64)" using assms(2) by simp
    also have "\<dots> = 0" by (simp add: word_of_nat_eq_0_iff)
    finally show ?thesis by (rule minus_unique)
  qed
  have "(of_nat (2 ^ 64 - n) :: u64) \<noteq> 0" by (rule of_nat_u64_nonzero) (use assms in simp_all)
  with assms of_nat_u64_nonzero [OF assms] neg show ?thesis
    by (auto simp: parsePositiveOption_def std_stoul_show Let_def)
qed

section \<open>Witnesses\<close>

lemma option_values_witness:
  "parsePositiveOption ''--cores'' (show_nat 4) = Inr 4 \<and>
   parsePositiveOption ''--cores'' (CHR ''-'' # show_nat 4) = Inr 18446744073709551612"
  using option_values [of 4 "''--cores''"] by simp

definition one_file :: file_system where
  "one_file path = (if path = ''dir/p.asm'' then Some (source_lines [''CODE:'', ''halt'']) else None)"

theorem started_system_is_well_formed_witness:
  "\<exists>s0. main_program one_file \<lparr>is_rest = [], is_fail = False\<rparr> ''vm'' [''--cores'', ''2'', ''dir/p.asm''] = Run s0 \<and>
     map p_name (processes (sy_machine s0)) = [''p.asm''] \<and> length (sy_cores s0) = 2 \<and> machine_ok (sy_machine s0)"
proof -
  let ?in = "\<lparr>is_rest = [], is_fail = False\<rparr>"
  let ?opts = "default_options\<lparr>op_cores := 2, op_programs := [''dir/p.asm'']\<rparr>"
  have args: "parse_arguments [''--cores'', ''2'', ''dir/p.asm''] default_options = Inr (Some ?opts)"
    by (simp add: parsePositiveOption_def std_stoul_def is_space_def is_digit_def digits_val_def digit_val_def
        add_program_def default_options_def)
  have boot: "vf_os (boot ?opts ?in) = VirtualOS 100 ?in"
    by (simp add: boot_fields default_options_def) (simp add: VirtualOS_def)
  have "image_fits_memory \<lparr>ap_code = [encodeInstruction OP_HALT 0 0 0 0], ap_data = []\<rparr> (vm_phys (VirtualOS 100 ?in))"
    by (simp add: image_fits_memory_def PhysicalMemory_def VirtualOS_def)
  from load_image_ok [OF this] obtain l pm where
    "load_image \<lparr>ap_code = [encodeInstruction OP_HALT 0 0 0 0], ap_data = []\<rparr> (vm_phys (VirtualOS 100 ?in)) = (Inr l, pm)"
    by blast
  from loadProgramFromSource_runs [OF sample_source this] obtain pid m where
    "loadProgramFromSource (source_lines [''CODE:'', ''halt'']) ''p.asm'' (VirtualOS 100 ?in) = (Inr pid, m)" by blast
  moreover have "path_filename ''dir/p.asm'' = ''p.asm''" by (simp add: path_filename_def)
  ultimately have "load_programs one_file [''dir/p.asm''] (boot ?opts ?in) = (Inr (), (boot ?opts ?in)\<lparr>vf_os := m\<rparr>)"
    by (simp add: VirtualMachine_loadProgram_def on_os_def boot loadProgram_def one_file_def vm_run)
  then have run: "main_program one_file ?in ''vm'' [''--cores'', ''2'', ''dir/p.asm''] = Run (run_system 2 m)"
    using main_starts [OF args, of one_file "?in" "(boot ?opts ?in)\<lparr>vf_os := m\<rparr>" "''vm''"]
    by (simp add: default_options_def)
  from started_system_is_well_formed [OF run, of "run_system 2 m"] args show ?thesis
    by (simp add: run) (simp add: path_filename_def default_options_def)
qed

end
