(* ===== verification/Token_Stream.thy ===== *)
theory Token_Stream
  imports Parser
begin

text \<open>
  The parser seen from its tokens: the lexemes of a source, what one token of lookahead, marks and
  restores do to them, and a weakest-precondition calculus in which the operations of the parser
  consume lexemes from a list.
\<close>

section \<open>The tokens of a source\<close>

text \<open>
  A lexeme is the type and the text of a token. \<open>lexemes\<close> reads a source to its end with
  \<open>readToken\<close>: it is what the parser has in front of it, without the line numbers, the lookahead
  and the position.
\<close>

type_synonym lexeme = "token_type \<times> string"

definition lexeme_of :: "token \<Rightarrow> lexeme" where
  "lexeme_of t = (tk_type t, tk_text t)"

function lexemes :: "lexer \<Rightarrow> vm_exception + lexeme list" where
  "lexemes lx =
    (case readToken lx of
       (Inl e, _) \<Rightarrow> Inl e
     | (Inr t, lx') \<Rightarrow>
         if tk_type t = TK_End then Inr []
         else case lexemes lx' of Inl e \<Rightarrow> Inl e | Inr ls \<Rightarrow> Inr (lexeme_of t # ls))"
  by pat_completeness auto

termination
proof (relation "measure (\<lambda>lx. length (lx_source lx) - lx_position lx)")
  fix lx r lx' t
  assume r: "(r, lx') = readToken lx" "r = Inr t" "tk_type t \<noteq> TK_End"
  then have "token_read lx (Inr t) lx'" using readToken_progress by metis
  with r(3) show "(lx', lx) \<in> measure (\<lambda>lx. length (lx_source lx) - lx_position lx)"
    by (auto simp: token_read_def)
qed simp

declare lexemes.simps [simp del]

text \<open>What is read depends on the source and the position; the line only marks the token.\<close>

definition same_place :: "lexer \<Rightarrow> lexer \<Rightarrow> bool" where
  "same_place lx lx' \<longleftrightarrow> lx_source lx' = lx_source lx \<and> lx_position lx' = lx_position lx"

lemma same_place_rest: "same_place lx lx' \<Longrightarrow> lx_rest lx' = lx_rest lx"
  by (simp add: same_place_def lx_rest_def)

lemma readToken_at_place:
  assumes "same_place lx k" and "readToken_at lx = (Inr t, lx')"
  shows "\<exists>u k'. readToken_at k = (Inr u, k') \<and> lexeme_of u = lexeme_of t \<and> same_place lx' k'"
proof -
  have k: "lx_source k = lx_source lx" "lx_position k = lx_position lx" "lx_rest k = lx_rest lx"
    using assms(1) same_place_rest [OF assms(1)] by (simp_all add: same_place_def)
  obtain c where c: "lx_source lx ! lx_position lx = c" by simp
  note defs = single_character_def makeIdentifierOrRegister_def makeNumber_def Let_def
    Token_def lexeme_of_def same_place_def k
  consider "length (lx_source lx) \<le> lx_position lx"
    | "\<not> length (lx_source lx) \<le> lx_position lx" "c \<in> {newline, CHR ''['', CHR '']'', CHR '','', CHR '':''}"
    | "\<not> length (lx_source lx) \<le> lx_position lx" "c \<notin> {newline, CHR ''['', CHR '']'', CHR '','', CHR '':''}"
      "is_alpha c \<or> c = CHR ''_''"
    | "\<not> length (lx_source lx) \<le> lx_position lx" "c \<notin> {newline, CHR ''['', CHR '']'', CHR '','', CHR '':''}"
      "\<not> (is_alpha c \<or> c = CHR ''_'')" by blast
  then show ?thesis
  proof cases
    case 1
    with assms(2) show ?thesis by (auto simp: readToken_at_def defs)
  next
    case 2
    with assms(2) show ?thesis
      by (simp add: readToken_at_def Let_def c k, elim disjE, simp_all add: newline_def)
        (auto simp: single_character_def lexeme_of_def same_place_def Token_def k)
  next
    case 3
    then have "readToken_at x = (case makeIdentifierOrRegister x of (t, x') \<Rightarrow> (Inr t, x'))" if "x \<in> {lx, k}" for x
      using that c k by (elim insertE emptyE) (simp_all add: readToken_at_def Let_def)
    from this [of lx] this [of k] assms(2) show ?thesis by (auto simp: defs)
  next
    case 4
    then have "readToken_at x = (if is_digit c \<or> c = CHR ''-''
        then (case makeNumber x of (t, x') \<Rightarrow> (Inr t, x'))
        else (Inl (AssemblerError (lx_line x) (''unexpected character: '' @ [c])), x))" if "x \<in> {lx, k}" for x
      using that c k by (elim insertE emptyE) (simp_all add: readToken_at_def Let_def)
    from this [of lx] this [of k] assms(2) show ?thesis by (auto simp: defs split: if_split_asm)
  qed
qed

lemma readToken_place:
  assumes "same_place lx k" and "readToken lx = (Inr t, lx')"
  shows "\<exists>u k'. readToken k = (Inr u, k') \<and> lexeme_of u = lexeme_of t \<and> same_place lx' k'"
proof -
  have "same_place (skipWhitespace lx) (skipWhitespace k)"
    using same_place_rest [OF assms(1)] assms(1) by (simp add: skipWhitespace_def same_place_def)
  from readToken_at_place [OF this] assms(2) show ?thesis by (simp add: readToken_def)
qed

lemma lexemes_place: "lexemes lx = Inr ls \<Longrightarrow> same_place lx k \<Longrightarrow> lexemes k = Inr ls"
proof (induction lx arbitrary: k ls rule: lexemes.induct)
  case (1 lx)
  from "1.prems"(1) obtain t lx' where t: "readToken lx = (Inr t, lx')"
    by (auto simp: lexemes.simps [of lx] split: prod.splits sum.splits)
  from readToken_place [OF "1.prems"(2) t] obtain u k' where
    u: "readToken k = (Inr u, k')" "lexeme_of u = lexeme_of t" "same_place lx' k'" by blast
  have ty: "tk_type u = tk_type t" using u(2) by (simp add: lexeme_of_def)
  show ?case
  proof (cases "tk_type t = TK_End")
    case True
    with "1.prems"(1) t u(1) ty show ?thesis by (simp add: lexemes.simps [of lx] lexemes.simps [of k])
  next
    case False
    with "1.prems"(1) t obtain ls' where ls': "lexemes lx' = Inr ls'" "ls = lexeme_of t # ls'"
      by (auto simp: lexemes.simps [of lx] split: sum.splits)
    from "1.IH" [OF t [symmetric] refl False ls'(1) u(3)] False t u ty ls'(2) show ?thesis
      by (simp add: lexemes.simps [of k])
  qed
qed

text \<open>
  The lookahead holds what is read next. This holds for a new lexer and is kept by every operation.
\<close>

definition lookahead_ok :: "lexer \<Rightarrow> bool" where
  "lookahead_ok lx \<longleftrightarrow> (lx_hasPeek lx \<longrightarrow>
     (\<exists>t lx'. readToken lx = (Inr t, lx') \<and> lexeme_of t = lexeme_of (lx_peekToken lx) \<and>
       lx_position lx' = lx_peekPosition lx \<and> lx_source lx' = lx_source lx))"

definition ready_for :: "lexer \<Rightarrow> lexeme list \<Rightarrow> bool" where
  "ready_for lx ls \<longleftrightarrow> lookahead_ok lx \<and> lexemes lx = Inr ls"

lemma lookahead_no_peek [simp]: "\<not> lx_hasPeek lx \<Longrightarrow> lookahead_ok lx"
  by (simp add: lookahead_ok_def)

lemma lexemes_Cons:
  assumes "lexemes lx = Inr (l # ls)"
  obtains t lx' where "readToken lx = (Inr t, lx')" "lexeme_of t = l" "tk_type t \<noteq> TK_End" "lexemes lx' = Inr ls"
  using assms by (auto simp: lexemes.simps [of lx] split: prod.splits sum.splits if_splits)

lemma lexemes_Nil:
  assumes "lexemes lx = Inr []"
  obtains t lx' where "readToken lx = (Inr t, lx')" "tk_type t = TK_End"
  using assms by (auto simp: lexemes.simps [of lx] split: prod.splits sum.splits if_splits)

lemma readToken_keeps_peek: "readToken lx = (r, lx') \<Longrightarrow> lx_hasPeek lx' = lx_hasPeek lx"
  using readToken_progress [of lx r lx'] by (simp add: token_read_def)

lemma next_token_ready:
  assumes "ready_for lx (l # ls)"
  obtains t lx' where "next_token lx = (Inr t, lx')" "lexeme_of t = l" "ready_for lx' ls"
proof -
  from assms obtain t lx' where t: "readToken lx = (Inr t, lx')" "lexeme_of t = l" "lexemes lx' = Inr ls"
    by (auto simp: ready_for_def elim: lexemes_Cons)
  have src: "lx_source lx' = lx_source lx"
    using readToken_progress [OF t(1)] by (simp add: token_read_def)
  show ?thesis
  proof (cases "lx_hasPeek lx")
    case True
    let ?k = "lx\<lparr>lx_hasPeek := False, lx_position := lx_peekPosition lx, lx_line := lx_peekLine lx\<rparr>"
    from assms True have "lookahead_ok lx" by (simp add: ready_for_def)
    with True t(1,2) have eq: "lexeme_of (lx_peekToken lx) = l" and pos: "lx_peekPosition lx = lx_position lx'"
      by (auto simp: lookahead_ok_def)
    have "same_place lx' ?k" using pos src by (simp add: same_place_def)
    with t(3) have "lexemes ?k = Inr ls" by (rule lexemes_place)
    then have "ready_for ?k ls" by (simp add: ready_for_def lookahead_ok_def)
    moreover have "next_token lx = (Inr (lx_peekToken lx), ?k)" using True by (simp add: next_token_def)
    ultimately show ?thesis using eq by (intro that)
  next
    case False
    with t readToken_keeps_peek [OF t(1)] have "ready_for lx' ls" by (simp add: ready_for_def lookahead_ok_def)
    moreover have "next_token lx = (Inr t, lx')" using False t(1) by (simp add: next_token_def)
    ultimately show ?thesis using t(2) by (intro that)
  qed
qed

lemma peek_token_ready:
  assumes "ready_for lx ls"
  obtains t lx' where "peek_token lx = (Inr t, lx')" "ready_for lx' ls"
    "tk_type t = (case ls of [] \<Rightarrow> TK_End | l # _ \<Rightarrow> fst l)" "same_place lx lx'"
proof -
  obtain t lx' where t: "readToken lx = (Inr t, lx')"
    "tk_type t = (case ls of [] \<Rightarrow> TK_End | l # _ \<Rightarrow> fst l)"
  proof (cases ls)
    case Nil
    with assms show ?thesis by (auto simp: ready_for_def elim!: lexemes_Nil intro: that)
  next
    case (Cons l ls')
    with assms show ?thesis
      by (auto simp: ready_for_def lexeme_of_def elim!: lexemes_Cons intro: that)
  qed
  have src: "lx_source lx' = lx_source lx"
    using readToken_progress [OF t(1)] by (simp add: token_read_def)
  show ?thesis
  proof (cases "lx_hasPeek lx")
    case True
    then have "peek_token lx = (Inr (lx_peekToken lx), lx)" by (simp add: peek_token_def)
    moreover have "lexeme_of (lx_peekToken lx) = lexeme_of t"
      using True assms t(1) by (auto simp: ready_for_def lookahead_ok_def)
    ultimately show ?thesis
      using assms t(2) by (intro that [of "lx_peekToken lx" lx]) (simp_all add: same_place_def lexeme_of_def)
  next
    case False
    let ?k = "lx'\<lparr>lx_peekToken := t, lx_peekPosition := lx_position lx', lx_peekLine := lx_line lx',
                  lx_position := lx_position lx, lx_line := lx_line lx, lx_hasPeek := True\<rparr>"
    have pl: "same_place lx ?k" using src by (simp add: same_place_def)
    from readToken_place [OF pl t(1)] src have "lookahead_ok ?k"
      by (auto simp: lookahead_ok_def same_place_def)
    moreover have "lexemes ?k = Inr ls" using assms pl by (auto simp: ready_for_def intro: lexemes_place)
    ultimately have "ready_for ?k ls" by (simp add: ready_for_def)
    moreover have "peek_token lx = (Inr t, ?k)" using False t(1) by (simp add: peek_token_def)
    ultimately show ?thesis using t(2) pl by (intro that)
  qed
qed

lemma restore_ready:
  assumes "ready_for lx ls" and "lx_source lx' = lx_source lx"
  shows "ready_for (lexer_restore (lexer_mark lx) lx') ls"
  using assms by (auto simp: ready_for_def lexer_restore_def lexer_mark_def same_place_def elim: lexemes_place)

section \<open>Weakest preconditions\<close>

text \<open>A computation returns, and value and state after it satisfy the predicate.\<close>

definition yields :: "('s, 'a) vm \<Rightarrow> 's \<Rightarrow> ('a \<Rightarrow> 's \<Rightarrow> bool) \<Rightarrow> bool" where
  "yields m s Q \<longleftrightarrow> (\<exists>a s'. m s = (Inr a, s') \<and> Q a s')"

lemma yields_bind: "yields (vbind m f) s Q \<longleftrightarrow> yields m s (\<lambda>a s'. yields (f a) s' Q)"
  by (fastforce simp: yields_def vbind_def split: prod.splits sum.splits)

lemma yields_seq: "yields (vseq m k) s Q \<longleftrightarrow> yields m s (\<lambda>_ s'. yields k s' Q)"
  by (simp add: vseq_def yields_bind)

lemma yields_basic:
  "yields (vreturn a) s Q \<longleftrightarrow> Q a s" "\<not> yields (vthrow e) s Q" "yields (vgets f) s Q \<longleftrightarrow> Q (f s) s"
  "yields (vmodify g) s Q' \<longleftrightarrow> Q' () (g s)"
  by (simp_all add: yields_def vreturn_def vthrow_def vgets_def vmodify_def)

lemma yields_read: "yields (vread f) s Q \<longleftrightarrow> (\<exists>a. f s = Inr a \<and> Q a s)"
  by (auto simp: yields_def vread_def)

lemma yields_lift: "yields (lift_result r) s Q \<longleftrightarrow> (\<exists>a. r = Inr a \<and> Q a s)"
  by (simp add: lift_result_def yields_read)

lemma yields_mono: "yields m s Q \<Longrightarrow> (\<And>a s'. Q a s' \<Longrightarrow> Q' a s') \<Longrightarrow> yields m s Q'"
  by (auto simp: yields_def)

lemmas yields_simps = yields_bind yields_seq yields_basic yields_read yields_lift

section \<open>The parser on lexemes\<close>

definition facing :: "parser \<Rightarrow> lexeme list \<Rightarrow> bool" where
  "facing s ls \<longleftrightarrow> ready_for (ps_lexer s) ls"

definition next_type :: "lexeme list \<Rightarrow> token_type" where
  "next_type ls = (case ls of [] \<Rightarrow> TK_End | l # _ \<Rightarrow> fst l)"

lemma next_type_simps [simp]: "next_type [] = TK_End" "next_type (l # ls) = fst l"
  by (simp_all add: next_type_def)

lemma facing_lexer [simp]: "facing (s\<lparr>ps_lexer := lx\<rparr>) ls \<longleftrightarrow> ready_for lx ls"
  by (simp add: facing_def)

lemma facing_same: "ps_lexer s' = ps_lexer s \<Longrightarrow> facing s' ls = facing s ls"
  by (simp add: facing_def)

lemma facing_updates [simp]:
  "facing (s\<lparr>ps_section := sec\<rparr>) ls = facing s ls" "facing (s\<lparr>ps_codeAddress := a\<rparr>) ls = facing s ls"
  "facing (s\<lparr>ps_dataOffset := a\<rparr>) ls = facing s ls" "facing (s\<lparr>ps_labels := m\<rparr>) ls = facing s ls"
  "facing (s\<lparr>ps_dataSymbols := ds\<rparr>) ls = facing s ls" "facing (s\<lparr>ps_code := c\<rparr>) ls = facing s ls"
  by (simp_all add: facing_def)

lemma yields_next:
  assumes "facing s (l # ls)"
    and "\<And>t lx. lexeme_of t = l \<Longrightarrow> ready_for lx ls \<Longrightarrow> lx_source lx = lx_source (ps_lexer s) \<Longrightarrow> Q t (s\<lparr>ps_lexer := lx\<rparr>)"
  shows "yields (on_lexer next_token) s Q"
proof -
  from assms(1) obtain t lx where t: "next_token (ps_lexer s) = (Inr t, lx)" "lexeme_of t = l" "ready_for lx ls"
    by (auto simp: facing_def elim: next_token_ready)
  moreover have "lx_source lx = lx_source (ps_lexer s)"
    using next_token_progress [OF t(1)] by simp
  ultimately show ?thesis using assms(2) by (auto simp: yields_def on_lexer_eq)
qed

lemma yields_peek:
  assumes "facing s ls"
    and "\<And>t lx. tk_type t = next_type ls \<Longrightarrow> ready_for lx ls \<Longrightarrow> same_place (ps_lexer s) lx \<Longrightarrow>
      Q t (s\<lparr>ps_lexer := lx\<rparr>)"
  shows "yields (on_lexer peek_token) s Q"
proof -
  from assms(1) obtain t lx where "peek_token (ps_lexer s) = (Inr t, lx)" "ready_for lx ls"
    "tk_type t = next_type ls" "same_place (ps_lexer s) lx"
    unfolding facing_def next_type_def by (rule peek_token_ready)
  with assms(2) show ?thesis by (auto simp: yields_def on_lexer_eq)
qed

text \<open>The states that differ in their lexer only, with the source it reads.\<close>

definition body :: "parser \<Rightarrow> parser" where
  "body s = s\<lparr>ps_lexer := Lexer (lx_source (ps_lexer s))\<rparr>"

lemma body_lexer [simp]: "lx_source lx = lx_source (ps_lexer s) \<Longrightarrow> body (s\<lparr>ps_lexer := lx\<rparr>) = body s"
  by (simp add: body_def)

lemma yields_consume:
  assumes "facing s (l # ls)" and "fst l = ty"
    and "\<And>t s'. lexeme_of t = l \<Longrightarrow> facing s' ls \<Longrightarrow> body s' = body s \<Longrightarrow> Q t s'"
  shows "yields (consume ty) s Q"
  unfolding consume_def yields_bind
proof (rule yields_next [OF assms(1)])
  fix t lx
  assume t: "lexeme_of t = l" "ready_for lx ls" "lx_source lx = lx_source (ps_lexer s)"
  then have "tk_type t = ty" using assms(2) by (auto simp: lexeme_of_def)
  with t show "yields (if tk_type t \<noteq> ty then vthrow (AssemblerError (tk_line t) (''unexpected token: '' @ tk_text t))
      else vreturn t) (s\<lparr>ps_lexer := lx\<rparr>) Q"
    using assms(3) by (simp add: yields_basic)
qed

lemma yields_look:
  assumes "facing s ls"
    and "\<And>t s'. tk_type t = next_type ls \<Longrightarrow> facing s' ls \<Longrightarrow> body s' = body s \<Longrightarrow> Q t s'"
  shows "yields (on_lexer peek_token) s Q"
  by (rule yields_peek [OF assms(1)]) (auto simp: same_place_def intro: assms(2))

lemma yields_match:
  assumes "facing s ls" and "ty \<noteq> TK_End"
    and "next_type ls = ty \<Longrightarrow> (\<And>s'. facing s' (tl ls) \<Longrightarrow> body s' = body s \<Longrightarrow> Q True s')"
    and "next_type ls \<noteq> ty \<Longrightarrow> (\<And>s'. facing s' ls \<Longrightarrow> body s' = body s \<Longrightarrow> Q False s')"
  shows "yields (match_token ty) s Q"
  unfolding match_token_def yields_bind
proof (rule yields_look [OF assms(1)])
  fix t s'
  assume t: "tk_type t = next_type ls" "facing s' ls" "body s' = body s"
  show "yields (if tk_type t = ty then vbind (on_lexer next_token) (\<lambda>_. vreturn True) else vreturn False) s' Q"
  proof (cases "next_type ls = ty")
    case True
    with assms(2) obtain l ls' where ls: "ls = l # ls'" by (cases ls) auto
    from True have eq: "(if tk_type t = ty then vbind (on_lexer next_token) (\<lambda>_. vreturn True) else vreturn False) =
        vbind (on_lexer next_token) (\<lambda>_. vreturn True)" using t(1) by simp
    have "yields (on_lexer next_token) s' (\<lambda>_ s'. Q True s')"
      using t(2) unfolding ls
    proof (rule yields_next)
      fix u lx
      assume "ready_for lx ls'" "lx_source lx = lx_source (ps_lexer s')"
      with assms(3) [OF True] ls t(3) show "Q True (s'\<lparr>ps_lexer := lx\<rparr>)" by simp
    qed
    then show ?thesis unfolding eq by (simp add: yields_bind yields_basic)
  next
    case False
    with t assms(4) show ?thesis by (simp add: yields_basic)
  qed
qed

text \<open>Newlines between statements are skipped.\<close>

definition newline_lexeme :: lexeme where
  "newline_lexeme = (TK_Newline, [CHR 0x5C, CHR ''n''])"

lemma yields_skipNewlines:
  assumes "facing s (replicate n newline_lexeme @ ls)" and "next_type ls \<noteq> TK_Newline"
    and "\<And>s'. facing s' ls \<Longrightarrow> body s' = body s \<Longrightarrow> Q () s'"
  shows "yields skipNewlines s Q"
  using assms(1,3)
proof (induction n arbitrary: s)
  case 0
  have "yields (match_token TK_Newline) s (\<lambda>b s'. \<not> b \<and> Q () s')"
    by (rule yields_match [OF "0.prems"(1)]) (use 0 assms(2) in auto)
  then show ?case by (auto simp: yields_def skipNewlines.simps [of s])
next
  case (Suc n)
  have "yields (match_token TK_Newline) s (\<lambda>b s'. b \<and> yields skipNewlines s' Q)"
  proof (rule yields_match [OF Suc.prems(1)])
    fix s'
    assume *: "facing s' (tl (replicate (Suc n) newline_lexeme @ ls))" "body s' = body s"
    have "yields skipNewlines s' Q" by (rule Suc.IH) (use * Suc.prems(2) in auto)
    then show "True \<and> yields skipNewlines s' Q" by simp
  qed (simp_all add: newline_lexeme_def)
  then show ?case by (auto simp: yields_def skipNewlines.simps [of s])
qed

end
