(* ===== verification/Assembler.thy ===== *)
theory Assembler
  imports Token_Stream
begin

text \<open>
  What the assembler computes: assembly programs as data, the tokens they are written with, the
  word of each instruction, and the proof that the two passes of the parser turn any source with
  these tokens into these words.
\<close>

section \<open>Assembly programs\<close>

text \<open>The address operand of a call or of a memory instruction: a data symbol in brackets or a number.\<close>

datatype address = At_symbol string | At_number int

datatype instruction =
    A_halt
  | A_ret
  | A_push_register u8
  | A_push_label string
  | A_push_number int
  | A_pop u8
  | A_call syscall_id address
  | A_jump opcode string
  | A_unary opcode u8
  | A_memory opcode u8 address
  | A_registers opcode u8 u8
  | A_mov_symbol u8 string
  | A_immediate opcode u8 int

datatype statement =
    Enter section_kind
  | Define data_type string int
  | Label string
  | Instruction instruction

text \<open>Decimal numbers with a sign.\<close>

definition show_int :: "int \<Rightarrow> string" where
  "show_int v = (if v < 0 then CHR ''-'' # show_nat (nat (- v)) else show_nat (nat v))"

fun syscall_name :: "syscall_id \<Rightarrow> string" where
  "syscall_name SYS_Print = ''print''"
| "syscall_name SYS_Scan = ''scan''"
| "syscall_name SYS_Exit = ''exit''"
| "syscall_name SYS_Yield = ''yield''"
| "syscall_name SYS_Load = ''load''"
| "syscall_name (SYS_unnamed n) = ''''"

fun type_name :: "data_type \<Rightarrow> string" where
  "type_name DT_Byte = ''BYTE''"
| "type_name DT_DByte = ''DBYTE''"
| "type_name DT_Word = ''WORD''"
| "type_name DT_QWord = ''QWORD''"

section \<open>Their tokens\<close>

definition word_lexeme :: "string \<Rightarrow> lexeme" where
  "word_lexeme x = (TK_Identifier, x)"

definition register_lexeme :: "u8 \<Rightarrow> lexeme" where
  "register_lexeme r = (TK_Register, registerNameFromIndex r)"

definition number_lexeme :: "int \<Rightarrow> lexeme" where
  "number_lexeme v = (TK_Number, show_int v)"

definition comma :: lexeme where "comma = (TK_Comma, '','')"
definition colon :: lexeme where "colon = (TK_Colon, '':'')"
definition open_bracket :: lexeme where "open_bracket = (TK_LBracket, ''['')"
definition close_bracket :: lexeme where "close_bracket = (TK_RBracket, '']'')"

lemmas lexeme_defs = word_lexeme_def register_lexeme_def number_lexeme_def comma_def colon_def open_bracket_def close_bracket_def

fun address_lexemes :: "address \<Rightarrow> lexeme list" where
  "address_lexemes (At_symbol x) = [open_bracket, word_lexeme x, close_bracket]"
| "address_lexemes (At_number v) = [number_lexeme v]"

fun instruction_lexemes :: "instruction \<Rightarrow> lexeme list" where
  "instruction_lexemes A_halt = [word_lexeme ''halt'']"
| "instruction_lexemes A_ret = [word_lexeme ''ret'']"
| "instruction_lexemes (A_push_register r) = [word_lexeme ''push'', register_lexeme r]"
| "instruction_lexemes (A_push_label l) = [word_lexeme ''push'', word_lexeme l]"
| "instruction_lexemes (A_push_number v) = [word_lexeme ''push'', number_lexeme v]"
| "instruction_lexemes (A_pop r) = [word_lexeme ''pop'', register_lexeme r]"
| "instruction_lexemes (A_call sc a) =
     word_lexeme ''call'' # word_lexeme (syscall_name sc) # comma # address_lexemes a"
| "instruction_lexemes (A_jump op l) = [word_lexeme (opcodeToMnemonic op), word_lexeme l]"
| "instruction_lexemes (A_unary op r) = [word_lexeme (opcodeToMnemonic op), register_lexeme r]"
| "instruction_lexemes (A_memory op r a) =
     word_lexeme (opcodeToMnemonic op) # register_lexeme r # comma # address_lexemes a"
| "instruction_lexemes (A_registers op r r') =
     [word_lexeme (opcodeToMnemonic op), register_lexeme r, comma, register_lexeme r']"
| "instruction_lexemes (A_mov_symbol r x) =
     [word_lexeme ''mov'', register_lexeme r, comma, open_bracket, word_lexeme x, close_bracket]"
| "instruction_lexemes (A_immediate op r v) =
     [word_lexeme (opcodeToMnemonic op), register_lexeme r, comma, number_lexeme v]"

fun statement_lexemes :: "statement \<Rightarrow> lexeme list" where
  "statement_lexemes (Enter sec) = [word_lexeme (if sec = Section_Data then ''DATA'' else ''CODE''), colon]"
| "statement_lexemes (Define ty x v) = [word_lexeme (type_name ty), word_lexeme x, number_lexeme v]"
| "statement_lexemes (Label l) = [word_lexeme l, colon]"
| "statement_lexemes (Instruction i) = instruction_lexemes i"

text \<open>A program with the number of newlines after each statement.\<close>

type_synonym line = "statement \<times> nat"

definition lines_lexemes :: "line list \<Rightarrow> lexeme list" where
  "lines_lexemes ls = concat (map (\<lambda>(st, n). statement_lexemes st @ replicate n newline_lexeme) ls)"

section \<open>Their meaning\<close>

definition imm16 :: "int \<Rightarrow> u16" where
  "imm16 v = word_of_int v"

definition symbol_offset :: "data_symbol list \<Rightarrow> string \<Rightarrow> Address option" where
  "symbol_offset ds x = map_option ds_offset (find (\<lambda>d. ds_name d = x) ds)"

fun address_value :: "data_symbol list \<Rightarrow> address \<Rightarrow> Address option" where
  "address_value ds (At_symbol x) = symbol_offset ds x"
| "address_value ds (At_number v) = Some (scast (imm16 v))"

text \<open>The word of an instruction, given what labels and data symbols stand for.\<close>

fun instruction_word :: "(string \<rightharpoonup> Address) \<Rightarrow> data_symbol list \<Rightarrow> instruction \<Rightarrow> Word option" where
  "instruction_word labels ds A_halt = Some (encodeInstruction OP_HALT 0 0 0 0)"
| "instruction_word labels ds A_ret = Some (encodeInstruction OP_RET 0 0 0 0)"
| "instruction_word labels ds (A_push_register r) = Some (encodeInstruction OP_PUSH r r r 0)"
| "instruction_word labels ds (A_push_label l) =
     map_option (\<lambda>a. encodeInstruction OP_PUSH 0 0 kImmediateMarker (ucast a)) (labels l)"
| "instruction_word labels ds (A_push_number v) = Some (encodeInstruction OP_PUSH 0 0 kImmediateMarker (imm16 v))"
| "instruction_word labels ds (A_pop r) = Some (encodeInstruction OP_POP r 0 0 0)"
| "instruction_word labels ds (A_call sc a) =
     map_option (\<lambda>x. encodeInstruction OP_CALL 0 (ucast (syscall_number sc)) 0 (ucast x)) (address_value ds a)"
| "instruction_word labels ds (A_jump op l) = map_option (\<lambda>a. encodeInstruction op 0 0 0 (ucast a)) (labels l)"
| "instruction_word labels ds (A_unary op r) = Some (encodeInstruction op r 0 0 0)"
| "instruction_word labels ds (A_memory op r a) =
     map_option (\<lambda>x. encodeInstruction op r 0 0 (ucast x)) (address_value ds a)"
| "instruction_word labels ds (A_registers op r r') =
     Some (encodeInstruction op r (if op = OP_MOV then r' else r) r' 0)"
| "instruction_word labels ds (A_mov_symbol r x) =
     map_option (\<lambda>a. encodeInstruction OP_LOAD r 0 0 (ucast a)) (symbol_offset ds x)"
| "instruction_word labels ds (A_immediate op r v) =
     Some (encodeInstruction op (if op = OP_CMP then 0 else r) (if op = OP_MOV then 0 else r) kImmediateMarker (imm16 v))"

text \<open>Numbers that \<^verbatim>\<open>std::stol\<close> accepts, and the forms of the instructions.\<close>

definition number_ok :: "int \<Rightarrow> bool" where
  "number_ok v \<longleftrightarrow> - (2 ^ 63) \<le> v \<and> v < 2 ^ 63"

definition jump_opcodes :: "opcode list" where
  "jump_opcodes = [OP_JMP, OP_JE, OP_JNE, OP_JG, OP_JGE, OP_JL, OP_JLE]"

definition unary_opcodes :: "opcode list" where
  "unary_opcodes = [OP_INC, OP_DEC, OP_NOT]"

definition binary_opcodes :: "opcode list" where
  "binary_opcodes = [OP_MOV, OP_ADD, OP_SUB, OP_MUL, OP_DIV, OP_MOD, OP_AND, OP_OR, OP_XOR, OP_CMP, OP_NOP]"

fun address_ok :: "address \<Rightarrow> bool" where
  "address_ok (At_symbol x) = True"
| "address_ok (At_number v) = number_ok v"

fun instruction_ok :: "instruction \<Rightarrow> bool" where
  "instruction_ok A_halt = True"
| "instruction_ok A_ret = True"
| "instruction_ok (A_push_register r) = (r < 16)"
| "instruction_ok (A_push_label l) = True"
| "instruction_ok (A_push_number v) = number_ok v"
| "instruction_ok (A_pop r) = (r < 16)"
| "instruction_ok (A_call sc a) = ((\<forall>n. sc \<noteq> SYS_unnamed n) \<and> address_ok a)"
| "instruction_ok (A_jump op l) = (op \<in> set jump_opcodes)"
| "instruction_ok (A_unary op r) = (op \<in> set unary_opcodes \<and> r < 16)"
| "instruction_ok (A_memory op r a) = (op \<in> {OP_LOAD, OP_STORE} \<and> r < 16 \<and> address_ok a)"
| "instruction_ok (A_registers op r r') = (op \<in> set binary_opcodes \<and> r < 16 \<and> r' < 16)"
| "instruction_ok (A_mov_symbol r x) = (r < 16)"
| "instruction_ok (A_immediate op r v) = (op \<in> set binary_opcodes \<and> r < 16 \<and> number_ok v)"

text \<open>The symbols that an instruction looks up already in the first pass.\<close>

fun address_symbols :: "address \<Rightarrow> string list" where
  "address_symbols (At_symbol x) = [x]"
| "address_symbols (At_number v) = []"

fun instruction_symbols :: "instruction \<Rightarrow> string list" where
  "instruction_symbols (A_call sc a) = address_symbols a"
| "instruction_symbols (A_memory op r a) = address_symbols a"
| "instruction_symbols (A_mov_symbol r x) = [x]"
| "instruction_symbols _ = []"

definition symbols_known :: "data_symbol list \<Rightarrow> instruction \<Rightarrow> bool" where
  "symbols_known ds i \<longleftrightarrow> (\<forall>x \<in> set (instruction_symbols i). symbol_offset ds x \<noteq> None)"

section \<open>Operands\<close>

lemma show_int_stol: "number_ok v \<Longrightarrow> std_stol (show_int v) = Inr v"
proof -
  assume v: "number_ok v"
  have *: "strtol_value (CHR ''-'' # show_nat n) = Some (- int n)" for n
    using show_nat_digits [of n]
    by (simp add: strtol_value_def is_space_def Let_def list_all_iff flip: takeWhile_eq_all_conv)
  show ?thesis
    using v * [of "nat (- v)"] by (simp add: std_stol_def show_int_def number_ok_def)
qed

lemma yields_register:
  assumes "facing s (register_lexeme r # ls)" and "r < 16"
    and "\<And>s'. facing s' ls \<Longrightarrow> body s' = body s \<Longrightarrow> Q r s'"
  shows "yields parse_register s Q"
  unfolding parse_register_def yields_bind
  by (rule yields_consume [OF assms(1)])
    (use assms(2,3) in \<open>auto simp: register_lexeme_def lexeme_of_def yields_lift parseRegisterToken_def register_name_read\<close>)

lemma yields_number:
  assumes "facing s (number_lexeme v # ls)" and "number_ok v"
    and "\<And>s'. facing s' ls \<Longrightarrow> body s' = body s \<Longrightarrow> yields (f (imm16 v)) s' Q"
  shows "yields (vbind (consume TK_Number) (\<lambda>t. vbind (lift_result (parseNumberToken t)) f)) s Q"
  unfolding yields_bind
  by (rule yields_consume [OF assms(1)])
    (use assms(2,3) in \<open>auto simp: number_lexeme_def lexeme_of_def yields_lift parseNumberToken_def
      show_int_stol imm16_def\<close>)

lemma yields_resolve:
  assumes "symbol_offset (ps_dataSymbols s) x = Some a" and "Q a s"
  shows "yields (resolveDataSymbol x line) s Q"
  using assms by (auto simp: resolveDataSymbol_def yields_read symbol_offset_def split: option.split)

lemma body_eq:
  "body s' = body s \<longleftrightarrow> lx_source (ps_lexer s') = lx_source (ps_lexer s) \<and> ps_section s' = ps_section s \<and>
     ps_codeAddress s' = ps_codeAddress s \<and> ps_dataOffset s' = ps_dataOffset s \<and> ps_labels s' = ps_labels s \<and>
     ps_dataSymbols s' = ps_dataSymbols s \<and> ps_code s' = ps_code s"
  by (cases s; cases s') (auto simp: body_def Lexer_def)

lemma body_symbols: "body s' = body s \<Longrightarrow> ps_dataSymbols s' = ps_dataSymbols s"
  by (simp add: body_eq)

lemma yields_symbol:
  assumes "facing s (word_lexeme x # close_bracket # ls)" and "symbol_offset (ps_dataSymbols s) x = Some a"
    and "\<And>t s'. facing s' ls \<Longrightarrow> body s' = body s \<Longrightarrow> Q (t, a) s'"
  shows "yields parse_symbol s Q"
  unfolding parse_symbol_def yields_bind
proof (rule yields_consume [OF assms(1)])
  fix t s1
  assume t: "lexeme_of t = word_lexeme x" "facing s1 (close_bracket # ls)" "body s1 = body s"
  show "yields (resolveDataSymbol (tk_text t) (tk_line t)) s1
      (\<lambda>offset s'. yields (consume TK_RBracket) s' (\<lambda>_ s'. yields (vreturn (t, offset)) s' Q))"
  proof (rule yields_resolve)
    show "symbol_offset (ps_dataSymbols s1) (tk_text t) = Some a"
      using t(1) assms(2) body_symbols [OF t(3)] by (simp add: lexeme_of_def word_lexeme_def)
    show "yields (consume TK_RBracket) s1 (\<lambda>_ s'. yields (vreturn (t, a)) s' Q)"
      by (rule yields_consume [OF t(2)]) (use t(3) assms(3) in \<open>auto simp: close_bracket_def yields_basic\<close>)
  qed
qed (simp add: word_lexeme_def)

lemma yields_address:
  assumes "facing s (address_lexemes a @ ls)" and "address_ok a" and "address_value (ps_dataSymbols s) a = Some x"
    and "\<And>s'. facing s' ls \<Longrightarrow> body s' = body s \<Longrightarrow> Q x s'"
  shows "yields parse_address s Q"
proof (cases a)
  case (At_symbol name)
  have f: "facing s (open_bracket # word_lexeme name # close_bracket # ls)"
    using assms(1) At_symbol by simp
  show ?thesis
    unfolding parse_address_def yields_bind
  proof (rule yields_match [OF f])
    fix s1
    assume "facing s1 (tl (open_bracket # word_lexeme name # close_bracket # ls))" and b: "body s1 = body s"
    then have "facing s1 (word_lexeme name # close_bracket # ls)" by simp
    then have "yields parse_symbol s1 (\<lambda>(_, offset) s'. Q offset s')"
      by (rule yields_symbol [where a = x])
        (use At_symbol b body_symbols [OF b] assms(3,4) in auto)
    then show "yields (if True then vbind parse_symbol (\<lambda>(_, offset). vreturn offset)
         else vbind (consume TK_Number) (\<lambda>numToken. vbind (lift_result (parseNumberToken numToken)) (\<lambda>imm. vreturn (scast imm)))) s1 Q"
      by (simp add: yields_bind yields_basic case_prod_unfold)
  qed (simp_all add: open_bracket_def)
next
  case (At_number v)
  have f: "facing s (number_lexeme v # ls)" using assms(1) At_number by simp
  show ?thesis
    unfolding parse_address_def yields_bind [of "match_token TK_LBracket"]
  proof (rule yields_match [OF f])
    fix s1
    assume f1: "facing s1 (number_lexeme v # ls)" and b: "body s1 = body s"
    from f1 have "yields (vbind (consume TK_Number) (\<lambda>numToken. vbind (lift_result (parseNumberToken numToken)) (\<lambda>imm. vreturn (scast imm)))) s1 Q"
      by (rule yields_number) (use At_number b assms in \<open>auto simp: yields_basic\<close>)
    then show "yields (if False then vbind parse_symbol (\<lambda>(_, offset). vreturn offset)
         else vbind (consume TK_Number) (\<lambda>numToken. vbind (lift_result (parseNumberToken numToken)) (\<lambda>imm. vreturn (scast imm)))) s1 Q"
      by simp
  qed (simp_all add: number_lexeme_def)
qed

definition emitted :: "bool \<Rightarrow> Word \<Rightarrow> parser \<Rightarrow> parser" where
  "emitted emit w s = (if emit then s\<lparr>ps_code := ps_code s @ [w]\<rparr> else s)"

text \<open>What parsing the operands of an instruction ends with.\<close>

definition ends_with :: "bool \<Rightarrow> Word \<Rightarrow> parser \<Rightarrow> lexeme list \<Rightarrow> unit \<Rightarrow> parser \<Rightarrow> bool" where
  "ends_with emit w s ls u s' \<longleftrightarrow> facing s' ls \<and> body s' = body (emitted emit w s)"

lemma yields_emit:
  assumes "facing s1 ls" and "body s1 = body s"
    and "emit \<Longrightarrow> yields wm s1 (\<lambda>x s'. x = w \<and> s' = s1)"
  shows "yields (emit_word emit wm) s1 (ends_with emit w s ls)"
proof (cases emit)
  case True
  have "ends_with emit w s ls () (s1\<lparr>ps_code := ps_code s1 @ [w]\<rparr>)"
    using assms(1,2) True by (simp add: ends_with_def emitted_def body_eq)
  with assms(3) [OF True] True show ?thesis
    by (simp add: emit_word_def yields_simps) (auto elim!: yields_mono)
next
  case False
  with assms(1,2) show ?thesis by (simp add: emit_word_def yields_simps ends_with_def emitted_def)
qed

lemma yields_unary:
  assumes "facing s (register_lexeme r # ls)" and "r < 16" and "emit \<Longrightarrow> w = encodeInstruction op r 0 0 0"
  shows "yields (parse_unary op emit) s (ends_with emit w s ls)"
  unfolding parse_unary_def yields_bind
  by (rule yields_register [OF assms(1,2)], rule yields_emit) (use assms(3) in \<open>auto simp: yields_simps\<close>)

lemma yields_label:
  assumes "ps_labels s l = Some a" and "Q a s"
  shows "yields (resolveLabel l line) s Q"
  using assms by (auto simp: resolveLabel_def yields_read)

lemma yields_label_operand:
  assumes "facing s1 (word_lexeme l # ls)" and "body s1 = body s"
    and "emit \<Longrightarrow> ps_labels s l = Some a \<and> w = f a"
  shows "yields (label_operand f emit) s1 (ends_with emit w s ls)"
  unfolding label_operand_def yields_bind [of "consume TK_Identifier"]
proof (rule yields_consume [OF assms(1)])
  fix t s2
  assume t: "lexeme_of t = word_lexeme l" "facing s2 ls" "body s2 = body s1"
  show "yields (emit_word emit (vbind (resolveLabel (tk_text t) (tk_line t)) (\<lambda>target. vreturn (f target)))) s2
      (ends_with emit w s ls)"
    using t(2) t(3) [unfolded assms(2)]
  proof (rule yields_emit)
    assume emit
    with assms(2,3) t have "ps_labels s2 (tk_text t) = Some a" "w = f a"
      by (simp_all add: body_eq lexeme_of_def word_lexeme_def)
    then show "yields (vbind (resolveLabel (tk_text t) (tk_line t)) (\<lambda>target. vreturn (f target))) s2
        (\<lambda>x s'. x = w \<and> s' = s2)"
      by (auto simp: yields_simps intro: yields_label)
  qed
qed (simp add: word_lexeme_def)

lemma yields_number_operand:
  assumes "facing s1 (number_lexeme v # ls)" and "body s1 = body s" and "number_ok v"
    and "emit \<Longrightarrow> w = f (imm16 v)"
  shows "yields (number_operand f emit) s1 (ends_with emit w s ls)"
  unfolding number_operand_def
  by (rule yields_number [OF assms(1,3)], rule yields_emit) (use assms(2,4) in \<open>simp_all add: yields_simps\<close>)

lemma yields_jump:
  assumes "facing s (word_lexeme l # ls)"
    and "emit \<Longrightarrow> ps_labels s l = Some a \<and> w = encodeInstruction op 0 0 0 (ucast a)"
  shows "yields (parse_jump op emit) s (ends_with emit w s ls)"
  unfolding parse_jump_def
  by (rule yields_label_operand [OF assms(1) refl]) (use assms(2) in \<open>simp add: encodeJump_def\<close>)

lemma yields_memory:
  assumes "facing s (register_lexeme r # comma # address_lexemes a @ ls)" and "r < 16" and "address_ok a"
    and "address_value (ps_dataSymbols s) a = Some x" and "emit \<Longrightarrow> w = encodeInstruction op r 0 0 (ucast x)"
  shows "yields (parse_memory op emit) s (ends_with emit w s ls)"
  unfolding parse_memory_def yields_bind
proof (rule yields_register [OF assms(1,2)], erule yields_consume)
  fix s1 t s2
  assume 1: "body s1 = body s" and 2: "facing s2 (address_lexemes a @ ls)" "body s2 = body s1"
  from 2(1) assms(3) show "yields parse_address s2 (\<lambda>offset s'.
      yields (emit_word emit (vreturn (encodeInstruction op r 0 0 (ucast offset)))) s' (ends_with emit w s ls))"
  proof (rule yields_address)
    show "address_value (ps_dataSymbols s2) a = Some x" using 1 2(2) assms(4) by (simp add: body_eq)
  next
    fix s3
    assume "facing s3 ls" "body s3 = body s2"
    then show "yields (emit_word emit (vreturn (encodeInstruction op r 0 0 (ucast x)))) s3 (ends_with emit w s ls)"
      by (intro yields_emit) (use 1 2(2) assms(5) in \<open>simp_all add: yields_simps\<close>)
  qed
qed (simp add: comma_def)

lemma yields_push_register:
  assumes "facing s (register_lexeme r # ls)" and "r < 16" and "emit \<Longrightarrow> w = encodeInstruction OP_PUSH r r r 0"
  shows "yields (parse_push emit) s (ends_with emit w s ls)"
  unfolding parse_push_def yields_bind [of "on_lexer peek_token"]
proof (rule yields_look [OF assms(1)])
  fix t s1
  assume t: "tk_type t = next_type (register_lexeme r # ls)" and s1: "facing s1 (register_lexeme r # ls)" "body s1 = body s"
  have ty: "tk_type t = TK_Register" using t by (simp add: register_lexeme_def)
  show "yields (if tk_type t = TK_Register
      then vbind parse_register (\<lambda>rd. emit_word emit (vreturn (encodeRegReg OP_PUSH rd rd rd)))
      else vbind current_token (\<lambda>ahead. if tk_type ahead = TK_Identifier
        then label_operand (\<lambda>target. encodeRegImm OP_PUSH 0 0 (ucast target)) emit
        else number_operand (encodeRegImm OP_PUSH 0 0) emit)) s1 (ends_with emit w s ls)"
    unfolding if_P [OF ty] yields_bind
    by (rule yields_register [OF s1(1) assms(2)], rule yields_emit)
      (use s1(2) assms(3) in \<open>simp_all add: yields_simps encodeRegReg_def\<close>)
qed

text \<open>\<^verbatim>\<open>push\<close> of a label or a number: two looks at the next token.\<close>

lemma yields_push_other:
  assumes "facing s ls'" and "next_type ls' \<noteq> TK_Register"
    and "\<And>s2. facing s2 ls' \<Longrightarrow> body s2 = body s \<Longrightarrow> yields
       (if next_type ls' = TK_Identifier then label_operand (\<lambda>target. encodeRegImm OP_PUSH 0 0 (ucast target)) emit
        else number_operand (encodeRegImm OP_PUSH 0 0) emit) s2 Q"
  shows "yields (parse_push emit) s Q"
  unfolding parse_push_def yields_bind [of "on_lexer peek_token"]
proof (rule yields_look [OF assms(1)])
  fix t s1
  assume t: "tk_type t = next_type ls'" "facing s1 ls'" "body s1 = body s"
  show "yields (if tk_type t = TK_Register
      then vbind parse_register (\<lambda>rd. emit_word emit (vreturn (encodeRegReg OP_PUSH rd rd rd)))
      else vbind current_token (\<lambda>ahead. if tk_type ahead = TK_Identifier
        then label_operand (\<lambda>target. encodeRegImm OP_PUSH 0 0 (ucast target)) emit
        else number_operand (encodeRegImm OP_PUSH 0 0) emit)) s1 Q"
    unfolding t(1) if_not_P [OF assms(2)] current_token_def yields_bind [of "on_lexer peek_token"]
    by (rule yields_look [OF t(2)]) (use t(3) assms(3) in simp)
qed

lemma yields_push_label:
  assumes "facing s (word_lexeme l # ls)"
    and "emit \<Longrightarrow> ps_labels s l = Some a \<and> w = encodeInstruction OP_PUSH 0 0 kImmediateMarker (ucast a)"
  shows "yields (parse_push emit) s (ends_with emit w s ls)"
proof (rule yields_push_other [OF assms(1)])
  fix s2
  assume "facing s2 (word_lexeme l # ls)" "body s2 = body s"
  then have "yields (label_operand (\<lambda>target. encodeRegImm OP_PUSH 0 0 (ucast target)) emit) s2 (ends_with emit w s ls)"
    by (rule yields_label_operand) (use assms(2) in \<open>simp add: encodeRegImm_def\<close>)
  then show "yields (if next_type (word_lexeme l # ls) = TK_Identifier
       then label_operand (\<lambda>target. encodeRegImm OP_PUSH 0 0 (ucast target)) emit
       else number_operand (encodeRegImm OP_PUSH 0 0) emit) s2 (ends_with emit w s ls)"
    by (simp add: word_lexeme_def)
qed (simp add: word_lexeme_def)

lemma yields_push_number:
  assumes "facing s (number_lexeme v # ls)" and "number_ok v"
    and "emit \<Longrightarrow> w = encodeInstruction OP_PUSH 0 0 kImmediateMarker (imm16 v)"
  shows "yields (parse_push emit) s (ends_with emit w s ls)"
proof (rule yields_push_other [OF assms(1)])
  fix s2
  assume "facing s2 (number_lexeme v # ls)" "body s2 = body s"
  then have "yields (number_operand (encodeRegImm OP_PUSH 0 0) emit) s2 (ends_with emit w s ls)"
    by (rule yields_number_operand) (use assms(2,3) in \<open>simp_all add: encodeRegImm_def\<close>)
  then show "yields (if next_type (number_lexeme v # ls) = TK_Identifier
       then label_operand (\<lambda>target. encodeRegImm OP_PUSH 0 0 (ucast target)) emit
       else number_operand (encodeRegImm OP_PUSH 0 0) emit) s2 (ends_with emit w s ls)"
    by (simp add: number_lexeme_def)
qed (simp add: number_lexeme_def)

lemma parseSyscall_name: "(\<forall>n. sc \<noteq> SYS_unnamed n) \<Longrightarrow> parseSyscall (syscall_name sc) = Inr sc"
  by (cases sc) (simp_all add: parseSyscall_def)

lemma yields_call:
  assumes "facing s (word_lexeme (syscall_name sc) # comma # address_lexemes a @ ls)"
    and "\<forall>n. sc \<noteq> SYS_unnamed n" and "address_ok a" and "address_value (ps_dataSymbols s) a = Some x"
    and "emit \<Longrightarrow> w = encodeInstruction OP_CALL 0 (ucast (syscall_number sc)) 0 (ucast x)"
  shows "yields (parse_call emit) s (ends_with emit w s ls)"
  unfolding parse_call_def yields_bind [of "consume TK_Identifier"] yields_bind [of "consume TK_Comma"]
    yields_bind [of parse_address]
proof (rule yields_consume [OF assms(1)], simp add: word_lexeme_def, erule yields_consume)
  fix t s1 u s2
  assume t: "lexeme_of t = word_lexeme (syscall_name sc)" "body s1 = body s"
    and s2: "facing s2 (address_lexemes a @ ls)" "body s2 = body s1"
  from s2(1) assms(3) show "yields parse_address s2 (\<lambda>arg s'. yields (emit_word emit
      (vbind (lift_result (parseSyscall (tk_text t))) (\<lambda>sc. vreturn (encodeCall sc arg)))) s' (ends_with emit w s ls))"
  proof (rule yields_address)
    show "address_value (ps_dataSymbols s2) a = Some x" using t(2) s2(2) assms(4) by (simp add: body_eq)
  next
    fix s3
    assume "facing s3 ls" "body s3 = body s2"
    then show "yields (emit_word emit
        (vbind (lift_result (parseSyscall (tk_text t))) (\<lambda>sc. vreturn (encodeCall sc x)))) s3 (ends_with emit w s ls)"
      by (intro yields_emit) (use t s2(2) assms(2,5) in
        \<open>simp_all add: yields_simps lexeme_of_def word_lexeme_def parseSyscall_name encodeCall_def\<close>)
  qed
qed (simp add: comma_def)

lemma yields_binary:
  assumes "facing s (register_lexeme r # comma # ls')" and "r < 16"
    and "\<And>s2. facing s2 ls' \<Longrightarrow> body s2 = body s \<Longrightarrow> yields (second_operand op emit r) s2 Q"
  shows "yields (parse_binary op emit) s Q"
  unfolding parse_binary_def yields_bind [of parse_register] yields_bind [of "consume TK_Comma"]
  by (rule yields_register [OF assms(1,2)], erule yields_consume) (use assms(3) in \<open>simp_all add: comma_def\<close>)

lemma second_registers:
  assumes "facing s2 (register_lexeme r' # ls)" and "body s2 = body s" and "r' < 16"
    and "emit \<Longrightarrow> w = encodeInstruction op r (if op = OP_MOV then r' else r) r' 0"
  shows "yields (second_operand op emit r) s2 (ends_with emit w s ls)"
  unfolding second_operand_def yields_bind [of "on_lexer peek_token"]
proof (rule yields_look [OF assms(1)])
  fix t s3
  assume t: "tk_type t = next_type (register_lexeme r' # ls)" and s3: "facing s3 (register_lexeme r' # ls)" "body s3 = body s2"
  have ty: "tk_type t = TK_Register" using t by (simp add: register_lexeme_def)
  show "yields (if tk_type t = TK_Register
    then vbind parse_register (\<lambda>rs.
         emit_word emit (vreturn (if op = OP_MOV then encodeRegReg op r rs rs else encodeRegReg op r r rs)))
    else vbind (match_token TK_LBracket) (\<lambda>bracket.
      if bracket
      then vbind parse_symbol (\<lambda>(symToken, offset).
           emit_word emit
             (if op = OP_MOV then vreturn (encodeInstruction OP_LOAD r 0 0 (ucast offset))
              else vthrow (AssemblerError (tk_line symToken)
                     ''memory operand not supported for this opcode'')))
      else number_operand (\<lambda>imm.
             if op = OP_MOV then encodeMov r kImmediateMarker imm
             else if op = OP_CMP then encodeRegImm op 0 r imm
             else encodeRegImm op r r imm) emit)) s3 (ends_with emit w s ls)"
    unfolding if_P [OF ty] yields_bind
    by (rule yields_register [OF s3(1) assms(3)], rule yields_emit)
      (use s3(2) assms(2,4) in \<open>auto simp: yields_simps encodeRegReg_def\<close>)
qed

text \<open>An operand that is not a register: after the look the bracket is tried.\<close>

lemma second_other:
  assumes "facing s2 ls'" and "next_type ls' \<notin> {TK_Register, TK_End}"
    and "\<And>s3. next_type ls' = TK_LBracket \<Longrightarrow> facing s3 (tl ls') \<Longrightarrow> body s3 = body s2 \<Longrightarrow>
      yields (vbind parse_symbol (\<lambda>(symToken, offset).
           emit_word emit
             (if op = OP_MOV then vreturn (encodeInstruction OP_LOAD r 0 0 (ucast offset))
              else vthrow (AssemblerError (tk_line symToken)
                     ''memory operand not supported for this opcode'')))) s3 Q"
    and "\<And>s3. next_type ls' \<noteq> TK_LBracket \<Longrightarrow> facing s3 ls' \<Longrightarrow> body s3 = body s2 \<Longrightarrow>
      yields (number_operand (\<lambda>imm.
             if op = OP_MOV then encodeMov r kImmediateMarker imm
             else if op = OP_CMP then encodeRegImm op 0 r imm
             else encodeRegImm op r r imm) emit) s3 Q"
  shows "yields (second_operand op emit r) s2 Q"
  unfolding second_operand_def yields_bind [of "on_lexer peek_token"]
proof (rule yields_look [OF assms(1)])
  fix t s3
  assume t: "tk_type t = next_type ls'" and s3: "facing s3 ls'" "body s3 = body s2"
  have ty: "tk_type t \<noteq> TK_Register" using t assms(2) by simp
  show "yields (if tk_type t = TK_Register
    then vbind parse_register (\<lambda>rs.
         emit_word emit (vreturn (if op = OP_MOV then encodeRegReg op r rs rs else encodeRegReg op r r rs)))
    else vbind (match_token TK_LBracket) (\<lambda>bracket.
      if bracket
      then vbind parse_symbol (\<lambda>(symToken, offset).
           emit_word emit
             (if op = OP_MOV then vreturn (encodeInstruction OP_LOAD r 0 0 (ucast offset))
              else vthrow (AssemblerError (tk_line symToken)
                     ''memory operand not supported for this opcode'')))
      else number_operand (\<lambda>imm.
             if op = OP_MOV then encodeMov r kImmediateMarker imm
             else if op = OP_CMP then encodeRegImm op 0 r imm
             else encodeRegImm op r r imm) emit)) s3 Q"
    unfolding if_not_P [OF ty] yields_bind [of "match_token TK_LBracket"]
    by (rule yields_match [OF s3(1)]) (use s3(2) assms(3,4) in auto)
qed

lemma second_symbol:
  assumes "facing s2 (open_bracket # word_lexeme x # close_bracket # ls)" and "body s2 = body s"
    and "symbol_offset (ps_dataSymbols s) x = Some a"
    and "emit \<Longrightarrow> w = encodeInstruction OP_LOAD r 0 0 (ucast a)"
  shows "yields (second_operand OP_MOV emit r) s2 (ends_with emit w s ls)"
proof (rule second_other [OF assms(1)])
  fix s3
  assume "facing s3 (tl (open_bracket # word_lexeme x # close_bracket # ls))" and b: "body s3 = body s2"
  then have f: "facing s3 (word_lexeme x # close_bracket # ls)" by simp
  have "symbol_offset (ps_dataSymbols s3) x = Some a" using assms(2,3) b by (simp add: body_eq)
  then show "yields (vbind parse_symbol (\<lambda>(symToken, offset).
           emit_word emit
             (if OP_MOV = OP_MOV then vreturn (encodeInstruction OP_LOAD r 0 0 (ucast offset))
              else vthrow (AssemblerError (tk_line symToken)
                     ''memory operand not supported for this opcode'')))) s3 (ends_with emit w s ls)"
    unfolding yields_bind
    by (rule yields_symbol [OF f], unfold prod.case, intro yields_emit)
      (use b assms(2,4) in \<open>simp_all add: yields_simps\<close>)
qed (simp_all add: open_bracket_def)

lemma second_number:
  assumes "facing s2 (number_lexeme v # ls)" and "body s2 = body s" and "number_ok v"
    and "emit \<Longrightarrow> w = encodeInstruction op (if op = OP_CMP then 0 else r) (if op = OP_MOV then 0 else r)
      kImmediateMarker (imm16 v)"
  shows "yields (second_operand op emit r) s2 (ends_with emit w s ls)"
proof (rule second_other [OF assms(1)])
  fix s3
  assume "facing s3 (number_lexeme v # ls)" "body s3 = body s2"
  then show "yields (number_operand (\<lambda>imm.
             if op = OP_MOV then encodeMov r kImmediateMarker imm
             else if op = OP_CMP then encodeRegImm op 0 r imm
             else encodeRegImm op r r imm) emit) s3 (ends_with emit w s ls)"
    by (intro yields_number_operand)
      (use assms(2-4) in \<open>auto simp: encodeMov_def encodeRegImm_def\<close>)
qed (simp_all add: number_lexeme_def)

section \<open>Instructions\<close>

lemma mnemonic_of [simp]: "is_named op \<Longrightarrow> op \<noteq> OP_CALL \<Longrightarrow> parseOpcode (opcodeToMnemonic op) = Inr op"
  by (simp add: parseOpcode_def mnemonic_round_trip)

lemma mnemonic_special:
  "opcodeToMnemonic op = ''halt'' \<longleftrightarrow> op = OP_HALT" "opcodeToMnemonic op = ''ret'' \<longleftrightarrow> op = OP_RET"
  "opcodeToMnemonic op = ''push'' \<longleftrightarrow> op = OP_PUSH" "opcodeToMnemonic op = ''pop'' \<longleftrightarrow> op = OP_POP"
  "opcodeToMnemonic op = ''call'' \<longleftrightarrow> op = OP_CALL"
  "opcodeToMnemonic op \<noteq> ''DATA''" "opcodeToMnemonic op \<noteq> ''CODE''"
  by (cases op; simp)+

text \<open>Where the dispatch on the mnemonic leads.\<close>

lemma operands_named:
  assumes "op \<in> set jump_opcodes \<union> set unary_opcodes \<union> {OP_LOAD, OP_STORE} \<union> set binary_opcodes"
  shows "parse_operands (opcodeToMnemonic op) emit =
    (if op \<in> set jump_opcodes then parse_jump op emit
     else if op \<in> set unary_opcodes then parse_unary op emit
     else if op \<in> {OP_LOAD, OP_STORE} then parse_memory op emit
     else parse_binary op emit)"
proof -
  from assms have "is_named op" "op \<noteq> OP_CALL" "op \<notin> {OP_HALT, OP_RET, OP_PUSH, OP_POP}"
    by (auto simp: jump_opcodes_def unary_opcodes_def binary_opcodes_def)
  then show ?thesis
    by (simp add: parse_operands_def mnemonic_special lift_result_def vbind_def vread_def
        jump_opcodes_def unary_opcodes_def)
qed

lemma operands_special:
  "parse_operands ''halt'' emit = emit_word emit (vreturn (encodeInstruction OP_HALT 0 0 0 0))"
  "parse_operands ''ret'' emit = emit_word emit (vreturn (encodeInstruction OP_RET 0 0 0 0))"
  "parse_operands ''push'' emit = parse_push emit" "parse_operands ''pop'' emit = parse_unary OP_POP emit"
  "parse_operands ''call'' emit = parse_call emit"
  "parse_operands ''mov'' emit = parse_binary OP_MOV emit"
  by (simp_all add: parse_operands_def) (simp add: parseOpcode_def lift_result_def vbind_def vread_def)

text \<open>\<^term>\<open>w\<close> is the word of the instruction, if it is to be written.\<close>

definition word_is :: "bool \<Rightarrow> parser \<Rightarrow> instruction \<Rightarrow> Word \<Rightarrow> bool" where
  "word_is emit s i w \<longleftrightarrow> (emit \<longrightarrow> instruction_word (ps_labels s) (ps_dataSymbols s) i = Some w)"

lemma address_known:
  "(\<forall>x \<in> set (address_symbols a). symbol_offset ds x \<noteq> None) \<Longrightarrow> \<exists>x. address_value ds a = Some x"
  by (cases a) auto

lemma opcode_groups:
  "op \<in> set jump_opcodes \<Longrightarrow> op \<notin> set unary_opcodes \<union> {OP_LOAD, OP_STORE} \<union> set binary_opcodes"
  "op \<in> set unary_opcodes \<Longrightarrow> op \<notin> set jump_opcodes \<union> {OP_LOAD, OP_STORE} \<union> set binary_opcodes"
  "op \<in> {OP_LOAD, OP_STORE} \<Longrightarrow> op \<notin> set jump_opcodes \<union> set unary_opcodes \<union> set binary_opcodes"
  "op \<in> set binary_opcodes \<Longrightarrow> op \<notin> set jump_opcodes \<union> set unary_opcodes \<union> {OP_LOAD, OP_STORE}"
  by (auto simp: jump_opcodes_def unary_opcodes_def binary_opcodes_def)

lemma yields_operands:
  assumes "facing s (tl (instruction_lexemes i) @ ls)" and "instruction_ok i"
    and "symbols_known (ps_dataSymbols s) i" and "word_is emit s i w"
  shows "yields (parse_operands (snd (hd (instruction_lexemes i))) emit) s (ends_with emit w s ls)"
proof (cases i)
  case A_halt
  with assms show ?thesis
    by (auto simp: word_lexeme_def operands_special yields_simps word_is_def intro!: yields_emit)
next
  case A_ret
  with assms show ?thesis
    by (auto simp: word_lexeme_def operands_special yields_simps word_is_def intro!: yields_emit)
next
  case (A_push_register r)
  with assms show ?thesis by (simp add: word_lexeme_def operands_special yields_push_register word_is_def)
next
  case (A_push_label l)
  with assms show ?thesis
    by (auto simp: word_lexeme_def operands_special word_is_def simp del: vm_constants
        intro!: yields_push_label [where a = "the (ps_labels s l)"])
next
  case (A_push_number v)
  with assms show ?thesis
    by (simp add: word_lexeme_def operands_special yields_push_number word_is_def)
next
  case (A_pop r)
  with assms show ?thesis by (simp add: word_lexeme_def operands_special yields_unary word_is_def)
next
  case (A_call sc a)
  with assms(3) obtain x where x: "address_value (ps_dataSymbols s) a = Some x"
    using address_known [of a] by (auto simp: symbols_known_def)
  have f: "facing s (word_lexeme (syscall_name sc) # comma # address_lexemes a @ ls)" using assms(1) A_call by simp
  from A_call assms(2) have ok: "\<forall>n. sc \<noteq> SYS_unnamed n" "address_ok a" by simp_all
  have "yields (parse_call emit) s (ends_with emit w s ls)"
    by (rule yields_call [OF f ok x]) (use A_call x assms(4) in \<open>simp add: word_is_def\<close>)
  with A_call show ?thesis by (simp add: word_lexeme_def operands_special)
next
  case (A_jump op l)
  then have "op \<in> set jump_opcodes" using assms(2) by simp
  moreover have "yields (parse_jump op emit) s (ends_with emit w s ls)"
    by (rule yields_jump [where a = "the (ps_labels s l)" and l = l]) (use A_jump assms in \<open>auto simp: word_is_def\<close>)
  ultimately show ?thesis using A_jump by (simp add: word_lexeme_def operands_named)
next
  case (A_unary op r)
  then have op: "op \<in> set unary_opcodes" "r < 16" using assms(2) by simp_all
  have "yields (parse_unary op emit) s (ends_with emit w s ls)"
    by (rule yields_unary [OF _ op(2)]) (use A_unary assms in \<open>auto simp: word_is_def\<close>)
  then show ?thesis using A_unary op opcode_groups(2) [OF op(1)] by (simp add: word_lexeme_def operands_named)
next
  case (A_memory op r a)
  then have op: "op \<in> {OP_LOAD, OP_STORE}" "r < 16" "address_ok a" using assms(2) by simp_all
  from A_memory assms(3) obtain x where x: "address_value (ps_dataSymbols s) a = Some x"
    using address_known [of a] by (auto simp: symbols_known_def)
  have "yields (parse_memory op emit) s (ends_with emit w s ls)"
    by (rule yields_memory [OF _ op(2,3) x]) (use A_memory x assms in \<open>auto simp: word_is_def\<close>)
  then show ?thesis using A_memory op opcode_groups(3) [OF op(1)] by (simp add: word_lexeme_def operands_named)
next
  case (A_registers op r r')
  then have op: "op \<in> set binary_opcodes" "r < 16" "r' < 16" using assms(2) by simp_all
  have "yields (parse_binary op emit) s (ends_with emit w s ls)"
    by (rule yields_binary [OF _ op(2)], use A_registers assms(1) in simp)
      (rule second_registers [where r' = r'], use A_registers op assms(4) in \<open>auto simp: word_is_def\<close>)
  then show ?thesis using A_registers op opcode_groups(4) [OF op(1)] by (simp add: word_lexeme_def operands_named)
next
  case (A_mov_symbol r x)
  with assms(3) obtain a where a: "symbol_offset (ps_dataSymbols s) x = Some a"
    by (auto simp: symbols_known_def)
  have r: "r < 16" using A_mov_symbol assms(2) by simp
  have "yields (parse_binary OP_MOV emit) s (ends_with emit w s ls)"
    by (rule yields_binary [OF _ r], use A_mov_symbol assms(1) in simp)
      (rule second_symbol [OF _ _ a], use A_mov_symbol a assms(4) in \<open>auto simp: word_is_def\<close>)
  with A_mov_symbol show ?thesis by (simp add: word_lexeme_def operands_special)
next
  case (A_immediate op r v)
  then have op: "op \<in> set binary_opcodes" "r < 16" "number_ok v" using assms(2) by simp_all
  have "yields (parse_binary op emit) s (ends_with emit w s ls)"
    by (rule yields_binary [OF _ op(2)], use A_immediate assms(1) in simp)
      (rule second_number [where v = v], use A_immediate op assms(4) in \<open>auto simp: word_is_def\<close>)
  then show ?thesis using A_immediate op opcode_groups(4) [OF op(1)] by (simp add: word_lexeme_def operands_named)
qed

lemma instruction_lexemes_shape:
  "instruction_lexemes i = word_lexeme (snd (hd (instruction_lexemes i))) # tl (instruction_lexemes i)"
  by (cases i) (simp_all add: word_lexeme_def)

definition next_address :: "parser \<Rightarrow> parser" where
  "next_address s = s\<lparr>ps_codeAddress := ps_codeAddress s + 1\<rparr>"

lemma yields_instruction:
  assumes "facing s (instruction_lexemes i @ replicate n newline_lexeme @ ls)" and "next_type ls \<noteq> TK_Newline"
    and "instruction_ok i" and "symbols_known (ps_dataSymbols s) i" and "word_is emit s i w"
  shows "yields (parseInstruction emit) s
    (\<lambda>_ s'. facing s' ls \<and> body s' = body (next_address (emitted emit w s)))"
proof -
  have f: "facing s (word_lexeme (snd (hd (instruction_lexemes i))) #
      (tl (instruction_lexemes i) @ replicate n newline_lexeme @ ls))"
    using assms(1) instruction_lexemes_shape [of i] by (metis append_Cons)
  show ?thesis
    unfolding parseInstruction_def yields_bind [of "consume TK_Identifier"] yields_seq [of "parse_operands _ _"]
  proof (rule yields_consume [OF f])
    fix t s1
    assume t: "lexeme_of t = word_lexeme (snd (hd (instruction_lexemes i)))"
      and s1: "facing s1 (tl (instruction_lexemes i) @ replicate n newline_lexeme @ ls)" and b: "body s1 = body s"
    have name: "tk_text t = snd (hd (instruction_lexemes i))" using t by (simp add: lexeme_of_def word_lexeme_def)
    have "yields (parse_operands (tk_text t) emit) s1 (ends_with emit w s1 (replicate n newline_lexeme @ ls))"
      unfolding name using s1 assms(3)
      by (rule yields_operands) (use assms(4,5) b in \<open>simp_all add: body_eq word_is_def\<close>)
    then show "yields (parse_operands (tk_text t) emit) s1 (\<lambda>_ s'. yields end_instruction s'
        (\<lambda>_ s'. facing s' ls \<and> body s' = body (next_address (emitted emit w s))))"
    proof (rule yields_mono)
      fix u s2
      assume "ends_with emit w s1 (replicate n newline_lexeme @ ls) u s2"
      then have s2: "facing s2 (replicate n newline_lexeme @ ls)" "body s2 = body (emitted emit w s1)"
        by (simp_all add: ends_with_def)
      show "yields end_instruction s2 (\<lambda>_ s'. facing s' ls \<and> body s' = body (next_address (emitted emit w s)))"
        unfolding end_instruction_def yields_seq yields_basic
        by (rule yields_skipNewlines [OF _ assms(2)])
          (use s2 b in \<open>simp_all add: body_eq next_address_def emitted_def\<close>)
    qed
  qed (simp add: word_lexeme_def)
qed

section \<open>Statements\<close>

text \<open>What a statement does to the parser, its lexer aside.\<close>

fun apply_statement :: "bool \<Rightarrow> statement \<Rightarrow> parser \<Rightarrow> parser" where
  "apply_statement emit (Enter sec) s = s\<lparr>ps_section := sec\<rparr>"
| "apply_statement emit (Define ty x v) s = (if emit then s else add_symbol x ty (scast (imm16 v)) s)"
| "apply_statement emit (Label l) s = s\<lparr>ps_labels := (ps_labels s)(l \<mapsto> ps_codeAddress s)\<rparr>"
| "apply_statement emit (Instruction i) s =
     next_address (emitted emit (the (instruction_word (ps_labels s) (ps_dataSymbols s) i)) s)"

text \<open>When a pass accepts a statement.\<close>

fun acceptable :: "bool \<Rightarrow> statement \<Rightarrow> parser \<Rightarrow> bool" where
  "acceptable emit (Enter sec) s = (sec \<noteq> Section_None)"
| "acceptable emit (Define ty x v) s = (ps_section s = Section_Data \<and> number_ok v)"
| "acceptable emit (Label l) s = (ps_section s = Section_Code \<and> l \<noteq> ''DATA'' \<and> l \<noteq> ''CODE'')"
| "acceptable emit (Instruction i) s = (ps_section s = Section_Code \<and> instruction_ok i \<and>
     symbols_known (ps_dataSymbols s) i \<and>
     (emit \<longrightarrow> instruction_word (ps_labels s) (ps_dataSymbols s) i \<noteq> None))"

definition statement_done :: "bool \<Rightarrow> statement \<Rightarrow> parser \<Rightarrow> lexeme list \<Rightarrow> unit \<Rightarrow> parser \<Rightarrow> bool" where
  "statement_done emit st s ls u s' \<longleftrightarrow> facing s' ls \<and> body s' = body (apply_statement emit st s)"

lemma yields_enter:
  assumes "facing s1 (colon # replicate n newline_lexeme @ ls)" and "body s1 = body s"
    and "next_type ls \<noteq> TK_Newline"
  shows "yields (enter_section sec) s1 (statement_done emit (Enter sec) s ls)"
  unfolding enter_section_def yields_bind yields_seq
proof (rule yields_consume [OF assms(1)])
  fix t s2
  assume s2: "facing s2 (replicate n newline_lexeme @ ls)" "body s2 = body s1"
  show "yields (vmodify (\<lambda>s. s\<lparr>ps_section := sec\<rparr>)) s2 (\<lambda>_ s'. yields skipNewlines s' (statement_done emit (Enter sec) s ls))"
    unfolding yields_basic
    by (rule yields_skipNewlines [OF _ assms(3)]) (use s2 assms(2) in \<open>simp_all add: statement_done_def body_eq\<close>)
qed (simp add: colon_def)

lemma parse_data_type_name: "lexeme_of t = word_lexeme (type_name ty) \<Longrightarrow> parse_data_type t = Inr ty"
  by (cases ty) (simp_all add: lexeme_of_def word_lexeme_def parse_data_type_def)

lemma yields_define:
  assumes "facing s1 (word_lexeme x # number_lexeme v # replicate n newline_lexeme @ ls)" and "body s1 = body s"
    and "next_type ls \<noteq> TK_Newline" and "number_ok v" and "lexeme_of t = word_lexeme (type_name ty)"
  shows "yields (parse_data emit t) s1 (statement_done emit (Define ty x v) s ls)"
proof -
  have ty: "lift_result (parse_data_type t) = vreturn ty"
    using parse_data_type_name [OF assms(5)] by (simp add: lift_result_def vread_def vreturn_def)
  show ?thesis
    unfolding parse_data_def ty vbind_return yields_bind [of "consume TK_Identifier"]
  proof (rule yields_consume [OF assms(1)])
    fix u s2
    assume u: "lexeme_of u = word_lexeme x" and b2: "body s2 = body s1"
      and f2: "facing s2 (number_lexeme v # replicate n newline_lexeme @ ls)"
    have name: "tk_text u = x" using u by (simp add: lexeme_of_def word_lexeme_def)
    show "yields (vbind (consume TK_Number) (\<lambda>valueToken. vbind (lift_result (parseNumberToken valueToken)) (\<lambda>value.
          vseq (if \<not> emit then vmodify (add_symbol (tk_text u) ty (scast value)) else vreturn ()) skipNewlines)))
        s2 (statement_done emit (Define ty x v) s ls)"
    proof (rule yields_number [OF f2 assms(4)])
      fix s3
      assume f3: "facing s3 (replicate n newline_lexeme @ ls)" and b3: "body s3 = body s2"
      show "yields (vseq (if \<not> emit then vmodify (add_symbol (tk_text u) ty (scast (imm16 v))) else vreturn ()) skipNewlines)
          s3 (statement_done emit (Define ty x v) s ls)"
      proof (cases emit)
        case True
        then show ?thesis
          by (simp add: yields_simps)
            (rule yields_skipNewlines [OF f3 assms(3)], use b3 b2 assms(2) in \<open>simp add: statement_done_def body_eq\<close>)
      next
        case False
        have "facing (add_symbol x ty (scast (imm16 v)) s3) (replicate n newline_lexeme @ ls)"
          using f3 by (simp add: add_symbol_def)
        then have "yields skipNewlines (add_symbol x ty (scast (imm16 v)) s3) (statement_done emit (Define ty x v) s ls)"
          by (rule yields_skipNewlines [OF _ assms(3)])
            (use False b3 b2 assms(2) in \<open>simp add: statement_done_def body_eq add_symbol_def\<close>)
        then show ?thesis using False by (simp add: yields_simps name)
      qed
    qed
  qed (simp add: word_lexeme_def)
qed

lemma yields_label_statement:
  assumes "facing s1 (colon # replicate n newline_lexeme @ ls)" and "body s1 = body s"
    and "next_type ls \<noteq> TK_Newline" and "lexeme_of t = word_lexeme l"
  shows "yields (parse_code emit mark t) s1 (statement_done emit (Label l) s ls)"
proof -
  have t: "tk_type t = TK_Identifier" "tk_text t = l" using assms(4) by (simp_all add: lexeme_of_def word_lexeme_def)
  show ?thesis
    unfolding parse_code_def if_P [OF t(1)] vbind_assoc vbind_return yields_bind [of "on_lexer peek_token"]
  proof (rule yields_look [OF assms(1)])
    fix u s2
    assume u: "tk_type u = next_type (colon # replicate n newline_lexeme @ ls)"
      and s2: "facing s2 (colon # replicate n newline_lexeme @ ls)" "body s2 = body s1"
    have c: "tk_type u = TK_Colon" using u by (simp add: colon_def)
    show "yields (if tk_type u = TK_Colon
      then vbind (on_lexer next_token) (\<lambda>_. vseq (vmodify (\<lambda>s. s\<lparr>ps_labels := (ps_labels s)(tk_text t \<mapsto> ps_codeAddress s)\<rparr>)) skipNewlines)
      else vseq (vmodify (\<lambda>s. s\<lparr>ps_lexer := lexer_restore mark (ps_lexer s)\<rparr>)) (parseInstruction emit)) s2
        (statement_done emit (Label l) s ls)"
      unfolding if_P [OF c] yields_bind yields_seq yields_basic
    proof (rule yields_next [OF s2(1)])
      fix v lx
      assume lx: "ready_for lx (replicate n newline_lexeme @ ls)" "lx_source lx = lx_source (ps_lexer s2)"
      let ?s3 = "s2\<lparr>ps_lexer := lx\<rparr>"
      show "yields skipNewlines (?s3\<lparr>ps_labels := (ps_labels ?s3)(tk_text t \<mapsto> ps_codeAddress ?s3)\<rparr>)
          (statement_done emit (Label l) s ls)"
        by (rule yields_skipNewlines [OF _ assms(3)])
          (use lx s2(2) assms(2) t in \<open>simp_all add: statement_done_def body_eq\<close>)
    qed
  qed
qed

lemma second_not_colon:
  "next_type ls \<noteq> TK_Colon \<Longrightarrow> next_type (tl (instruction_lexemes i) @ replicate n newline_lexeme @ ls) \<noteq> TK_Colon"
  by (cases i; cases n) (simp_all add: lexeme_defs newline_lexeme_def)

lemma yields_code:
  assumes "facing s (instruction_lexemes i @ replicate n newline_lexeme @ ls)"
    and "facing s1 (tl (instruction_lexemes i) @ replicate n newline_lexeme @ ls)" and "body s1 = body s"
    and "next_type ls \<notin> {TK_Newline, TK_Colon}" and "lexeme_of t = hd (instruction_lexemes i)"
    and "acceptable emit (Instruction i) s"
  shows "yields (parse_code emit (lexer_mark (ps_lexer s)) t) s1 (statement_done emit (Instruction i) s ls)"
proof -
  let ?rest = "tl (instruction_lexemes i) @ replicate n newline_lexeme @ ls"
  have t: "tk_type t = TK_Identifier"
    using assms(5) instruction_lexemes_shape [of i] by (metis fst_conv lexeme_of_def list.sel(1) word_lexeme_def)
  show ?thesis
    unfolding parse_code_def if_P [OF t] vbind_assoc vbind_return yields_bind [of "on_lexer peek_token"]
  proof (rule yields_look [OF assms(2)])
    fix u s2
    assume u: "tk_type u = next_type ?rest" and s2: "facing s2 ?rest" "body s2 = body s1"
    have c: "tk_type u \<noteq> TK_Colon" using u second_not_colon assms(4) by simp
    let ?s3 = "s2\<lparr>ps_lexer := lexer_restore (lexer_mark (ps_lexer s)) (ps_lexer s2)\<rparr>"
    have src: "lx_source (ps_lexer s2) = lx_source (ps_lexer s)" using s2(2) assms(3) by (simp add: body_eq)
    have f3: "facing ?s3 (instruction_lexemes i @ replicate n newline_lexeme @ ls)"
      using restore_ready [of "ps_lexer s" _ "ps_lexer s2"] assms(1) src by (simp add: facing_def)
    have b3: "body ?s3 = body s"
      using s2(2) assms(3) src by (simp add: body_eq lexer_restore_def)
    have ok: "next_type ls \<noteq> TK_Newline" "instruction_ok i" "symbols_known (ps_dataSymbols ?s3) i"
      "word_is emit ?s3 i (the (instruction_word (ps_labels s) (ps_dataSymbols s) i))"
      using assms(4,6) b3 by (auto simp: word_is_def body_eq)
    have "yields (parseInstruction emit) ?s3 (statement_done emit (Instruction i) s ls)"
      by (rule yields_mono [OF yields_instruction [OF f3 ok]])
        (use b3 in \<open>simp add: statement_done_def body_eq next_address_def emitted_def\<close>)
    then show "yields (if tk_type u = TK_Colon
      then vbind (on_lexer next_token) (\<lambda>_. vseq (vmodify (\<lambda>s. s\<lparr>ps_labels := (ps_labels s)(tk_text t \<mapsto> ps_codeAddress s)\<rparr>)) skipNewlines)
      else vseq (vmodify (\<lambda>s'. s'\<lparr>ps_lexer := lexer_restore (lexer_mark (ps_lexer s)) (ps_lexer s')\<rparr>)) (parseInstruction emit)) s2
        (statement_done emit (Instruction i) s ls)"
      unfolding if_not_P [OF c] by (simp add: yields_simps)
  qed
qed

lemma statement_head:
  "\<exists>x. hd (statement_lexemes st) = word_lexeme x \<and> statement_lexemes st = word_lexeme x # tl (statement_lexemes st)"
proof (cases st)
  case (Instruction i)
  then show ?thesis using instruction_lexemes_shape [of i] by (metis list.sel(1) statement_lexemes.simps(4))
qed auto

lemma mnemonic_not_section:
  "instruction_ok i \<Longrightarrow> snd (hd (instruction_lexemes i)) \<noteq> ''DATA'' \<and> snd (hd (instruction_lexemes i)) \<noteq> ''CODE''"
  by (cases i) (simp_all add: word_lexeme_def mnemonic_special)

lemma yields_statement:
  assumes "facing s (statement_lexemes st @ replicate n newline_lexeme @ ls)"
    and "facing s1 (tl (statement_lexemes st) @ replicate n newline_lexeme @ ls)" and "body s1 = body s"
    and "next_type ls \<notin> {TK_Newline, TK_Colon}" and "lexeme_of t = hd (statement_lexemes st)"
    and "acceptable emit st s"
  shows "yields (parse_statement emit (lexer_mark (ps_lexer s)) t) s1 (statement_done emit st s ls)"
proof -
  have sec: "ps_section s1 = ps_section s" using assms(3) by (simp add: body_eq)
  obtain x where "lexeme_of t = word_lexeme x" using statement_head [of st] assms(5) by auto
  then have t: "tk_type t = TK_Identifier" "tk_text t = snd (hd (statement_lexemes st))"
    using assms(5) by (auto simp: lexeme_of_def word_lexeme_def dest: arg_cong [where f = snd])
  show ?thesis
  proof (cases st)
    case (Enter sec)
    have "yields (enter_section sec) s1 (statement_done emit st s ls)"
      unfolding Enter by (rule yields_enter) (use assms Enter in auto)
    then show ?thesis
      using t Enter assms(6) by (cases sec) (simp_all add: parse_statement_def word_lexeme_def)
  next
    case (Define ty x v)
    have "yields (parse_data emit t) s1 (statement_done emit st s ls)"
      unfolding Define by (rule yields_define) (use assms Define in auto)
    then show ?thesis
      using t Define assms(6) sec
      by (cases ty) (simp_all add: parse_statement_def word_lexeme_def yields_simps)
  next
    case (Label l)
    have "yields (parse_code emit (lexer_mark (ps_lexer s)) t) s1 (statement_done emit st s ls)"
      unfolding Label by (rule yields_label_statement) (use assms Label in auto)
    then show ?thesis
      using t Label assms(6) sec by (simp add: parse_statement_def word_lexeme_def yields_simps)
  next
    case (Instruction i)
    have "yields (parse_code emit (lexer_mark (ps_lexer s)) t) s1 (statement_done emit st s ls)"
      unfolding Instruction by (rule yields_code) (use assms Instruction in auto)
    then show ?thesis
      using t Instruction assms(6) sec mnemonic_not_section [of i]
      by (simp add: parse_statement_def yields_simps)
  qed
qed

section \<open>A pass\<close>

fun run_pass :: "bool \<Rightarrow> statement list \<Rightarrow> parser \<Rightarrow> parser option" where
  "run_pass emit [] s = Some s"
| "run_pass emit (st # sts) s =
     (if acceptable emit st s then run_pass emit sts (apply_statement emit st s) else None)"

lemma yields_round:
  assumes "facing s (statement_lexemes st @ replicate n newline_lexeme @ ls)"
    and "next_type ls \<notin> {TK_Newline, TK_Colon}" and "acceptable emit st s"
  shows "yields (parse_round emit) s (\<lambda>again s'. again \<and> facing s' ls \<and> body s' = body (apply_statement emit st s))"
proof -
  let ?all = "statement_lexemes st @ replicate n newline_lexeme @ ls"
  obtain x where x: "hd (statement_lexemes st) = word_lexeme x"
    "statement_lexemes st = word_lexeme x # tl (statement_lexemes st)"
    using statement_head [of st] by blast
  have all: "?all = word_lexeme x # tl (statement_lexemes st) @ replicate n newline_lexeme @ ls"
    using x(2) by (metis append_Cons)
  have ty: "next_type ?all = TK_Identifier" unfolding all by (simp add: word_lexeme_def)
  have "facing s (replicate 0 newline_lexeme @ ?all)" using assms(1) by simp
  moreover have "next_type ?all \<noteq> TK_Newline" using ty by simp
  ultimately show ?thesis
    unfolding parse_round_def yields_seq yields_bind
  proof (rule yields_skipNewlines)
    fix s1
    assume s1: "facing s1 ?all" "body s1 = body s"
    show "yields (on_lexer peek_token) s1 (\<lambda>ahead s'. yields (if tk_type ahead = TK_End then vreturn False
        else vbind (vgets (\<lambda>s. lexer_mark (ps_lexer s))) (\<lambda>statementStart. vbind (on_lexer next_token) (\<lambda>t.
          vseq (parse_statement emit statementStart t) (vreturn True)))) s'
        (\<lambda>again s'. again \<and> facing s' ls \<and> body s' = body (apply_statement emit st s)))"
    proof (rule yields_look [OF s1(1)])
      fix a s2
      assume a: "tk_type a = next_type ?all" and s2: "facing s2 ?all" "body s2 = body s1"
      have ne: "tk_type a \<noteq> TK_End" using a ty by simp
      have f2: "facing s2 (word_lexeme x # tl (statement_lexemes st) @ replicate n newline_lexeme @ ls)"
        using s2(1) unfolding all .
      show "yields (if tk_type a = TK_End then vreturn False
        else vbind (vgets (\<lambda>s. lexer_mark (ps_lexer s))) (\<lambda>statementStart. vbind (on_lexer next_token) (\<lambda>t.
          vseq (parse_statement emit statementStart t) (vreturn True)))) s2
          (\<lambda>again s'. again \<and> facing s' ls \<and> body s' = body (apply_statement emit st s))"
        unfolding if_not_P [OF ne] yields_bind yields_seq yields_basic
      proof (rule yields_next [OF f2])
        fix t lx
        assume t: "lexeme_of t = word_lexeme x"
          and lx: "ready_for lx (tl (statement_lexemes st) @ replicate n newline_lexeme @ ls)"
            "lx_source lx = lx_source (ps_lexer s2)"
        have b: "body s2 = body s" using s1(2) s2(2) by simp
        have acc: "acceptable emit st s2"
          using assms(3) b by (cases st) (simp_all add: body_eq)
        have "yields (parse_statement emit (lexer_mark (ps_lexer s2)) t) (s2\<lparr>ps_lexer := lx\<rparr>) (statement_done emit st s2 ls)"
          by (rule yields_statement) (use s2(1) lx t x(1) assms(2) acc in simp_all)
        moreover have "body (apply_statement emit st s2) = body (apply_statement emit st s)"
          using b by (cases st) (simp_all add: body_eq next_address_def emitted_def add_symbol_def)
        ultimately show "yields (parse_statement emit (lexer_mark (ps_lexer s2)) t) (s2\<lparr>ps_lexer := lx\<rparr>)
            (\<lambda>_ s'. True \<and> facing s' ls \<and> body s' = body (apply_statement emit st s))"
          by (auto simp: statement_done_def elim: yields_mono)
      qed
    qed
  qed
qed

lemma statement_first:
  assumes "ls = [] \<or> fst (hd ls) = TK_Identifier"
  shows "next_type ls \<notin> {TK_Newline, TK_Colon}" and "ls \<noteq> [] \<Longrightarrow> next_type ls = TK_Identifier"
  using assms by (cases ls; simp)+

lemma lines_lexemes_simps:
  "lines_lexemes [] = []"
  "lines_lexemes ((st, n) # lines) = statement_lexemes st @ replicate n newline_lexeme @ lines_lexemes lines"
  by (simp_all add: lines_lexemes_def)

lemma lines_first: "lines_lexemes lines = [] \<or> fst (hd (lines_lexemes lines)) = TK_Identifier"
proof (cases lines)
  case (Cons l lines')
  obtain st n where l: "l = (st, n)" by (cases l)
  obtain x where "statement_lexemes st = word_lexeme x # tl (statement_lexemes st)"
    using statement_head by blast
  then have "hd (lines_lexemes lines) = word_lexeme x"
    unfolding Cons l lines_lexemes_simps by (metis append_Cons list.sel(1))
  then show ?thesis by (simp add: word_lexeme_def)
qed (simp add: lines_lexemes_simps)

lemma body_pass:
  assumes "body s' = body s"
  shows "map_option body (run_pass emit sts s') = map_option body (run_pass emit sts s)"
  using assms
proof (induction sts arbitrary: s s')
  case (Cons st sts)
  have acc: "acceptable emit st s' = acceptable emit st s"
    using Cons.prems by (cases st) (simp_all add: body_eq)
  have b: "body (apply_statement emit st s') = body (apply_statement emit st s)"
    using Cons.prems by (cases st) (simp_all add: body_eq next_address_def emitted_def add_symbol_def)
  show ?case using Cons.IH [OF b] by (simp add: acc del: map_option_case)
qed simp

lemma yields_loop:
  assumes "facing s (lines_lexemes lines)" and "run_pass emit (map fst lines) s = Some t"
  shows "yields (parse_loop emit) s (\<lambda>_ s'. body s' = body t)"
  using assms
proof (induction lines arbitrary: s t)
  case Nil
  have "yields (on_lexer peek_token) s (\<lambda>a s'. tk_type a = TK_End \<and> body s' = body s)"
    by (rule yields_look [OF Nil(1)]) (simp_all add: lines_lexemes_simps)
  then obtain a s' where "on_lexer peek_token s = (Inr a, s')" "tk_type a = TK_End" "body s' = body s"
    by (auto simp: yields_def)
  moreover have "t = s" using Nil(2) by simp
  ultimately show ?case by (simp add: yields_def parse_loop.simps [of emit s])
next
  case (Cons l lines)
  obtain st n where l: "l = (st, n)" by (cases l)
  let ?ls = "lines_lexemes lines"
  from Cons.prems(2) l have acc: "acceptable emit st s"
    and run: "run_pass emit (map fst lines) (apply_statement emit st s) = Some t"
    by (simp_all split: if_splits)
  have "statement_lexemes st \<noteq> []" using statement_head [of st] by (metis list.distinct(1))
  then have "lines_lexemes (l # lines) \<noteq> []" by (simp add: l lines_lexemes_simps)
  then have ne: "next_type (lines_lexemes (l # lines)) = TK_Identifier"
    by (rule statement_first(2) [OF lines_first])
  have "yields (on_lexer peek_token) s (\<lambda>a s1. tk_type a \<noteq> TK_End \<and>
      yields (parse_round emit) s1 (\<lambda>again s2. again \<and> yields (parse_loop emit) s2 (\<lambda>_ s'. body s' = body t)))"
  proof (rule yields_look [OF Cons.prems(1)])
    fix a s1
    assume a: "tk_type a = next_type (lines_lexemes (l # lines))" and s1: "facing s1 (lines_lexemes (l # lines))" "body s1 = body s"
    have f: "facing s1 (statement_lexemes st @ replicate n newline_lexeme @ ?ls)"
      using s1(1) l by (simp add: lines_lexemes_simps)
    have acc1: "acceptable emit st s1" using acc s1(2) by (cases st) (simp_all add: body_eq)
    have "yields (parse_round emit) s1 (\<lambda>again s2. again \<and> yields (parse_loop emit) s2 (\<lambda>_ s'. body s' = body t))"
    proof (rule yields_mono [OF yields_round [OF f statement_first(1) [OF lines_first] acc1]], elim conjE, intro conjI)
      fix again s2
      assume s2: "facing s2 ?ls" "body s2 = body (apply_statement emit st s1)"
      have "body s2 = body (apply_statement emit st s)"
        using s2(2) s1(2) by (cases st) (simp_all add: body_eq next_address_def emitted_def add_symbol_def)
      with body_pass [OF this, of emit "map fst lines"] run obtain t' where
        t': "run_pass emit (map fst lines) s2 = Some t'" "body t' = body t" by auto
      show "yields (parse_loop emit) s2 (\<lambda>_ s'. body s' = body t)"
        using Cons.IH [OF s2(1) t'(1)] t'(2) by simp
    qed
    with a ne show "tk_type a \<noteq> TK_End \<and> yields (parse_round emit) s1
        (\<lambda>again s2. again \<and> yields (parse_loop emit) s2 (\<lambda>_ s'. body s' = body t))" by simp
  qed
  then show ?case by (auto simp: yields_def parse_loop.simps [of emit s])
qed

text \<open>The lexemes of a whole source: newlines, then the lines.\<close>

definition program_lexemes :: "nat \<Rightarrow> line list \<Rightarrow> lexeme list" where
  "program_lexemes k lines = replicate k newline_lexeme @ lines_lexemes lines"

lemma yields_program:
  assumes "facing s (program_lexemes k lines)"
    and "run_pass emit (map fst lines) (s\<lparr>ps_section := Section_None\<rparr>) = Some t"
  shows "yields (parseProgram emit) s (\<lambda>_ s'. body s' = body t)"
  unfolding parseProgram_def yields_seq yields_basic
proof (rule yields_skipNewlines)
  show "facing (s\<lparr>ps_section := Section_None\<rparr>) (replicate k newline_lexeme @ lines_lexemes lines)"
    using assms(1) by (simp add: program_lexemes_def)
  show "next_type (lines_lexemes lines) \<noteq> TK_Newline" using statement_first(1) [OF lines_first] by blast
next
  fix s1
  assume s1: "facing s1 (lines_lexemes lines)" "body s1 = body (s\<lparr>ps_section := Section_None\<rparr>)"
  from body_pass [OF s1(2), of emit "map fst lines"] assms(2) obtain t' where
    t': "run_pass emit (map fst lines) s1 = Some t'" "body t' = body t" by auto
  with yields_loop [OF s1(1) t'(1)] show "yields (parse_loop emit) s1 (\<lambda>_ s'. body s' = body t)" by simp
qed

section \<open>Both passes\<close>

text \<open>The state in which the second pass starts, from the state the first one left.\<close>

definition second_start :: "parser \<Rightarrow> parser" where
  "second_start s = s\<lparr>ps_section := Section_None, ps_codeAddress := 0, ps_code := []\<rparr>"

lemma assemble_passes:
  assumes "lexemes (Lexer source) = Inr (program_lexemes k lines)"
    and "run_pass False (map fst lines) (initial_parser source) = Some s1"
    and "run_pass True (map fst lines) (second_start s1) = Some s2"
  shows "assemble source = Inr \<lparr>ap_code = ps_code s2, ap_data = emit_data (ps_dataSymbols s1) (ps_dataOffset s1)\<rparr>"
proof -
  let ?s0 = "initial_parser source"
  have f0: "facing ?s0 (program_lexemes k lines)"
    using assms(1) by (simp add: facing_def initial_parser_def ready_for_def lookahead_ok_def Lexer_def)
  have "yields firstPass ?s0 (\<lambda>_ s'. body s' = body s1)"
    unfolding firstPass_def
    by (rule yields_program [OF f0]) (use assms(2) in \<open>simp add: initial_parser_def\<close>)
  then obtain r1 where r1: "firstPass ?s0 = (Inr (), r1)" "body r1 = body s1" by (auto simp: yields_def)
  have src1: "lx_source (ps_lexer s1) = source"
  proof -
    have "lx_source (ps_lexer t) = lx_source (ps_lexer s)" if "run_pass e sts s = Some t" for e sts s t
      using that
    proof (induction sts arbitrary: s)
      case (Cons st sts)
      then show ?case
        by (cases st) (auto simp: next_address_def emitted_def add_symbol_def split: if_splits)
    qed simp
    from this [OF assms(2)] show ?thesis by (simp add: initial_parser_def Lexer_def)
  qed
  let ?r2 = "r1\<lparr>ps_lexer := lexer_reset (ps_lexer r1), ps_section := Section_None, ps_codeAddress := 0\<rparr>"
  let ?r3 = "?r2\<lparr>ps_codeAddress := 0, ps_code := []\<rparr>"
  have src: "lx_source (ps_lexer r1) = source" using r1(2) src1 by (simp add: body_eq)
  have "same_place (Lexer source) (lexer_reset (ps_lexer r1))"
    using src by (simp add: same_place_def lexer_reset_def Lexer_def)
  then have f3: "facing ?r3 (program_lexemes k lines)"
    using lexemes_place [OF assms(1)] by (simp add: facing_def ready_for_def lookahead_ok_def lexer_reset_def)
  have b3: "body (?r3\<lparr>ps_section := Section_None\<rparr>) = body (second_start s1)"
    using r1(2) src by (simp add: body_eq second_start_def lexer_reset_def)
  from body_pass [OF b3, of True "map fst lines"] assms(3) obtain t where
    t: "run_pass True (map fst lines) (?r3\<lparr>ps_section := Section_None\<rparr>) = Some t" "body t = body s2" by auto
  from yields_program [OF f3 t(1)] obtain r4 where
    r4: "parseProgram True ?r3 = (Inr (), r4)" "body r4 = body t" by (auto simp: yields_def)
  have "ps_dataSymbols r1 = ps_dataSymbols s1" "ps_dataOffset r1 = ps_dataOffset s1" "ps_code r4 = ps_code s2"
    using r1(2) r4(2) t(2) by (simp_all add: body_eq)
  with r1(1) r4(1) show ?thesis
    by (simp add: assemble_def parse_program_def secondPass_def vseq_def vbind_def vmodify_def vgets_def vreturn_def)
qed

end
