(* ===== verification/Scanner.thy ===== *)
theory Scanner
  imports Token_Stream
begin

text \<open>
  The lexical syntax as a function on texts: a scanner that takes lexemes off the front of a string,
  with no position, line counter, lookahead or mark, and the proof that the lexer reads what it
  scans. Sample programs are read with the scanner, which evaluates faster.
\<close>

section \<open>The scanner\<close>

fun skip_blanks :: "string \<Rightarrow> string" where
  "skip_blanks [] = []"
| "skip_blanks (c # s) =
    (if is_blank c then skip_blanks s
     else if c = CHR ''#'' then dropWhile (\<lambda>c. c \<noteq> newline) s else c # s)"

definition word_char :: "char \<Rightarrow> bool" where
  "word_char c \<longleftrightarrow> is_alnum c \<or> c = CHR ''_''"

definition punctuation :: "(char \<times> token_type) list" where
  "punctuation = [(CHR ''['', TK_LBracket), (CHR '']'', TK_RBracket), (CHR '','', TK_Comma), (CHR '':'', TK_Colon)]"

definition word_type :: "string \<Rightarrow> token_type" where
  "word_type x = (if is_register_name x then TK_Register else TK_Identifier)"

text \<open>The first lexeme of a text without leading blanks, and the rest.\<close>

definition scan_lexeme :: "nat \<Rightarrow> char \<Rightarrow> string \<Rightarrow> vm_exception + lexeme \<times> string" where
  "scan_lexeme line c s =
    (if c = newline then Inr (newline_lexeme, s)
     else case map_of punctuation c of
       Some ty \<Rightarrow> Inr ((ty, [c]), s)
     | None \<Rightarrow>
         if is_alpha c \<or> c = CHR ''_''
         then let x = takeWhile word_char (c # s) in Inr ((word_type x, x), dropWhile word_char s)
         else if is_digit c \<or> c = CHR ''-''
         then Inr ((TK_Number, c # takeWhile is_digit s), dropWhile is_digit s)
         else Inl (AssemblerError line (''unexpected character: '' @ [c])))"

lemma skip_blanks_length: "length (skip_blanks s) \<le> length s"
  by (induction s) (auto intro: le_SucI length_dropWhile_le)

lemma scan_lexeme_length: "scan_lexeme line c s = Inr (l, s') \<Longrightarrow> length s' \<le> length s"
  by (auto simp: scan_lexeme_def Let_def length_dropWhile_le split: if_splits option.splits)

function scan :: "nat \<Rightarrow> string \<Rightarrow> vm_exception + lexeme list" where
  "scan line s =
    (case skip_blanks s of
       [] \<Rightarrow> Inr []
     | c # s1 \<Rightarrow>
         (case scan_lexeme line c s1 of
            Inl e \<Rightarrow> Inl e
          | Inr (l, s2) \<Rightarrow>
              (case scan (if c = newline then Suc line else line) s2 of
                 Inl e \<Rightarrow> Inl e
               | Inr ls \<Rightarrow> Inr (l # ls))))"
  by pat_completeness auto

termination
proof (relation "measure (\<lambda>(line, s). length s)")
  fix line s c s1 b l s2
  assume "skip_blanks s = c # s1" and "scan_lexeme line c s1 = Inr b" and "(l, s2) = b"
  then show "((if c = newline then Suc line else line, s2), line, s) \<in> measure (\<lambda>(line, s). length s)"
    using skip_blanks_length [of s] scan_lexeme_length [of line c s1 l s2] by simp
qed simp

declare scan.simps [simp del]

section \<open>The lexer reads what the scanner scans\<close>

lemma drop_takeWhile: "drop (length (takeWhile P s)) s = dropWhile P s"
  by (induction s) auto

lemma skip_blanks_line: "skip_blanks (dropWhile (\<lambda>c. c \<noteq> newline) s) = dropWhile (\<lambda>c. c \<noteq> newline) s"
  by (induction s) (auto simp: is_blank_def newline_def)

lemma drop_blanks: "drop (blank_length s) s = skip_blanks s"
proof (induction s rule: blank_length.induct)
  case (2 c s)
  show ?case
  proof (cases "is_blank c \<or> c \<noteq> CHR ''#''")
    case True
    with 2(1) show ?thesis by auto
  next
    case False
    then have c: "c = CHR ''#''" "\<not> is_blank c" by auto
    let ?n = "length (takeWhile (\<lambda>c. c \<noteq> newline) s)"
    have "drop (blank_length (c # s)) (c # s) = drop (blank_length (drop ?n s)) (drop ?n s)"
      using c by (simp add: Let_def add.commute)
    also have "\<dots> = skip_blanks (drop ?n s)" using False 2(2) by blast
    also have "\<dots> = skip_blanks (c # s)" using c by (simp add: drop_takeWhile skip_blanks_line)
    finally show ?thesis .
  qed
qed simp

lemma skipped_rest: "lx_rest (skipWhitespace lx) = skip_blanks (lx_rest lx)"
  by (simp add: skipWhitespace_def lx_rest_def drop_blanks [symmetric] add.commute)

lemma read_end:
  "lx_rest lx = [] \<Longrightarrow> readToken_at lx = (Inr (Token TK_End [] (lx_line lx)), lx)"
  by (simp add: readToken_at_def lx_rest_def)

lemma at_rest:
  assumes "lx_rest lx = c # s"
  shows "\<not> length (lx_source lx) \<le> lx_position lx" and "lx_source lx ! lx_position lx = c"
proof -
  show *: "\<not> length (lx_source lx) \<le> lx_position lx" using assms by (auto simp: lx_rest_def)
  then show "lx_source lx ! lx_position lx = c" using assms rest_nth [of lx] by simp
qed

lemma scanner_reads_lexeme:
  assumes "lx_rest lx = c # s"
  shows "(case scan_lexeme (lx_line lx) c s of
      Inl e \<Rightarrow> fst (readToken_at lx) = Inl e
    | Inr (l, s') \<Rightarrow> \<exists>t. fst (readToken_at lx) = Inr t \<and> lexeme_of t = l \<and> tk_type t \<noteq> TK_End \<and>
        lx_rest (snd (readToken_at lx)) = s' \<and>
        lx_line (snd (readToken_at lx)) = (if c = newline then Suc (lx_line lx) else lx_line lx))"
proof -
  note p = at_rest [OF assms]
  have adv: "drop (lx_position lx + n) (lx_source lx) = drop n (c # s)" for n
    using assms by (simp add: lx_rest_def add.commute drop_drop [symmetric])
  have adv1: "drop (Suc (lx_position lx)) (lx_source lx) = s" using adv [of 1] by simp
  consider "c = newline" | "c \<noteq> newline" "c \<in> fst ` set punctuation"
    | "c \<noteq> newline" "c \<notin> fst ` set punctuation" "is_alpha c \<or> c = CHR ''_''"
    | "c \<noteq> newline" "c \<notin> fst ` set punctuation" "\<not> (is_alpha c \<or> c = CHR ''_'')" by blast
  then show ?thesis
  proof cases
    case 1
    then show ?thesis
      by (simp add: readToken_at_def scan_lexeme_def p Let_def lexeme_of_def Token_def newline_lexeme_def lx_rest_def adv1)
  next
    case 2
    then obtain ty where ty: "map_of punctuation c = Some ty"
      by (metis map_of_eq_None_iff not_Some_eq)
    then have "(c, ty) \<in> set punctuation" by (rule map_of_SomeD)
    with 2(1) have "readToken_at lx = single_character ty c lx" and "ty \<noteq> TK_End"
      unfolding readToken_at_def p punctuation_def by (auto simp: Let_def p)
    with 2(1) ty show ?thesis
      by (simp add: scan_lexeme_def single_character_def lexeme_of_def Token_def lx_rest_def adv1)
  next
    case 3
    let ?x = "takeWhile word_char (c # s)"
    from 3 have "word_char c" by (auto simp: word_char_def is_alnum_def)
    then have d: "drop (length ?x) (c # s) = dropWhile word_char s" by (simp add: drop_takeWhile)
    have w: "takeWhile (\<lambda>c. is_alnum c \<or> c = CHR ''_'') (lx_rest lx) = ?x"
      by (simp only: assms word_char_def [abs_def])
    have "readToken_at lx = (Inr (Token (word_type ?x) ?x (lx_line lx)),
        lx\<lparr>lx_position := lx_position lx + length ?x\<rparr>)"
      using 3 unfolding readToken_at_def p makeIdentifierOrRegister_def w
      by (simp add: Let_def punctuation_def p word_type_def)
    moreover have "scan_lexeme (lx_line lx) c s = Inr ((word_type ?x, ?x), dropWhile word_char s)"
      using 3 by (auto simp: scan_lexeme_def punctuation_def Let_def)
    ultimately show ?thesis
      using 3 d by (simp add: lexeme_of_def Token_def lx_rest_def adv word_type_def del: takeWhile.simps)
  next
    case 4
    then have other: "c \<notin> {CHR ''['', CHR '']'', CHR '','', CHR '':''}" by (simp add: punctuation_def)
    show ?thesis
    proof (cases "is_digit c \<or> c = CHR ''-''")
      case False
      with 4 other show ?thesis
        by (simp add: readToken_at_def scan_lexeme_def p Let_def punctuation_def)
    next
      case True
      let ?x = "c # takeWhile is_digit s"
      have x: "(if c = CHR ''-'' then [CHR ''-''] else []) @
          takeWhile is_digit (drop (length (if c = CHR ''-'' then [CHR ''-''] else [])) (c # s)) = ?x"
        using True by auto
      have "readToken_at lx = (Inr (Token TK_Number ?x (lx_line lx)), lx\<lparr>lx_position := lx_position lx + length ?x\<rparr>)"
        using 4 other True x unfolding readToken_at_def p makeNumber_def assms
        by (auto simp: Let_def p)
      moreover have "scan_lexeme (lx_line lx) c s = Inr ((TK_Number, ?x), dropWhile is_digit s)"
        using 4 other True by (simp add: scan_lexeme_def punctuation_def)
      ultimately show ?thesis
        using 4 adv [of "length ?x"] by (simp add: lexeme_of_def Token_def lx_rest_def drop_takeWhile)
    qed
  qed
qed

lemma lexemes_scan: "lexemes lx = scan (lx_line lx) (lx_rest lx)"
proof (induction lx rule: lexemes.induct)
  case (1 lx)
  let ?k = "skipWhitespace lx"
  have k: "lx_rest ?k = skip_blanks (lx_rest lx)" "lx_line ?k = lx_line lx"
    by (simp_all add: skipped_rest) (simp add: skipWhitespace_def)
  obtain r lx' where r: "readToken lx = (r, lx')" by (metis prod.exhaust)
  show ?case
  proof (cases "skip_blanks (lx_rest lx)")
    case Nil
    with k read_end [of ?k] show ?thesis
      by (simp add: lexemes.simps [of lx] scan.simps [of "lx_line lx"] readToken_def Token_def)
  next
    case (Cons c s)
    with k(1) have "lx_rest ?k = c # s" by simp
    note rd = scanner_reads_lexeme [OF this]
    have rk: "readToken_at ?k = (r, lx')" using r by (simp add: readToken_def)
    have
      l: "case scan_lexeme (lx_line lx) c s of Inl e \<Rightarrow> r = Inl e
        | Inr (l, s') \<Rightarrow> \<exists>t. r = Inr t \<and> lexeme_of t = l \<and> tk_type t \<noteq> TK_End \<and>
            lx_rest lx' = s' \<and> lx_line lx' = (if c = newline then Suc (lx_line lx) else lx_line lx)"
      using rd unfolding rk fst_conv snd_conv k(2) .
    show ?thesis
    proof (cases "scan_lexeme (lx_line lx) c s")
      case (Inl e)
      with l r Cons show ?thesis by (simp add: lexemes.simps [of lx] scan.simps [of "lx_line lx"])
    next
      case (Inr q)
      obtain l' s' where q: "q = (l', s')" by (cases q)
      with Inr l obtain t where t: "r = Inr t" "lexeme_of t = l'" "tk_type t \<noteq> TK_End" "lx_rest lx' = s'"
        "lx_line lx' = (if c = newline then Suc (lx_line lx) else lx_line lx)" by auto
      from 1 [OF r [symmetric] t(1,3)] t(4,5) have "lexemes lx' = scan (if c = newline then Suc (lx_line lx) else lx_line lx) s'" by simp
      with r t Inr q Cons show ?thesis
        by (simp add: lexemes.simps [of lx] scan.simps [of "lx_line lx" "lx_rest lx"] split del: if_split cong: sum.case_cong)
    qed
  qed
qed

lemma lexemes_source: "lexemes (Lexer source) = scan 1 source"
  by (simp add: lexemes_scan Lexer_def lx_rest_def)

text \<open>C6: The lexer reads a text as the scanner does: repeated \<^verbatim>\<open>readToken\<close> from the start, with its position and
  line counter, gives the same lexemes, or the same error with the same line, for every text.\<close>

theorem lexer_matches_scanner: "lexemes (Lexer source) = scan 1 source"
  by (rule lexemes_source)

end
