(* ===== verification/Reference_Assembler.thy ===== *)
theory Reference_Assembler
  imports Assembler Scanner Instructions
begin

text \<open>
  A reference assembler that computes the words and the data image of a list of statements without
  passes, positions or lookahead, the proof that the two-pass parser computes the same, and the
  printing of programs that the lexer reads back.
\<close>

section \<open>The reference assembler\<close>

fun instructions_of :: "statement list \<Rightarrow> instruction list" where
  "instructions_of [] = []"
| "instructions_of (Instruction i # sts) = i # instructions_of sts"
| "instructions_of (_ # sts) = instructions_of sts"

text \<open>The labels with the number of instructions before them, counted from \<open>a\<close>.\<close>

fun label_addresses :: "Address \<Rightarrow> statement list \<Rightarrow> (string \<times> Address) list" where
  "label_addresses a [] = []"
| "label_addresses a (Label l # sts) = (l, a) # label_addresses a sts"
| "label_addresses a (Instruction i # sts) = label_addresses (a + 1) sts"
| "label_addresses a (_ # sts) = label_addresses a sts"

text \<open>The data symbols, laid out one after the other from \<open>a\<close>.\<close>

fun symbols_from :: "Address \<Rightarrow> statement list \<Rightarrow> data_symbol list" where
  "symbols_from a [] = []"
| "symbols_from a (Define ty x v # sts) =
     \<lparr>ds_name = x, ds_type = ty, ds_value = scast (imm16 v), ds_offset = a\<rparr> #
     symbols_from (a + of_nat (dataTypeSize ty)) sts"
| "symbols_from a (_ # sts) = symbols_from a sts"

fun data_size :: "statement list \<Rightarrow> nat" where
  "data_size [] = 0"
| "data_size (Define ty x v # sts) = dataTypeSize ty + data_size sts"
| "data_size (_ # sts) = data_size sts"

definition symbol_bytes :: "data_symbol \<Rightarrow> u8 list" where
  "symbol_bytes d = little_endian (dataTypeSize (ds_type d)) (ds_value d)"

definition label_map :: "statement list \<Rightarrow> string \<rightharpoonup> Address" where
  "label_map sts = map_of (label_addresses 0 sts)"

definition reference_code :: "statement list \<Rightarrow> Word list" where
  "reference_code sts =
    map (\<lambda>i. the (instruction_word (label_map sts) (symbols_from 0 sts) i)) (instructions_of sts)"

definition reference_program :: "statement list \<Rightarrow> assembled_program" where
  "reference_program sts =
    \<lparr>ap_code = reference_code sts, ap_data = concat (map symbol_bytes (symbols_from 0 sts))\<rparr>"

fun instruction_labels :: "instruction \<Rightarrow> string list" where
  "instruction_labels (A_push_label l) = [l]"
| "instruction_labels (A_jump op l) = [l]"
| "instruction_labels _ = []"

text \<open>
  Statements that are allowed one after the other: each in its section, data symbols before the
  instructions that name them.
\<close>

fun statements_ok :: "section_kind \<Rightarrow> string list \<Rightarrow> statement list \<Rightarrow> bool" where
  "statements_ok sec known [] = True"
| "statements_ok sec known (Enter sec' # sts) = (sec' \<noteq> Section_None \<and> statements_ok sec' known sts)"
| "statements_ok sec known (Define ty x v # sts) =
     (sec = Section_Data \<and> number_ok v \<and> statements_ok sec (x # known) sts)"
| "statements_ok sec known (Label l # sts) =
     (sec = Section_Code \<and> l \<noteq> ''DATA'' \<and> l \<noteq> ''CODE'' \<and> statements_ok sec known sts)"
| "statements_ok sec known (Instruction i # sts) =
     (sec = Section_Code \<and> instruction_ok i \<and> list_all (\<lambda>x. x \<in> set known) (instruction_symbols i) \<and>
      statements_ok sec known sts)"

definition labels_ok :: "statement list \<Rightarrow> bool" where
  "labels_ok sts \<longleftrightarrow> distinct (map fst (label_addresses 0 sts)) \<and>
     list_all (\<lambda>i. list_all (\<lambda>l. l \<in> fst ` set (label_addresses 0 sts)) (instruction_labels i)) (instructions_of sts)"

definition program_ok :: "statement list \<Rightarrow> bool" where
  "program_ok sts \<longleftrightarrow> statements_ok Section_None [] sts \<and> labels_ok sts \<and> data_size sts < 2 ^ 32"

section \<open>The first pass\<close>

lemma symbol_offset_append:
  "symbol_offset ds x \<noteq> None \<Longrightarrow> symbol_offset (ds @ es) x = symbol_offset ds x"
  by (induction ds) (auto simp: symbol_offset_def)

lemma symbol_offset_in: "symbol_offset ds x \<noteq> None \<longleftrightarrow> x \<in> ds_name ` set ds"
  by (induction ds) (auto simp: symbol_offset_def)

lemma symbols_knownI:
  "list_all (\<lambda>x. x \<in> set known) (instruction_symbols i) \<Longrightarrow> set known \<subseteq> ds_name ` set ds \<Longrightarrow> symbols_known ds i"
  unfolding symbols_known_def symbol_offset_in by (auto simp: list_all_iff)

lemma first_pass:
  assumes "statements_ok (ps_section s) known sts" and "set known \<subseteq> ds_name ` set (ps_dataSymbols s)"
  shows "\<exists>t. run_pass False sts s = Some t \<and>
    ps_labels t = ps_labels s ++ map_of (rev (label_addresses (ps_codeAddress s) sts)) \<and>
    ps_dataSymbols t = ps_dataSymbols s @ symbols_from (ps_dataOffset s) sts \<and>
    ps_dataOffset t = ps_dataOffset s + of_nat (data_size sts)"
  using assms
proof (induction sts arbitrary: s known)
  case (Cons st sts)
  show ?case
  proof (cases st)
    case (Enter sec)
    with Cons.prems Cons.IH [of "s\<lparr>ps_section := sec\<rparr>" known] show ?thesis by simp
  next
    case (Define ty x v)
    let ?s = "add_symbol x ty (scast (imm16 v)) s"
    have "statements_ok (ps_section ?s) (x # known) sts" "set (x # known) \<subseteq> ds_name ` set (ps_dataSymbols ?s)"
      using Cons.prems Define by (auto simp: add_symbol_def)
    from Cons.IH [OF this] Cons.prems Define show ?thesis by (simp add: add_symbol_def add.assoc)
  next
    case (Label l)
    let ?s = "s\<lparr>ps_labels := (ps_labels s)(l \<mapsto> ps_codeAddress s)\<rparr>"
    have "statements_ok (ps_section ?s) known sts" "set known \<subseteq> ds_name ` set (ps_dataSymbols ?s)"
      using Cons.prems Label by auto
    from Cons.IH [OF this] obtain t where t: "run_pass False sts ?s = Some t"
      "ps_labels t = ps_labels ?s ++ map_of (rev (label_addresses (ps_codeAddress s) sts))"
      "ps_dataSymbols t = ps_dataSymbols s @ symbols_from (ps_dataOffset s) sts"
      "ps_dataOffset t = ps_dataOffset s + of_nat (data_size sts)" by (auto simp del: fun_upd_apply)
    have "ps_labels ?s ++ m = ps_labels s ++ ([l \<mapsto> ps_codeAddress s] ++ m)" for m
      by (rule ext) (simp add: map_add_def split: option.split)
    with t Cons.prems Label show ?thesis by simp
  next
    case (Instruction i)
    have "symbols_known (ps_dataSymbols s) i"
      using Cons.prems Instruction symbols_knownI [of known i] by simp
    with Cons.prems Instruction Cons.IH [of "next_address s" known] show ?thesis
      by (auto simp: next_address_def emitted_def)
  qed
qed simp

section \<open>The second pass\<close>

lemma word_exists:
  "symbols_known ds i \<Longrightarrow> set (instruction_labels i) \<subseteq> dom labels \<Longrightarrow> instruction_word labels ds i \<noteq> None"
proof (cases i)
  case (A_call sc a)
  then show "symbols_known ds i \<Longrightarrow> ?thesis" using address_known [of a ds] by (auto simp: symbols_known_def)
next
  case (A_memory op r a)
  then show "symbols_known ds i \<Longrightarrow> ?thesis" using address_known [of a ds] by (auto simp: symbols_known_def)
qed (auto simp: symbols_known_def)

lemma second_pass:
  assumes "statements_ok (ps_section s) known sts" and "ps_labels s = labels" and "ps_dataSymbols s = ds"
    and "\<forall>(l, a) \<in> set (label_addresses (ps_codeAddress s) sts). labels l = Some a"
    and "set known \<union> ds_name ` set (symbols_from a sts) \<subseteq> ds_name ` set ds"
    and "\<forall>i \<in> set (instructions_of sts). set (instruction_labels i) \<subseteq> dom labels"
  shows "\<exists>t. run_pass True sts s = Some t \<and>
    ps_code t = ps_code s @ map (\<lambda>i. the (instruction_word labels ds i)) (instructions_of sts)"
  using assms
proof (induction sts arbitrary: s known a)
  case (Cons st sts)
  show ?case
  proof (cases st)
    case (Enter sec)
    with Cons.prems Cons.IH [of "s\<lparr>ps_section := sec\<rparr>" known a] show ?thesis by simp
  next
    case (Define ty x v)
    with Cons.prems Cons.IH [of s "x # known" "a + of_nat (dataTypeSize ty)"] show ?thesis by auto
  next
    case (Label l)
    then have "(ps_labels s)(l \<mapsto> ps_codeAddress s) = labels"
      using Cons.prems by (auto simp: fun_upd_idem)
    with Label Cons.prems Cons.IH [of "s\<lparr>ps_labels := labels\<rparr>" known a] show ?thesis by auto
  next
    case (Instruction i)
    then have "symbols_known ds i"
      using Cons.prems symbols_knownI [of known i] by simp
    moreover have "instruction_word labels ds i \<noteq> None"
      using word_exists [OF calculation] Cons.prems Instruction by simp
    moreover have "\<forall>(l, a) \<in> set (label_addresses (ps_codeAddress s + 1) sts). labels l = Some a"
      using Cons.prems Instruction by simp
    ultimately show ?thesis
      using Cons.prems Instruction
        Cons.IH [of "next_address (emitted True (the (instruction_word labels ds i)) s)" known a]
      by (auto simp: next_address_def emitted_def)
  qed
qed simp

section \<open>The data image\<close>

lemma length_little_endian [simp]: "length (little_endian n v) = n"
  by (simp add: little_endian_def)

lemma write_data_at:
  "length mid = length bs \<Longrightarrow> write_data (length pre) bs (pre @ mid @ post) = pre @ bs @ post"
proof (induction bs arbitrary: pre mid)
  case (Cons b bs)
  then obtain m mid' where mid: "mid = m # mid'" by (cases mid) auto
  with Cons.IH [of mid' "pre @ [b]"] Cons.prems show ?case by (simp add: list_update_append)
qed simp

lemma emit_symbols_at:
  assumes "unat a = length pre" and "length pre + data_size sts < 2 ^ 32"
  shows "fold emit_symbol (symbols_from a sts) (pre @ replicate (data_size sts) 0) =
    pre @ concat (map symbol_bytes (symbols_from a sts))"
  using assms
proof (induction sts arbitrary: a pre)
  case (Cons st sts)
  show ?case
  proof (cases st)
    case (Define ty x v)
    let ?n = "dataTypeSize ty"
    let ?d = "\<lparr>ds_name = x, ds_type = ty, ds_value = scast (imm16 v), ds_offset = a\<rparr>"
    have len: "length (symbol_bytes ?d) = ?n" by (simp add: symbol_bytes_def)
    have n: "?n < 2 ^ 32" by (cases ty) simp_all
    have "unat (a + of_nat ?n) = unat a + ?n"
      using Cons.prems Define n by (subst unat_add_u32) (simp_all add: unsigned_of_nat take_bit_nat_eq_self)
    then have a: "unat (a + of_nat ?n) = length (pre @ symbol_bytes ?d)" using Cons.prems(1) len by simp
    have "replicate (data_size (st # sts)) (0 :: u8) = replicate ?n 0 @ replicate (data_size sts) 0"
      by (simp add: Define replicate_add)
    then have "emit_symbol ?d (pre @ replicate (data_size (st # sts)) 0) =
        (pre @ symbol_bytes ?d) @ replicate (data_size sts) 0"
      using write_data_at [of "replicate ?n 0" "symbol_bytes ?d" pre "replicate (data_size sts) 0"] len Cons.prems(1)
      by (simp add: emit_symbol_def symbol_bytes_def)
    moreover have "length (pre @ symbol_bytes ?d) + data_size sts < 2 ^ 32"
      using Cons.prems(2) Define len by simp
    ultimately show ?thesis
      using Cons.IH [OF a] Define by simp
  qed (use Cons in simp_all)
qed simp

section \<open>Correctness\<close>

lemma assemble_reference:
  assumes "lexemes (Lexer source) = Inr (program_lexemes k lines)" and "program_ok (map fst lines)"
  shows "assemble source = Inr (reference_program (map fst lines))"
proof -
  let ?sts = "map fst lines"
  have ok: "statements_ok Section_None [] ?sts" "labels_ok ?sts" "data_size ?sts < 2 ^ 32"
    using assms(2) by (simp_all add: program_ok_def)
  have "statements_ok (ps_section (initial_parser source)) [] ?sts"
    using ok(1) by (simp add: initial_parser_def)
  from first_pass [OF this] obtain s1 where
    s1: "run_pass False ?sts (initial_parser source) = Some s1"
    and l1: "ps_labels s1 = map_of (rev (label_addresses 0 ?sts))"
    and d1: "ps_dataSymbols s1 = symbols_from 0 ?sts"
    and o1: "ps_dataOffset s1 = of_nat (data_size ?sts)"
    by (auto simp: initial_parser_def)
  have labels: "ps_labels s1 = label_map ?sts"
    using ok(2) l1 map_of_inject_set [of "rev (label_addresses 0 ?sts)" "label_addresses 0 ?sts"]
    by (simp add: labels_ok_def label_map_def rev_map [symmetric])
  have "\<exists>t. run_pass True ?sts (second_start s1) = Some t \<and>
      ps_code t = ps_code (second_start s1) @
        map (\<lambda>i. the (instruction_word (label_map ?sts) (symbols_from 0 ?sts) i)) (instructions_of ?sts)"
  proof (rule second_pass)
    show "statements_ok (ps_section (second_start s1)) [] ?sts" using ok(1) by (simp add: second_start_def)
    show "\<forall>(l, a) \<in> set (label_addresses (ps_codeAddress (second_start s1)) ?sts). label_map ?sts l = Some a"
      using ok(2) by (auto simp: second_start_def label_map_def labels_ok_def)
    show "\<forall>i \<in> set (instructions_of ?sts). set (instruction_labels i) \<subseteq> dom (label_map ?sts)"
      using ok(2) by (fastforce simp: label_map_def labels_ok_def dom_map_of_conv_image_fst list_all_iff)
    show "set [] \<union> ds_name ` set (symbols_from 0 ?sts) \<subseteq> ds_name ` set (symbols_from 0 ?sts)" by simp
  qed (simp_all add: second_start_def labels d1)
  then obtain s2 where s2: "run_pass True ?sts (second_start s1) = Some s2" "ps_code s2 = reference_code ?sts"
    by (auto simp: second_start_def reference_code_def)
  have "emit_data (ps_dataSymbols s1) (ps_dataOffset s1) = concat (map symbol_bytes (symbols_from 0 ?sts))"
    using emit_symbols_at [of 0 "[]" ?sts] ok(3)
    by (simp add: emit_data_def d1 o1 unsigned_of_nat take_bit_nat_eq_self)
  with assemble_passes [OF assms(1) s1 s2(1)] s2(2) show ?thesis by (simp add: reference_program_def)
qed

section \<open>Printing lexemes\<close>

text \<open>Every token is followed by a blank, a newline stands for itself.\<close>

definition render_lexeme :: "lexeme \<Rightarrow> string" where
  "render_lexeme l = (if fst l = TK_Newline then [newline] else snd l @ '' '')"

definition render :: "lexeme list \<Rightarrow> string" where
  "render ls = concat (map render_lexeme ls)"

definition is_word_char :: "char \<Rightarrow> bool" where
  "is_word_char c \<longleftrightarrow> is_alnum c \<or> c = CHR ''_''"

definition is_identifier :: "string \<Rightarrow> bool" where
  "is_identifier x \<longleftrightarrow> x \<noteq> [] \<and> (is_alpha (hd x) \<or> hd x = CHR ''_'') \<and> list_all is_word_char x \<and>
     \<not> is_register_name x"

definition is_number :: "string \<Rightarrow> bool" where
  "is_number x \<longleftrightarrow> x \<noteq> [] \<and> (is_digit (hd x) \<or> hd x = CHR ''-'') \<and> list_all is_digit (tl x)"

fun lexeme_ok :: "lexeme \<Rightarrow> bool" where
  "lexeme_ok (TK_End, x) = False"
| "lexeme_ok (TK_Newline, x) = ((TK_Newline, x) = newline_lexeme)"
| "lexeme_ok (TK_Identifier, x) = is_identifier x"
| "lexeme_ok (TK_Number, x) = is_number x"
| "lexeme_ok (TK_Register, x) = is_register_name x"
| "lexeme_ok (TK_LBracket, x) = (x = ''['')"
| "lexeme_ok (TK_RBracket, x) = (x = '']'')"
| "lexeme_ok (TK_Comma, x) = (x = '','')"
| "lexeme_ok (TK_Colon, x) = (x = '':'')"

section \<open>Reading them back\<close>

lemma rest_advance [simp]:
  "lx_rest (lx\<lparr>lx_position := lx_position lx + n\<rparr>) = drop n (lx_rest lx)"
  "lx_rest (lx\<lparr>lx_position := Suc (lx_position lx)\<rparr>) = tl (lx_rest lx)"
  "lx_rest (lx\<lparr>lx_position := Suc (lx_position lx), lx_line := k\<rparr>) = tl (lx_rest lx)"
  by (simp_all add: lx_rest_def add.commute drop_Suc tl_drop)

lemma read_word:
  assumes "lx_rest lx = x @ CHR '' '' # s" and "x \<noteq> []" and "is_alpha (hd x) \<or> hd x = CHR ''_''"
    and "list_all is_word_char x"
  shows "\<exists>t lx'. readToken_at lx = (Inr t, lx') \<and>
    lexeme_of t = (if is_register_name x then TK_Register else TK_Identifier, x) \<and> lx_rest lx' = CHR '' '' # s"
proof -
  obtain c y where x: "x = c # y" using assms(2) by (cases x) auto
  with assms(1) have r: "lx_rest lx = c # (y @ CHR '' '' # s)" by simp
  have c: "is_alpha c \<or> c = CHR ''_''" using assms(3) x by simp
  then have other: "c \<notin> {newline, CHR ''['', CHR '']'', CHR '','', CHR '':''}"
    by (auto simp: is_alpha_def newline_def)
  have "\<not> is_word_char (CHR '' '')" by (simp add: is_word_char_def is_alnum_def is_alpha_def is_digit_def)
  then have tw: "takeWhile (\<lambda>c. is_alnum c \<or> c = CHR ''_'') (lx_rest lx) = x"
    using assms(1,4) by (simp add: is_word_char_def list_all_iff)
  have "readToken_at lx = (Inr (Token (if is_register_name x then TK_Register else TK_Identifier) x (lx_line lx)),
      lx\<lparr>lx_position := lx_position lx + length x\<rparr>)"
    using at_rest [OF r] c other by (simp add: readToken_at_def makeIdentifierOrRegister_def tw)
  then show ?thesis using assms(1) by (simp add: lexeme_of_def Token_def)
qed

lemma read_number:
  assumes "lx_rest lx = x @ CHR '' '' # s" and "is_number x"
  shows "\<exists>t lx'. readToken_at lx = (Inr t, lx') \<and> lexeme_of t = (TK_Number, x) \<and> lx_rest lx' = CHR '' '' # s"
proof -
  obtain c y where x: "x = c # y" "is_digit c \<or> c = CHR ''-''" "list_all is_digit y"
    using assms(2) by (cases x) (auto simp: is_number_def)
  have r: "lx_rest lx = c # (y @ CHR '' '' # s)" using assms(1) x(1) by simp
  have other: "c \<notin> {newline, CHR ''['', CHR '']'', CHR '','', CHR '':''}" "\<not> (is_alpha c \<or> c = CHR ''_'')"
    using x(2) by (auto simp: is_alpha_def newline_def is_digit_def)
  have tw: "takeWhile is_digit (y @ CHR '' '' # s) = y"
    using x(3) by (simp add: list_all_iff is_digit_def)
  have "fst (makeNumber lx) = Token TK_Number x (lx_line lx) \<and>
      snd (makeNumber lx) = lx\<lparr>lx_position := lx_position lx + length x\<rparr>"
    using x(2) tw by (auto simp: makeNumber_def Let_def r x(1) is_digit_def)
  then have "readToken_at lx = (Inr (Token TK_Number x (lx_line lx)), lx\<lparr>lx_position := lx_position lx + length x\<rparr>)"
    using at_rest [OF r] other x(2) by (auto simp: readToken_at_def Let_def split: prod.split)
  then show ?thesis using assms(1) by (simp add: lexeme_of_def Token_def)
qed

lemma read_punctuation:
  assumes "lx_rest lx = c # CHR '' '' # s"
    and "(ty, c) \<in> {(TK_LBracket, CHR ''[''), (TK_RBracket, CHR '']''), (TK_Comma, CHR '',''), (TK_Colon, CHR '':'')}"
  shows "\<exists>t lx'. readToken_at lx = (Inr t, lx') \<and> lexeme_of t = (ty, [c]) \<and> lx_rest lx' = CHR '' '' # s"
proof -
  have "readToken_at lx = single_character ty c lx"
    using at_rest [OF assms(1)] assms(2) by (auto simp: readToken_at_def Let_def newline_def)
  then show ?thesis using assms(1) by (simp add: single_character_def lexeme_of_def Token_def)
qed

lemma read_newline:
  assumes "lx_rest lx = newline # s"
  shows "\<exists>t lx'. readToken_at lx = (Inr t, lx') \<and> lexeme_of t = newline_lexeme \<and> lx_rest lx' = s"
  using at_rest [OF assms] assms
  by (simp add: readToken_at_def newline_lexeme_def lexeme_of_def Token_def)

lemma register_is_word:
  "is_register_name x \<Longrightarrow> x \<noteq> [] \<and> is_alpha (hd x) \<and> list_all is_word_char x"
  by (cases x) (auto simp: is_register_name_def is_word_char_def is_alnum_def is_alpha_def list_all_iff)

lemma read_lexeme:
  assumes "lexeme_ok l" and "lx_rest lx = render_lexeme l @ s"
  shows "\<exists>t lx'. readToken_at lx = (Inr t, lx') \<and> lexeme_of t = l \<and>
    lx_rest lx' = (if fst l = TK_Newline then s else CHR '' '' # s)"
proof -
  obtain ty x where l: "l = (ty, x)" by (cases l)
  have r: "lx_rest lx = x @ CHR '' '' # s" if "ty \<noteq> TK_Newline"
    using assms(2) that by (simp add: l render_lexeme_def)
  consider "ty = TK_Newline" | "ty = TK_Identifier" | "ty = TK_Register" | "ty = TK_Number"
    | "ty \<in> {TK_LBracket, TK_RBracket, TK_Comma, TK_Colon}"
    using assms(1) l by (cases ty) auto
  then show ?thesis
  proof cases
    case 1
    then show ?thesis
      using assms read_newline [of lx s] by (simp add: l render_lexeme_def newline_lexeme_def)
  next
    case 2
    then show ?thesis
      using read_word [of lx x s] assms(1) r by (simp add: l is_identifier_def)
  next
    case 3
    then show ?thesis
      using read_word [of lx x s] register_is_word [of x] assms(1) r by (simp add: l)
  next
    case 4
    then show ?thesis using read_number [of lx x s] assms(1) r by (simp add: l)
  next
    case 5
    then obtain c where "x = [c]"
      "(ty, c) \<in> {(TK_LBracket, CHR ''[''), (TK_RBracket, CHR '']''), (TK_Comma, CHR '',''), (TK_Colon, CHR '':'')}"
      using assms(1) l by auto
    with read_punctuation [of lx c s ty] r 5 show ?thesis by (auto simp: l)
  qed
qed

text \<open>No printed lexeme begins like white space or a comment.\<close>

lemma render_first:
  assumes "lexeme_ok l"
  shows "\<exists>c s. render_lexeme l = c # s \<and> \<not> is_blank c \<and> c \<noteq> CHR ''#''"
proof -
  obtain ty x where l: "l = (ty, x)" by (cases l)
  show ?thesis
    using assms register_is_word [of x] unfolding l
    by (cases ty; cases x) (auto simp: render_lexeme_def is_identifier_def is_number_def is_blank_def
        newline_lexeme_def is_alpha_def is_digit_def newline_def)
qed

lemma skip_blank:
  assumes "lx_rest lx = s \<or> lx_rest lx = CHR '' '' # s"
    and "s = [] \<or> (\<exists>c s'. s = c # s' \<and> \<not> is_blank c \<and> c \<noteq> CHR ''#'')"
  shows "lx_rest (skipWhitespace lx) = s"
  using assms by (auto simp: skipWhitespace_def is_blank_def)

lemma lexemes_render:
  assumes "list_all lexeme_ok ls" and "lx_rest lx = render ls \<or> lx_rest lx = CHR '' '' # render ls"
  shows "lexemes lx = Inr ls"
  using assms
proof (induction ls arbitrary: lx)
  case Nil
  have "lx_rest (skipWhitespace lx) = []"
    by (rule skip_blank) (use Nil in \<open>auto simp: render_def\<close>)
  then have "length (lx_source (skipWhitespace lx)) \<le> lx_position (skipWhitespace lx)" by (simp add: lx_rest_def)
  then show ?case by (simp add: lexemes.simps [of lx] readToken_def readToken_at_def Token_def)
next
  case (Cons l ls)
  have ok: "lexeme_ok l" using Cons.prems by simp
  obtain c s where cs: "render_lexeme l = c # s" "\<not> is_blank c" "c \<noteq> CHR ''#''"
    using render_first [OF ok] by blast
  have "lx_rest (skipWhitespace lx) = render (l # ls)"
    by (rule skip_blank [OF Cons.prems(2)]) (use cs in \<open>simp add: render_def\<close>)
  then have "lx_rest (skipWhitespace lx) = render_lexeme l @ render ls" by (simp add: render_def)
  from read_lexeme [OF ok this] obtain t lx' where
    t: "readToken lx = (Inr t, lx')" "lexeme_of t = l"
      "lx_rest lx' = (if fst l = TK_Newline then render ls else CHR '' '' # render ls)"
    by (auto simp: readToken_def)
  have "tk_type t \<noteq> TK_End" using t(2) ok by (cases l) (auto simp: lexeme_of_def)
  moreover have "lexemes lx' = Inr ls" by (rule Cons.IH) (use Cons.prems t(3) in \<open>auto split: if_splits\<close>)
  ultimately show ?case using t by (simp add: lexemes.simps [of lx])
qed

section \<open>Printing programs\<close>

fun address_names :: "address \<Rightarrow> string list" where
  "address_names (At_symbol x) = [x]"
| "address_names (At_number v) = []"

fun statement_names :: "statement \<Rightarrow> string list" where
  "statement_names (Enter sec) = []"
| "statement_names (Define ty x v) = [x]"
| "statement_names (Label l) = [l]"
| "statement_names (Instruction i) = instruction_symbols i @ instruction_labels i"

definition names_ok :: "statement list \<Rightarrow> bool" where
  "names_ok sts \<longleftrightarrow> list_all is_identifier (concat (map statement_names sts))"

lemma register_name_ok: "is_register_name (registerNameFromIndex r)"
  using show_nat_digits [of "unat r"] registerNameFromIndex_shape(2) [of r]
  by (simp add: is_register_name_def registerNameFromIndex_shape(1) Suc_le_eq)

lemma number_text_ok: "is_number (show_int v)"
proof -
  have "is_digit (hd (show_nat n)) \<and> list_all is_digit (tl (show_nat n)) \<and> list_all is_digit (show_nat n)" for n
    using show_nat_digits [of n] by (cases "show_nat n") (simp_all add: list_all_iff)
  then show ?thesis by (simp add: is_number_def show_int_def)
qed

lemmas identifier_defs =
  is_identifier_def is_word_char_def is_alnum_def is_alpha_def is_digit_def is_register_name_def

lemma section_words_ok: "is_identifier ''DATA''" "is_identifier ''CODE''" "is_identifier (type_name ty)"
  by (simp_all add: identifier_defs) (cases ty; simp add: identifier_defs)

lemma syscall_words_ok: "\<forall>n. sc \<noteq> SYS_unnamed n \<Longrightarrow> is_identifier (syscall_name sc)"
  by (cases sc) (simp_all add: identifier_defs)

lemma mnemonic_words_ok: "is_named op \<Longrightarrow> is_identifier (opcodeToMnemonic op)"
  by (cases op) (simp_all add: identifier_defs)

lemma special_words_ok:
  "is_identifier ''halt''" "is_identifier ''ret''" "is_identifier ''push''" "is_identifier ''pop''"
  "is_identifier ''call''" "is_identifier ''mov''" "is_identifier ''load''" "is_identifier ''store''"
  by (simp_all add: identifier_defs)

lemma opcode_group_named:
  "op \<in> set jump_opcodes \<Longrightarrow> is_named op" "op \<in> set unary_opcodes \<Longrightarrow> is_named op"
  "op \<in> set binary_opcodes \<Longrightarrow> is_named op"
  by (auto simp: jump_opcodes_def unary_opcodes_def binary_opcodes_def)

lemmas words_ok =
  section_words_ok syscall_words_ok mnemonic_words_ok special_words_ok opcode_group_named
  register_name_ok number_text_ok

lemma address_lexemes_ok:
  "list_all is_identifier (address_symbols a) \<Longrightarrow> list_all lexeme_ok (address_lexemes a)"
  by (cases a) (simp_all add: lexeme_defs words_ok)

lemma instruction_lexemes_ok:
  "instruction_ok i \<Longrightarrow> list_all is_identifier (instruction_symbols i @ instruction_labels i) \<Longrightarrow>
    list_all lexeme_ok (instruction_lexemes i)"
  by (cases i) (auto simp: lexeme_defs words_ok address_lexemes_ok)

lemma lines_lexemes_ok:
  assumes "statements_ok sec known (map fst lines)" and "names_ok (map fst lines)"
  shows "list_all lexeme_ok (lines_lexemes lines)"
  using assms
proof (induction lines arbitrary: sec known)
  case (Cons l lines)
  obtain st n where l: "l = (st, n)" by (cases l)
  have "list_all lexeme_ok (statement_lexemes st)"
    using Cons.prems l instruction_lexemes_ok
    by (cases st) (auto simp: names_ok_def lexeme_defs words_ok)
  moreover have "list_all lexeme_ok (replicate n newline_lexeme)"
    by (simp add: list_all_iff newline_lexeme_def)
  moreover have "list_all lexeme_ok (lines_lexemes lines)"
    using Cons.prems l by (cases st) (auto simp: names_ok_def intro: Cons.IH)
  ultimately show ?case by (simp add: l lines_lexemes_simps)
qed (simp add: lines_lexemes_simps)

lemma print_lexes:
  assumes "statements_ok Section_None [] (map fst lines)" and "names_ok (map fst lines)"
  shows "lexemes (Lexer (render (program_lexemes k lines))) = Inr (program_lexemes k lines)"
proof (rule lexemes_render)
  show "list_all lexeme_ok (program_lexemes k lines)"
    using lines_lexemes_ok [OF assms] by (auto simp: program_lexemes_def list_all_iff newline_lexeme_def)
qed (simp add: lx_rest_def Lexer_def)

section \<open>Jumps in an assembled program\<close>

lemma instructions_append: "instructions_of (sts @ sts') = instructions_of sts @ instructions_of sts'"
proof (induction sts)
  case (Cons st sts)
  then show ?case by (cases st) simp_all
qed simp

lemma data_size_append: "data_size (sts @ sts') = data_size sts + data_size sts'"
proof (induction sts)
  case (Cons st sts)
  then show ?case by (cases st) simp_all
qed simp

lemma label_address_in:
  "(l, a + of_nat (length (instructions_of pre))) \<in> set (label_addresses a (pre @ Label l # post))"
proof (induction pre arbitrary: a)
  case (Cons st pre)
  then show ?case using Cons [of "a + 1"] Cons [of a] by (cases st) (simp_all add: add.assoc)
qed simp

lemma label_map_at:
  assumes "labels_ok (pre @ Label l # post)"
  shows "label_map (pre @ Label l # post) l = Some (of_nat (length (instructions_of pre)))"
  using assms label_address_in [of l 0 pre post] by (simp add: labels_ok_def label_map_def)

lemma reference_code_nth:
  "j < length (instructions_of sts) \<Longrightarrow> reference_code sts ! j =
    the (instruction_word (label_map sts) (symbols_from 0 sts) (instructions_of sts ! j))"
  by (simp add: reference_code_def)

lemma small_immediate:
  assumes "n < 2048"
  shows "signed_take_bit 11 (ucast (of_nat n :: Address) :: u16) = of_nat n"
    and "(scast (of_nat n :: u16) :: Address) = of_nat n"
proof -
  have u: "(ucast (of_nat n :: Address) :: u16) = of_nat n"
    by (rule bit_word_eqI) (simp add: bit_simps)
  have s: "sint (of_nat n :: u16) = int n"
    using assms by (simp add: sint_uint unsigned_of_nat take_bit_nat_eq_self signed_take_bit_int_eq_self)
  then show "signed_take_bit 11 (ucast (of_nat n :: Address) :: u16) = of_nat n"
    unfolding u using assms by (simp add: signed_take_bit_12_id)
  have "(scast (of_nat n :: u16) :: Address) = word_of_int (sint (of_nat n :: u16))"
    by simp
  then show "(scast (of_nat n :: u16) :: Address) = of_nat n" by (simp add: s)
qed

lemma jump_conditional: "op \<in> set jump_opcodes \<Longrightarrow> op \<noteq> OP_JMP \<Longrightarrow> op \<in> conditional_jumps"
  by (auto simp: jump_opcodes_def conditional_jumps_def)

section \<open>Properties of the assembler\<close>

text \<open>C5: The two-pass assembler equals the reference assembler: whatever the layout of a source - blanks,
  comments, empty lines, sections in any order, labels before or after their use - if its tokens are
  those of a program in which every name is declared, the assembled words and bytes are the ones the
  reference computes from the statements.\<close>

theorem assembler_matches_reference:
  assumes "lexemes (Lexer source) = Inr (program_lexemes k lines)" and "program_ok (map fst lines)"
  shows "assemble source = Inr (reference_program (map fst lines))"
  using assms by (rule assemble_reference)

text \<open>C9: Printing a program and assembling the text gives the program: for every list of statements
  whose names are identifiers, with any number of newlines after each.\<close>

theorem print_assemble_roundtrip:
  assumes "program_ok (map fst lines)" and "names_ok (map fst lines)"
  shows "assemble (render (program_lexemes k lines)) = Inr (reference_program (map fst lines))"
proof -
  have "statements_ok Section_None [] (map fst lines)" using assms(1) by (simp add: program_ok_def)
  from assemble_reference [OF print_lexes [OF this assms(2)] assms(1)] show ?thesis .
qed

text \<open>C8: Jumps go where their label stands: in an assembled program, a jump to a label that has \<open>n\<close>
  instructions before it, executed, sets the program counter to \<open>n\<close> when it is taken - a label used
  before its definition included. The twelve bits of the immediate bound \<open>n\<close>.\<close>

theorem assembled_jump_reaches_label:
  assumes "lexemes (Lexer source) = Inr (program_lexemes k lines)" and "program_ok (map fst lines)"
    and "map fst lines = pre @ Label l # post" and "length (instructions_of pre) < 2048"
    and "j < length (instructions_of (map fst lines))" and "instructions_of (map fst lines) ! j = A_jump op l"
    and "op \<in> set jump_opcodes"
  shows "\<exists>p. assemble source = Inr p \<and>
    registry_execute (decodeInstruction (ap_code p ! j)) c =
      (if op = OP_JMP \<or> takeJump (rf_flags (ec_registers c)) op
       then (Inr ER_Jump, with_registers (setPc (of_nat (length (instructions_of pre)))) c)
       else (Inr ER_Continue, with_registers advancePc c))"
proof -
  let ?n = "length (instructions_of pre)"
  let ?sts = "map fst lines"
  have "label_map ?sts l = Some (of_nat ?n)"
    using label_map_at [of pre l post] assms(2,3) by (simp add: program_ok_def)
  then have w: "ap_code (reference_program ?sts) ! j = encodeInstruction op 0 0 0 (ucast (of_nat ?n :: Address))"
    using assms(6) by (simp add: reference_program_def reference_code_nth [OF assms(5)])
  let ?d = "decodeInstruction (ap_code (reference_program ?sts) ! j)"
  have d: "d_opcode ?d = op" "scast (d_imm ?d) = (of_nat ?n :: Address)"
    using opcode_group_named(1) [OF assms(7)] small_immediate [OF assms(4)]
    by (simp_all add: w decode_encode opcode_of_byte_byte)
  have "registry_execute ?d c = (if op = OP_JMP \<or> takeJump (rf_flags (ec_registers c)) op
      then (Inr ER_Jump, with_registers (setPc (of_nat ?n)) c) else (Inr ER_Continue, with_registers advancePc c))"
  proof (cases "op = OP_JMP")
    case True
    then show ?thesis using registry_simple(2) [of ?d c] d by simp
  next
    case False
    then show ?thesis using registry_conditional_jump [of ?d c] jump_conditional [OF assms(7)] d by simp
  qed
  with assemble_reference [OF assms(1,2)] show ?thesis by blast
qed

section \<open>Witnesses\<close>

text \<open>A loop with a comment, uneven spacing and a label used before its definition.\<close>

definition sample_source :: string where
  "sample_source = ''# countdown
DATA:   WORD n 3
CODE:
  mov r1,[n]
again: cmp r1, 0   # done?
  je out
  dec r1
  jmp again
out: halt''"

definition sample_lines :: "line list" where
  "sample_lines =
    [(Enter Section_Data, 0), (Define DT_Word ''n'' 3, 1), (Enter Section_Code, 1),
     (Instruction (A_mov_symbol 1 ''n''), 1), (Label ''again'', 0), (Instruction (A_immediate OP_CMP 1 0), 1),
     (Instruction (A_jump OP_JE ''out''), 1), (Instruction (A_unary OP_DEC 1), 1),
     (Instruction (A_jump OP_JMP ''again''), 1), (Label ''out'', 0), (Instruction A_halt, 0)]"

lemma sample_lexemes: "lexemes (Lexer sample_source) = Inr (program_lexemes 1 sample_lines)"
  unfolding lexemes_source by code_simp

lemma sample_ok: "program_ok (map fst sample_lines)" "names_ok (map fst sample_lines)"
proof -
  show "program_ok (map fst sample_lines)"
    by (simp add: program_ok_def sample_lines_def labels_ok_def number_ok_def binary_opcodes_def
        unary_opcodes_def jump_opcodes_def)
  show "names_ok (map fst sample_lines)" by code_simp
qed

lemma sample_reference:
  "reference_program (map fst sample_lines) = \<lparr>ap_code =
     [encodeInstruction OP_LOAD 1 0 0 0, encodeInstruction OP_CMP 0 1 15 0, encodeInstruction OP_JE 0 0 0 5,
      encodeInstruction OP_DEC 1 0 0 0, encodeInstruction OP_JMP 0 0 0 1, encodeInstruction OP_HALT 0 0 0 0],
     ap_data = [3, 0, 0, 0]\<rparr>"
  by code_simp

theorem assembler_matches_reference_witness:
  "\<exists>p. assemble sample_source = Inr p \<and> ap_code p ! 2 = encodeInstruction OP_JE 0 0 0 5 \<and> ap_data p = [3, 0, 0, 0]"
  using assembler_matches_reference [OF sample_lexemes sample_ok(1)] by (simp add: sample_reference)

theorem print_assemble_roundtrip_witness:
  "assemble (render (program_lexemes 2 sample_lines)) = Inr \<lparr>ap_code =
     [encodeInstruction OP_LOAD 1 0 0 0, encodeInstruction OP_CMP 0 1 15 0, encodeInstruction OP_JE 0 0 0 5,
      encodeInstruction OP_DEC 1 0 0 0, encodeInstruction OP_JMP 0 0 0 1, encodeInstruction OP_HALT 0 0 0 0],
     ap_data = [3, 0, 0, 0]\<rparr>"
  using print_assemble_roundtrip [OF sample_ok] by (simp add: sample_reference)

theorem assembled_jump_reaches_label_witness:
  "\<exists>p. assemble sample_source = Inr p \<and>
     registry_execute (decodeInstruction (ap_code p ! 2)) (sample_context []) =
       (if takeJump (rf_flags (ec_registers (sample_context []))) OP_JE
        then (Inr ER_Jump, with_registers (setPc 5) (sample_context []))
        else (Inr ER_Continue, with_registers advancePc (sample_context [])))"
proof -
  let ?pre = "take 9 (map fst sample_lines)"
  have split: "map fst sample_lines = ?pre @ Label ''out'' # [Instruction A_halt]"
    by (simp add: sample_lines_def)
  have n: "length (instructions_of ?pre) = 5" by (simp add: sample_lines_def)
  have j: "2 < length (instructions_of (map fst sample_lines))"
    "instructions_of (map fst sample_lines) ! 2 = A_jump OP_JE ''out''" by (simp_all add: sample_lines_def)
  have b: "length (instructions_of ?pre) < 2048" "OP_JE \<in> set jump_opcodes"
    by (simp_all add: n jump_opcodes_def)
  show ?thesis
    using assembled_jump_reaches_label [OF sample_lexemes sample_ok(1) split b(1) j b(2), of "sample_context []"]
    by (simp only: n of_nat_numeral opcode.distinct simp_thms)
qed

end
