(* ===== verification/Assembly_Semantics.thy ===== *)
theory Assembly_Semantics
  imports Reference_Assembler
begin

text \<open>
  The assembly language as a programmer reads it: a semantics of the statements over registers, a
  stack of words and a data segment, with labels as positions and symbols as offsets, without words,
  encodings, regions or stack pointers. The proof that the encoded instruction, decoded and
  dispatched by the registry, does to the memory and registers of a process what the statement says.
\<close>

section \<open>Semantics of the statements\<close>

record assembly_state =
  as_registers :: "Word list"
  as_flags :: cpu_flags
  as_pc :: Address
  as_stack :: "Word list"
  as_data :: "nat \<Rightarrow> u8"
  as_error :: "string option"

type_synonym assembly_result = "(vm_exception + execution_result) \<times> assembly_state"

definition as_reg :: "u8 \<Rightarrow> assembly_state \<Rightarrow> Word" where
  "as_reg r a = as_registers a ! unat r"

definition set_as_reg :: "u8 \<Rightarrow> Word \<Rightarrow> assembly_state \<Rightarrow> assembly_state" where
  "set_as_reg r v a = a\<lparr>as_registers := (as_registers a)[unat r := v]\<rparr>"

definition proceed :: "assembly_state \<Rightarrow> assembly_result" where
  "proceed a = (Inr ER_Continue, a\<lparr>as_pc := as_pc a + 1\<rparr>)"

definition go_to :: "Address \<Rightarrow> assembly_state \<Rightarrow> assembly_result" where
  "go_to target a = (Inr ER_Jump, a\<lparr>as_pc := target\<rparr>)"

definition fail_with :: "string \<Rightarrow> assembly_state \<Rightarrow> assembly_result" where
  "fail_with message a = (Inr ER_Error, a\<lparr>as_error := Some message\<rparr>)"

definition result_flags :: "Word \<Rightarrow> assembly_state \<Rightarrow> assembly_state" where
  "result_flags v a = a\<lparr>as_flags := (as_flags a)\<lparr>fl_zero := (v = 0), fl_sign := (sint v < 0)\<rparr>\<rparr>"

definition compare_flags :: "Word \<Rightarrow> Word \<Rightarrow> assembly_state \<Rightarrow> assembly_state" where
  "compare_flags l r a =
    a\<lparr>as_flags := \<lparr>fl_zero = (l = r), fl_sign = (sint (l - r) < 0), fl_carry = (l < r),
      fl_overflow = (sint l - sint r < - (2 ^ 31) \<or> 2 ^ 31 \<le> sint l - sint r)\<rparr>\<rparr>"

text \<open>The stack segment holds 1024 words.\<close>

definition stack_words :: nat where
  "stack_words = 1024"

definition as_push :: "Word \<Rightarrow> assembly_state \<Rightarrow> assembly_result" where
  "as_push v a =
    (if length (as_stack a) < stack_words then proceed (a\<lparr>as_stack := v # as_stack a\<rparr>)
     else fail_with ''stack overflow'' a)"

definition as_pop :: "(Word \<Rightarrow> assembly_state \<Rightarrow> assembly_result) \<Rightarrow> assembly_state \<Rightarrow> assembly_result" where
  "as_pop rest a =
    (case as_stack a of
       [] \<Rightarrow> fail_with ''stack underflow'' a
     | v # stack \<Rightarrow> rest v (a\<lparr>as_stack := stack\<rparr>))"

fun as_unary :: "opcode \<Rightarrow> u8 \<Rightarrow> assembly_state \<Rightarrow> assembly_result" where
  "as_unary OP_INC r a = (let v = as_reg r a + 1 in proceed (result_flags v (set_as_reg r v a)))"
| "as_unary OP_DEC r a = (let v = as_reg r a in proceed (compare_flags v 1 (set_as_reg r (v - 1) a)))"
| "as_unary _ r a = (let v = not (as_reg r a) in proceed (result_flags v (set_as_reg r v a)))"

definition as_binary :: "opcode \<Rightarrow> u8 \<Rightarrow> Word \<Rightarrow> assembly_state \<Rightarrow> assembly_result" where
  "as_binary op r v a =
    (if op = OP_NOP then proceed a
     else if op = OP_MOV then proceed (set_as_reg r v a)
     else if op = OP_CMP then proceed (compare_flags (as_reg r a) v a)
     else case alu_operation op (as_reg r a) v of
            None \<Rightarrow> fail_with (if op = OP_DIV then ''division by zero'' else ''modulo by zero'') a
          | Some w \<Rightarrow>
              let a' = set_as_reg r w a
              in proceed (if op = OP_SUB then compare_flags (as_reg r a) v a' else result_flags w a'))"

text \<open>Loads and stores of words in a data segment of the given size.\<close>

definition as_memory :: "nat \<Rightarrow> opcode \<Rightarrow> u8 \<Rightarrow> Address \<Rightarrow> assembly_state \<Rightarrow> assembly_result" where
  "as_memory size_of_data op r off a =
    (if unat off + 4 \<le> size_of_data
     then proceed (if op = OP_LOAD then set_as_reg r (load_word (as_data a) (unat off)) a
                   else a\<lparr>as_data := store_word (as_data a) (unat off) (as_reg r a)\<rparr>)
     else (Inl (segment_error ''data'' off), a))"

definition label_position :: "statement list \<Rightarrow> string \<Rightarrow> Address" where
  "label_position sts l = the (label_map sts l)"

definition data_address :: "statement list \<Rightarrow> address \<Rightarrow> Address" where
  "data_address sts x = the (address_value (symbols_from 0 sts) x)"

fun execute_statement :: "statement list \<Rightarrow> instruction \<Rightarrow> assembly_state \<Rightarrow> assembly_result" where
  "execute_statement sts A_halt a = (Inr ER_Halt, a)"
| "execute_statement sts A_ret a = as_pop go_to a"
| "execute_statement sts (A_push_register r) a = as_push (as_reg r a) a"
| "execute_statement sts (A_push_label l) a = as_push (label_position sts l) a"
| "execute_statement sts (A_push_number v) a = as_push (word_of_int v) a"
| "execute_statement sts (A_pop r) a = as_pop (\<lambda>v a. proceed (set_as_reg r v a)) a"
| "execute_statement sts (A_jump op l) a =
     (if op = OP_JMP \<or> takeJump (as_flags a) op then go_to (label_position sts l) a else proceed a)"
| "execute_statement sts (A_unary op r) a = as_unary op r a"
| "execute_statement sts (A_memory op r x) a = as_memory (data_size sts) op r (data_address sts x) a"
| "execute_statement sts (A_mov_symbol r x) a =
     as_memory (data_size sts) OP_LOAD r (data_address sts (At_symbol x)) a"
| "execute_statement sts (A_registers op r r') a = as_binary op r (as_reg r' a) a"
| "execute_statement sts (A_immediate op r v) a = as_binary op r (word_of_int v) a"
| "execute_statement sts (A_call sc x) a = (Inl (VmException ''unknown opcode''), a)"

text \<open>
  Programs within the reach of the twelve-bit immediates: at most 2047 instructions, 2048 bytes of
  data, numbers in range, and \<^verbatim>\<open>r15\<close> not used as a source operand, where its number is the marker of
  an immediate.
\<close>

fun operands_small :: "instruction \<Rightarrow> bool" where
  "operands_small (A_push_register r) = (r \<noteq> 15)"
| "operands_small (A_push_number v) = (- 2048 \<le> v \<and> v < 2048)"
| "operands_small (A_registers op r r') = (r' \<noteq> 15)"
| "operands_small (A_immediate op r v) = (- 2048 \<le> v \<and> v < 2048)"
| "operands_small (A_memory op r (At_number v)) = (0 \<le> v \<and> v < 2048)"
| "operands_small (A_call sc (At_number v)) = (0 \<le> v \<and> v < 2048)"
| "operands_small _ = True"

definition program_small :: "statement list \<Rightarrow> bool" where
  "program_small sts \<longleftrightarrow> length (instructions_of sts) < 2048 \<and> data_size sts \<le> 2048 \<and>
    list_all operands_small (instructions_of sts)"

section \<open>The state of a process\<close>

text \<open>
  The assembly state that registers and memory of a process stand for, with a data segment of the
  given size.
\<close>

definition stands_for :: "nat \<Rightarrow> assembly_state \<Rightarrow> exec_context \<Rightarrow> bool" where
  "stands_for size_of_data a c \<longleftrightarrow>
    rf_gpr (ec_registers c) = as_registers a \<and> length (as_registers a) = kRegisterCount \<and>
    rf_flags (ec_registers c) = as_flags a \<and> rf_pc (ec_registers c) = as_pc a \<and>
    stack_inv (ec_memory c) (ctx_stack c) \<and> ml_stackSize (ec_memory c) = kStackSize \<and>
    stack_contents (ec_memory c) (ctx_stack c) = as_stack a \<and>
    unat (ml_dataSize (ec_memory c)) = size_of_data \<and>
    (\<forall>j < size_of_data. pm_memory (ec_phys c) (data_start (ec_memory c) + j) = as_data a j) \<and>
    ec_process c = Some (as_error a)"

lemma stack_room_contents:
  assumes "stack_inv l s" and "ml_stackSize l = kStackSize"
  shows "stack_room l s + length (stack_contents l s) = stack_words"
proof -
  obtain pm sp where s: "s = (pm, sp)" by (cases s)
  from assms have i: "stack_start l \<le> unat sp" "unat sp \<le> stack_end l" "4 dvd stack_end l - unat sp"
    "stack_end l = stack_start l + 4096"
    by (simp_all add: stack_inv_def s stack_end_def)
  then obtain k where k: "stack_end l - unat sp = 4 * k" by (auto elim: dvdE)
  then have "unat sp - stack_start l = 4 * (1024 - k)" "k \<le> 1024" using i by auto
  then show ?thesis by (simp add: stack_room_def stack_contents_def s k stack_words_def)
qed

lemma stack_contents_cong:
  "(\<And>j. unat sp \<le> j \<Longrightarrow> j < stack_end l \<Longrightarrow> pm_memory pm' j = pm_memory pm j) \<Longrightarrow>
     stack_contents l (pm', sp) = stack_contents l (pm, sp)"
  by (auto simp: stack_contents_def intro!: load_word_cong)

section \<open>Changes of registers, stack and data\<close>

lemma registers_phys [simp]: "ec_registers (c\<lparr>ec_phys := pm\<rparr>) = ec_registers c"
  by (simp add: ec_registers_def)

lemma stands_for_regs_ok: "stands_for n a c \<Longrightarrow> regs_ok (ec_registers c)"
  by (simp add: stands_for_def regs_ok_def)

lemma stands_for_registers:
  assumes "stands_for n a c" and "rf_sp (f (ec_registers c)) = rf_sp (ec_registers c)"
    and "regs_ok (f (ec_registers c))"
    and "as_registers a' = rf_gpr (f (ec_registers c))" and "as_flags a' = rf_flags (f (ec_registers c))"
    and "as_pc a' = rf_pc (f (ec_registers c))" and "as_stack a' = as_stack a" and "as_data a' = as_data a"
    and "as_error a' = as_error a"
  shows "stands_for n a' (with_registers f c)"
  using assms by (simp add: stands_for_def frame_simps ctx_stack_def regs_ok_def)

lemma stands_for_pop:
  assumes "stands_for n a c" and "as_stack a = v # vs"
  obtains s where "popWord (ec_memory c) (ctx_stack c) = (Inr v, s)"
    and "stands_for n (a\<lparr>as_stack := vs\<rparr>) (with_stack s c)"
proof -
  from assms have i: "stack_inv (ec_memory c) (ctx_stack c)" "stack_contents (ec_memory c) (ctx_stack c) = v # vs"
    by (simp_all add: stands_for_def)
  from stk.pop_ok [OF this] obtain s where s: "popWord (ec_memory c) (ctx_stack c) = (Inr v, s)"
    "stack_inv (ec_memory c) s" "stack_contents (ec_memory c) s = vs" by blast
  obtain pm sp where sp: "s = (pm, sp)" by (cases s)
  have "pm = ec_phys c"
    using stack_op_frames(2) [of "ec_memory c" "ec_phys c" "rf_sp (ec_registers c)"] s(1) by (simp add: ctx_stack_def sp)
  then have "stands_for n (a\<lparr>as_stack := vs\<rparr>) (with_stack s c)"
    using assms(1) s(2,3)
    by (simp add: stands_for_def frame_simps) (simp add: with_stack_def frame_simps sp setSp_def)
  with s(1) that show ?thesis by blast
qed

lemma stands_for_push:
  assumes "stands_for n a c" and "length (as_stack a) < stack_words"
  obtains s where "pushWord (ec_memory c) v (ctx_stack c) = (Inr (), s)"
    and "stands_for n (a\<lparr>as_stack := v # as_stack a\<rparr>) (with_stack s c)"
proof -
  let ?l = "ec_memory c" and ?sp = "rf_sp (ec_registers c)"
  from assms(1) have i: "stack_inv ?l (ctx_stack c)" "ml_stackSize ?l = kStackSize"
    and ok: "layout_ok (pm_size (ec_phys c)) ?l"
    by (simp_all add: stands_for_def stack_inv_def ctx_stack_def)
  have "0 < stack_room ?l (ctx_stack c)"
    using stack_room_contents [OF i] assms by (simp add: stands_for_def)
  from stk.push_ok [OF i(1) this, of v] obtain s where s: "pushWord ?l v (ctx_stack c) = (Inr (), s)"
    "stack_inv ?l s" "stack_contents ?l s = v # stack_contents ?l (ctx_stack c)" by blast
  then have sp: "stack_start ?l + 4 \<le> unat ?sp"
    and s': "s = (ec_phys c\<lparr>pm_memory := store_word (pm_memory (ec_phys c)) (unat ?sp - 4) v\<rparr>, ?sp - 4)"
    by (auto simp: ctx_stack_def pushWord_eq [OF ok] split: if_splits)
  have "store_word (pm_memory (ec_phys c)) (unat ?sp - 4) v (data_start ?l + j) = pm_memory (ec_phys c) (data_start ?l + j)"
    if "j < n" for j
    using that sp layout_bounds [OF ok] assms(1) by (intro store_word_other) (auto simp: stands_for_def)
  then have "stands_for n (a\<lparr>as_stack := v # as_stack a\<rparr>) (with_stack s c)"
    using assms(1) s(2,3)
    by (simp add: stands_for_def frame_simps) (simp add: with_stack_def frame_simps s' setSp_def)
  with s(1) that show ?thesis by blast
qed

lemma stands_for_store:
  assumes "stands_for n a c" and "unat off + 4 \<le> n"
  shows "stands_for n (a\<lparr>as_data := store_word (as_data a) (unat off) v\<rparr>)
    (c\<lparr>ec_phys := (ec_phys c)\<lparr>pm_memory :=
       store_word (pm_memory (ec_phys c)) (data_start (ec_memory c) + unat off) v\<rparr>\<rparr>)" (is "stands_for n _ ?c")
proof -
  let ?l = "ec_memory c"
  from assms(1) have i: "stack_inv ?l (ctx_stack c)" and ok: "layout_ok (pm_size (ec_phys c)) ?l"
    and d: "unat (ml_dataSize ?l) = n"
    and bytes: "\<And>j. j < n \<Longrightarrow> pm_memory (ec_phys c) (data_start ?l + j) = as_data a j"
    by (simp_all add: stands_for_def stack_inv_def ctx_stack_def)
  have "stack_contents ?l (ctx_stack ?c) = stack_contents ?l (ctx_stack c)"
    unfolding ctx_stack_def registers_phys exec_context.simps
    using assms(2) layout_bounds [OF ok] d i
    by (intro stack_contents_cong) (auto simp: stack_inv_def ctx_stack_def intro!: store_word_other)
  moreover have "store_word (pm_memory (ec_phys c)) (data_start ?l + unat off) v (data_start ?l + j) =
      store_word (as_data a) (unat off) v j" if "j < n" for j
    using bytes [OF that] by (simp add: store_word_bytes fun_upd_def add.assoc)
  ultimately show ?thesis
    using assms(1) by (simp add: stands_for_def ctx_stack_def stack_inv_def)
qed

lemma stands_for_error:
  "stands_for n a c \<Longrightarrow> stands_for n (a\<lparr>as_error := Some msg\<rparr>) (snd (setExecutionError msg c))"
  by (simp add: stands_for_def setExecutionError_def vmodify_def ec_registers_def ctx_stack_def)

section \<open>Operands\<close>

lemma decode_parts:
  "is_named op \<Longrightarrow> d_opcode (decodeInstruction (encodeInstruction op rd rs1 rs2 imm)) = op"
  "rd < 16 \<Longrightarrow> d_rd (decodeInstruction (encodeInstruction op rd rs1 rs2 imm)) = rd"
  "rs1 < 16 \<Longrightarrow> d_rs1 (decodeInstruction (encodeInstruction op rd rs1 rs2 imm)) = rs1"
  "rs2 < 16 \<Longrightarrow> d_rs2 (decodeInstruction (encodeInstruction op rd rs1 rs2 imm)) = rs2"
  "d_imm (decodeInstruction (encodeInstruction op rd rs1 rs2 imm)) = signed_take_bit 11 imm"
  by (simp_all add: decode_encode opcode_of_byte_byte nibble_id)

lemma immediate_number:
  assumes "- 2048 \<le> v" and "v < 2048"
  shows "scast (signed_take_bit 11 (imm16 v)) = (word_of_int v :: Word)"
proof -
  have s: "sint (imm16 v) = v"
    using assms by (simp add: imm16_def signed_of_int signed_take_bit_int_eq_self)
  with assms have "signed_take_bit 11 (imm16 v) = imm16 v" by (intro signed_take_bit_12_id) simp_all
  then show ?thesis
    using s by (metis scast_eq)
qed

lemma immediate_address:
  assumes "unat x < 2048"
  shows "scast (signed_take_bit 11 (ucast (x :: Address) :: u16)) = x"
    and "ucast (signed_take_bit 11 (ucast x :: u16)) = x"
proof -
  show 1: "scast (signed_take_bit 11 (ucast x :: u16)) = x"
    using small_immediate [OF assms] by simp
  have "signed_take_bit 11 (ucast x :: u16) = of_nat (unat x)"
    using small_immediate(1) [OF assms] by simp
  then show "ucast (signed_take_bit 11 (ucast x :: u16)) = x"
    using assms by (simp add: word_unat_eq_iff unsigned_of_nat take_bit_nat_eq_self unsigned_ucast_eq)
qed

lemma number_address:
  assumes "0 \<le> v" and "v < 2048"
  shows "unat (scast (imm16 v) :: Address) = nat v"
proof -
  have "sint (imm16 v) = v" using assms by (simp add: imm16_def signed_of_int signed_take_bit_int_eq_self)
  then have "(scast (imm16 v) :: Address) = word_of_int v" by (metis scast_eq)
  with assms show ?thesis by (simp add: unat_eq_nat_uint uint_word_of_int_eq take_bit_int_eq_self)
qed

lemma dataTypeSize_pos: "0 < dataTypeSize ty"
  by (cases ty) simp_all

lemma symbols_below:
  assumes "d \<in> set (symbols_from a sts)" and "unat a + data_size sts < 2 ^ 32"
  shows "unat (ds_offset d) < unat a + data_size sts"
  using assms
proof (induction sts arbitrary: a)
  case (Cons st sts)
  show ?case
  proof (cases st)
    case (Define ty x v)
    have "unat (a + of_nat (dataTypeSize ty)) = unat a + dataTypeSize ty"
      using Cons.prems(2) Define by (subst unat_add_u32) (simp_all add: unsigned_of_nat take_bit_nat_eq_self)
    then show ?thesis
      using Cons.prems Define Cons.IH [of "a + of_nat (dataTypeSize ty)"] dataTypeSize_pos [of ty] by auto
  qed (use Cons in auto)
qed simp

lemma labels_below:
  "(l, p) \<in> set (label_addresses a sts) \<Longrightarrow> \<exists>k \<le> length (instructions_of sts). p = a + of_nat k"
proof (induction sts arbitrary: a)
  case (Cons st sts)
  show ?case
  proof (cases st)
    case (Instruction i)
    with Cons obtain k where "k \<le> length (instructions_of sts)" "p = a + 1 + of_nat k" by fastforce
    with Instruction show ?thesis by (intro exI [of _ "Suc k"]) simp
  next
    case (Label l')
    with Cons show ?thesis by auto
  qed (use Cons in auto)
qed simp

lemma label_position_small:
  assumes "label_map sts l = Some p" and "program_small sts"
  shows "label_position sts l = p" and "unat p < 2048"
proof -
  from assms(1) have "(l, p) \<in> set (label_addresses 0 sts)" by (auto simp: label_map_def dest: map_of_SomeD)
  from labels_below [OF this] assms(2) show "unat p < 2048"
    by (auto simp: program_small_def unsigned_of_nat take_bit_nat_eq_self)
qed (simp add: label_position_def assms(1))

lemma data_address_small:
  assumes "address_value (symbols_from 0 sts) x = Some p" and "program_small sts"
    and "\<And>v. x = At_number v \<Longrightarrow> 0 \<le> v \<and> v < 2048"
  shows "data_address sts x = p" and "unat p < 2048"
proof -
  show "unat p < 2048"
  proof (cases x)
    case (At_symbol y)
    with assms(1) obtain d where "find (\<lambda>d. ds_name d = y) (symbols_from 0 sts) = Some d" "p = ds_offset d"
      by (auto simp: symbol_offset_def)
    then have "d \<in> set (symbols_from 0 sts)" "p = ds_offset d" by (auto simp: find_Some_iff)
    with symbols_below [of d 0 sts] assms(2) show ?thesis by (simp add: program_small_def)
  next
    case (At_number v)
    with assms(1,3) number_address [of v] show ?thesis by auto
  qed
qed (simp add: data_address_def assms(1))

section \<open>Simulation of one instruction\<close>

definition agrees :: "nat \<Rightarrow> assembly_result \<Rightarrow> (vm_exception + execution_result) \<times> exec_context \<Rightarrow> bool" where
  "agrees n res out \<longleftrightarrow> fst out = fst res \<and> stands_for n (snd res) (snd out)"

lemma agrees_register:
  "stands_for n a c \<Longrightarrow> gpr c r = as_reg r a"
  by (simp add: stands_for_def as_reg_def)

lemma as_fields [simp]:
  "as_stack (set_as_reg r v a) = as_stack a" "as_data (set_as_reg r v a) = as_data a"
  "as_error (set_as_reg r v a) = as_error a" "as_pc (set_as_reg r v a) = as_pc a"
  "as_flags (set_as_reg r v a) = as_flags a" "as_registers (set_as_reg r v a) = (as_registers a)[unat r := v]"
  "as_stack (result_flags v a) = as_stack a" "as_data (result_flags v a) = as_data a"
  "as_error (result_flags v a) = as_error a" "as_pc (result_flags v a) = as_pc a"
  "as_registers (result_flags v a) = as_registers a"
  "as_flags (result_flags v a) = (as_flags a)\<lparr>fl_zero := (v = 0), fl_sign := (sint v < 0)\<rparr>"
  "as_stack (compare_flags l w a) = as_stack a" "as_data (compare_flags l w a) = as_data a"
  "as_error (compare_flags l w a) = as_error a" "as_pc (compare_flags l w a) = as_pc a"
  "as_registers (compare_flags l w a) = as_registers a"
  by (simp_all add: set_as_reg_def result_flags_def compare_flags_def)

text \<open>An instruction that only works on registers.\<close>

lemma agrees_proceed:
  assumes "stands_for n a c" and "rf_sp (f (ec_registers c)) = rf_sp (ec_registers c)"
    and "rf_pc (f (ec_registers c)) = rf_pc (ec_registers c)"
    and "as_registers a' = rf_gpr (f (ec_registers c))" and "length (as_registers a') = length (as_registers a)"
    and "as_flags a' = rf_flags (f (ec_registers c))"
    and "as_pc a' = as_pc a" "as_stack a' = as_stack a" "as_data a' = as_data a" "as_error a' = as_error a"
  shows "agrees n (proceed a') (Inr ER_Continue, with_registers (\<lambda>r. advancePc (f r)) c)"
proof -
  have "stands_for n (a'\<lparr>as_pc := as_pc a' + 1\<rparr>) (with_registers (\<lambda>r. advancePc (f r)) c)"
    by (rule stands_for_registers [OF assms(1)])
      (use assms stands_for_regs_ok [OF assms(1)] in
        \<open>simp_all add: register_defs regs_ok_def stands_for_def\<close>)
  then show ?thesis by (simp add: agrees_def proceed_def)
qed

lemma agrees_next:
  assumes "stands_for n a c"
  shows "agrees n (proceed a) (Inr ER_Continue, with_registers advancePc c)"
proof -
  have "agrees n (proceed a) (Inr ER_Continue, with_registers (\<lambda>r. advancePc ((\<lambda>r. r) r)) c)"
    by (rule agrees_proceed [OF assms]) (use assms in \<open>simp_all add: stands_for_def\<close>)
  then show ?thesis by simp
qed

lemma agrees_go_to:
  assumes "stands_for n a c"
  shows "agrees n (go_to x a) (Inr ER_Jump, with_registers (setPc x) c)"
proof -
  have "stands_for n (a\<lparr>as_pc := x\<rparr>) (with_registers (setPc x) c)"
    by (rule stands_for_registers [OF assms])
      (use assms in \<open>simp_all add: register_defs regs_ok_def stands_for_def\<close>)
  then show ?thesis by (simp add: agrees_def go_to_def)
qed

lemma agrees_fail:
  "stands_for n a c \<Longrightarrow> agrees n (fail_with msg a) (Inr ER_Error, snd (setExecutionError msg c))"
  by (simp add: agrees_def fail_with_def stands_for_error)

lemma agrees_push:
  assumes "stands_for n a c" and "d_opcode d = OP_PUSH" and "decoded_ok d" and "operand_value d c = v"
  shows "agrees n (as_push v a) (registry_execute d c)"
proof (cases "length (as_stack a) < stack_words")
  case True
  from stands_for_push [OF assms(1) this, of v] obtain s where
    "pushWord (ec_memory c) v (ctx_stack c) = (Inr (), s)"
    "stands_for n (a\<lparr>as_stack := v # as_stack a\<rparr>) (with_stack s c)" .
  with True assms agrees_next show ?thesis by (simp add: registry_push as_push_def)
next
  case False
  have i: "stack_inv (ec_memory c) (ctx_stack c)" "ml_stackSize (ec_memory c) = kStackSize"
    using assms(1) by (simp_all add: stands_for_def)
  have "stack_room (ec_memory c) (ctx_stack c) = 0"
    using stack_room_contents [OF i] False assms(1) by (simp add: stands_for_def)
  from stk.push_full [OF i(1) this] False assms show ?thesis
    by (simp add: registry_push as_push_def agrees_fail)
qed

lemma agrees_pop:
  assumes "stands_for n a c" and "as_stack a = []"
  shows "popWord (ec_memory c) (ctx_stack c) = (Inl (VmException ''stack underflow''), ctx_stack c)"
  using assms stk.pop_empty by (simp add: stands_for_def)

lemma agrees_ret:
  assumes "stands_for n a c" and "d_opcode d = OP_RET"
  shows "agrees n (as_pop go_to a) (registry_execute d c)"
proof (cases "as_stack a")
  case Nil
  with assms agrees_pop [OF assms(1)] show ?thesis by (simp add: registry_ret as_pop_def agrees_fail)
next
  case (Cons v vs)
  from stands_for_pop [OF assms(1) this] obtain s where
    "popWord (ec_memory c) (ctx_stack c) = (Inr v, s)" "stands_for n (a\<lparr>as_stack := vs\<rparr>) (with_stack s c)" .
  with assms(2) Cons show ?thesis by (simp add: registry_ret as_pop_def agrees_go_to)
qed

lemma agrees_pop_register:
  assumes "stands_for n a c" and "d_opcode d = OP_POP" and "decoded_ok d" and "d_rd d = r"
  shows "agrees n (as_pop (\<lambda>v a. proceed (set_as_reg r v a)) a) (registry_execute d c)"
proof (cases "as_stack a")
  case Nil
  with assms agrees_pop [OF assms(1)] show ?thesis by (simp add: registry_pop as_pop_def agrees_fail)
next
  case (Cons v vs)
  from stands_for_pop [OF assms(1) this] obtain s where
    pop: "popWord (ec_memory c) (ctx_stack c) = (Inr v, s)" and
    s: "stands_for n (a\<lparr>as_stack := vs\<rparr>) (with_stack s c)" .
  have "agrees n (proceed (set_as_reg r v (a\<lparr>as_stack := vs\<rparr>)))
      (Inr ER_Continue, with_registers (\<lambda>rf. advancePc (write_register r v rf)) (with_stack s c))"
    by (rule agrees_proceed [OF s]) (use s in \<open>simp_all add: frame_simps stands_for_def\<close>)
  with assms pop Cons show ?thesis by (simp add: registry_pop as_pop_def)
qed

lemma load_word_shift:
  assumes "\<And>i. i < 4 \<Longrightarrow> m (x + i) = m' (y + i)"
  shows "load_word m x = load_word m' y"
  using assms [of 0] assms [of 1] assms [of 2] assms [of 3] by (simp add: load_word_bytes)

lemma agrees_unary:
  assumes "stands_for n a c" and "d_opcode d = op" and "decoded_ok d" and "d_rd d = r"
    and "op \<in> set unary_opcodes"
  shows "agrees n (as_unary op r a) (registry_execute d c)"
proof -
  let ?v = "as_reg r a"
  have l: "length (as_registers a) = kRegisterCount" using assms(1) by (simp add: stands_for_def)
  have regs: "rf_gpr (ec_registers c) = as_registers a" "rf_flags (ec_registers c) = as_flags a"
    using assms(1) by (simp_all add: stands_for_def)
  note reg = agrees_register [OF assms(1), of r]
  have result: "agrees n (proceed (result_flags w (set_as_reg r w a)))
      (Inr ER_Continue, with_registers (\<lambda>rf. advancePc (updateFlags w (write_register r w rf))) c)" for w
    by (rule agrees_proceed [OF assms(1)]) (simp_all add: l regs frame_simps register_defs is_negative_def)
  have compare: "agrees n (proceed (compare_flags ?v 1 (set_as_reg r (?v - 1) a)))
      (Inr ER_Continue, with_registers (\<lambda>rf. advancePc (updateFlagsSub ?v 1 (?v - 1) (write_register r (?v - 1) rf))) c)"
    by (rule agrees_proceed [OF assms(1)])
      (simp_all add: l regs frame_simps updateFlagsSub_flags compare_flags_def)
  from assms(5) consider "op = OP_INC" | "op = OP_DEC" | "op = OP_NOT" by (auto simp: unary_opcodes_def)
  then show ?thesis
  proof cases
    case 1
    with result assms(2,4) registry_unary(1) [OF assms(3), of c] show ?thesis by (simp add: reg Let_def)
  next
    case 2
    with compare assms(2,4) registry_unary(2) [OF assms(3), of c] show ?thesis by (simp add: reg Let_def)
  next
    case 3
    with result assms(2,4) registry_unary(3) [OF assms(3), of c] show ?thesis by (simp add: reg Let_def)
  qed
qed

lemma agrees_compare:
  assumes "stands_for n a c"
  shows "agrees n (proceed (compare_flags l v a))
      (Inr ER_Continue, with_registers (\<lambda>rf. advancePc (updateFlagsSub l v (l - v) rf)) c)"
  by (rule agrees_proceed [OF assms])
    (use assms in \<open>simp_all add: stands_for_def updateFlagsSub_flags compare_flags_def\<close>,
     simp_all add: register_defs)

lemma agrees_binary:
  assumes "stands_for n a c" and "d_opcode d = op" and "decoded_ok d" and "operand_value d c = v"
    and "op = OP_CMP \<or> op = OP_NOP \<or> d_rd d = r" and "op = OP_MOV \<or> op = OP_NOP \<or> d_rs1 d = r"
    and "op \<in> set binary_opcodes"
  shows "agrees n (as_binary op r v a) (registry_execute d c)"
proof -
  have l: "length (as_registers a) = kRegisterCount" using assms(1) by (simp add: stands_for_def)
  have regs: "rf_gpr (ec_registers c) = as_registers a" "rf_flags (ec_registers c) = as_flags a"
    using assms(1) by (simp_all add: stands_for_def)
  note reg = agrees_register [OF assms(1), of r]
  consider "op = OP_NOP" | "op = OP_MOV" | "op = OP_CMP" | "op \<notin> {OP_NOP, OP_MOV, OP_CMP}" by blast
  then show ?thesis
  proof cases
    case 1
    with assms show ?thesis by (simp add: as_binary_def registry_simple agrees_next)
  next
    case 2
    have "agrees n (proceed (set_as_reg r v a)) (Inr ER_Continue, with_registers (\<lambda>rf. advancePc (write_register r v rf)) c)"
      by (rule agrees_proceed [OF assms(1)]) (simp_all add: l regs frame_simps)
    with 2 assms show ?thesis by (simp add: as_binary_def registry_mov)
  next
    case 3
    with assms agrees_compare [OF assms(1)] reg show ?thesis by (simp add: as_binary_def registry_cmp)
  next
    case 4
    with assms have ops: "d_rd d = r" "d_rs1 d = r" by auto
    show ?thesis
    proof (cases "alu_operation op (as_reg r a) v")
      case None
      with 4 assms(7) have "op = OP_DIV \<or> op = OP_MOD" "v = 0"
        by (auto simp: binary_opcodes_def split: if_splits)
      with assms registry_division_by_zero [OF assms(3), of c] agrees_fail [OF assms(1)] None 4
      show ?thesis by (auto simp: as_binary_def)
    next
      case (Some w)
      let ?a = "set_as_reg r w a"
      let ?f = "\<lambda>rf. alu_flags op (as_reg r a) v w (write_register r w rf)"
      have "op = OP_SUB \<Longrightarrow> w = as_reg r a - v" using Some by simp
      then have "agrees n (proceed (if op = OP_SUB then compare_flags (as_reg r a) v ?a else result_flags w ?a))
          (Inr ER_Continue, with_registers (\<lambda>rf. advancePc (?f rf)) c)"
        by (intro agrees_proceed [OF assms(1)])
          (auto simp: l regs frame_simps alu_flags_def updateFlagsSub_flags compare_flags_def,
           auto simp: register_defs write_register_def is_negative_def regs l)
      moreover have "registry_execute d c = (Inr ER_Continue, with_registers (\<lambda>rf. advancePc (?f rf)) c)"
        using registry_alu [OF assms(3), of c w] Some assms(2,4) ops reg by simp
      ultimately show ?thesis using Some 4 by (simp add: as_binary_def Let_def)
    qed
  qed
qed

lemma agrees_memory:
  assumes "stands_for n a c" and "d_opcode d = op" and "decoded_ok d" and "d_rd d = r"
    and "scast (d_imm d) = off" and "op = OP_LOAD \<or> op = OP_STORE"
  shows "agrees n (as_memory n op r off a) (registry_execute d c)"
proof -
  let ?l = "ec_memory c"
  have ok: "layout_ok (pm_size (ec_phys c)) ?l" and n: "unat (ml_dataSize ?l) = n"
    and bytes: "\<And>j. j < n \<Longrightarrow> pm_memory (ec_phys c) (data_start ?l + j) = as_data a j"
    and regs: "rf_gpr (ec_registers c) = as_registers a" "rf_flags (ec_registers c) = as_flags a"
    using assms(1) by (simp_all add: stands_for_def stack_inv_def ctx_stack_def)
  show ?thesis
  proof (cases "unat off + 4 \<le> n")
    case False
    with assms registry_load [OF assms(3) _ ok] registry_store [OF assms(3) _ ok] n
    show ?thesis by (auto simp: as_memory_def agrees_def)
  next
    case True
    let ?w = "load_word (as_data a) (unat off)"
    have w: "load_word (pm_memory (ec_phys c)) (data_start ?l + unat off) = ?w"
      by (rule load_word_shift) (use bytes True in \<open>simp add: add.assoc\<close>)
    have "agrees n (proceed (set_as_reg r ?w a)) (Inr ER_Continue, with_registers (\<lambda>rf. advancePc (write_register r ?w rf)) c)"
      by (rule agrees_proceed [OF assms(1)]) (use assms(1) in \<open>simp_all add: regs frame_simps\<close>)
    then have "op = OP_LOAD \<Longrightarrow> ?thesis"
      using assms registry_load [OF assms(3) _ ok] True n w by (simp add: as_memory_def)
    moreover have "op = OP_STORE \<Longrightarrow> ?thesis"
      using assms registry_store [OF assms(3) _ ok] True n agrees_register [OF assms(1), of r]
        agrees_next [OF stands_for_store [OF assms(1) True, of "as_reg r a"]]
      by (simp add: as_memory_def)
    ultimately show ?thesis using assms(6) by blast
  qed
qed

lemma agrees_jump:
  assumes "stands_for n a c" and "d_opcode d = op" and "scast (d_imm d) = target" and "op \<in> set jump_opcodes"
  shows "agrees n (if op = OP_JMP \<or> takeJump (as_flags a) op then go_to target a else proceed a) (registry_execute d c)"
proof (cases "op = OP_JMP")
  case True
  with assms registry_simple(2) [of d c] agrees_go_to [OF assms(1)] show ?thesis by simp
next
  case False
  have "rf_flags (ec_registers c) = as_flags a" using assms(1) by (simp add: stands_for_def)
  with False assms registry_conditional_jump [of d c] jump_conditional [OF assms(4) False]
    agrees_go_to [OF assms(1)] agrees_next [OF assms(1)]
  show ?thesis by simp
qed

text \<open>Decoded words as operands.\<close>

lemma operand_register:
  assumes "stands_for n a c" and "r < 16" and "r \<noteq> 15"
  shows "operand_value (decodeInstruction (encodeInstruction op rd rs1 r imm)) c = as_reg r a"
  using assms by (simp add: operand_value_def decode_parts agrees_register)

lemma operand_immediate:
  "operand_value (decodeInstruction (encodeInstruction op rd rs1 15 imm)) c = scast (signed_take_bit 11 imm)"
  by (simp add: operand_value_def decode_parts)

lemma statement_simulated:
  assumes "stands_for (data_size sts) a c" and "program_small sts"
    and "instruction_word (label_map sts) (symbols_from 0 sts) i = Some w"
    and "instruction_ok i" and "operands_small i" and "\<And>sc x. i \<noteq> A_call sc x"
  shows "agrees (data_size sts) (execute_statement sts i a) (registry_execute (decodeInstruction w) c)"
proof (cases i)
  case A_halt
  then have "w = encodeInstruction OP_HALT 0 0 0 0" using assms(3) by simp
  then have "registry_execute (decodeInstruction w) c = (Inr ER_Halt, c\<lparr>ec_cpu := setHalted True (ec_cpu c)\<rparr>)"
    by (simp add: registry_simple decode_parts)
  with A_halt assms(1) show ?thesis
    by (simp add: agrees_def stands_for_def ec_registers_def setHalted_def ctx_stack_def)
next
  case A_ret
  with assms show ?thesis by (auto intro!: agrees_ret simp: decode_parts)
next
  case (A_push_register r)
  with assms operand_register [OF assms(1), of r] show ?thesis
    by (auto intro!: agrees_push simp: decode_parts)
next
  case (A_push_label l)
  with assms obtain p where p: "label_map sts l = Some p" by auto
  note label_position_small [OF this assms(2)]
  with assms A_push_label p show ?thesis
    by (auto intro!: agrees_push simp: decode_parts operand_immediate immediate_address)
next
  case (A_push_number v)
  with assms show ?thesis
    by (auto intro!: agrees_push simp: decode_parts operand_immediate immediate_number)
next
  case (A_pop r)
  with assms show ?thesis by (auto intro!: agrees_pop_register simp: decode_parts)
next
  case (A_jump op l)
  with assms obtain p where p: "label_map sts l = Some p" by auto
  note q = label_position_small [OF this assms(2)]
  have "is_named op" using assms(4) A_jump by (simp add: opcode_group_named)
  with assms(1,3,4) A_jump p q agrees_jump [OF assms(1), of "decodeInstruction w" op p] show ?thesis
    by (auto simp: decode_parts immediate_address)
next
  case (A_unary op r)
  with assms show ?thesis
    by (auto intro!: agrees_unary simp: decode_parts opcode_group_named)
next
  case (A_memory op r x)
  with assms obtain p where p: "address_value (symbols_from 0 sts) x = Some p" by auto
  have "\<And>v. x = At_number v \<Longrightarrow> 0 \<le> v \<and> v < 2048" using assms(5) A_memory by auto
  note q = data_address_small [OF p assms(2) this]
  from assms A_memory p q show ?thesis
    by (auto intro!: agrees_memory simp: decode_parts immediate_address)
next
  case (A_mov_symbol r x)
  with assms obtain p where p: "symbol_offset (symbols_from 0 sts) x = Some p" by auto
  then have "address_value (symbols_from 0 sts) (At_symbol x) = Some p" by simp
  note q = data_address_small [OF this assms(2)]
  from assms A_mov_symbol p q show ?thesis
    by (auto intro!: agrees_memory simp: decode_parts immediate_address)
next
  case (A_registers op r r')
  with assms operand_register [OF assms(1), of r'] show ?thesis
    by (auto intro!: agrees_binary simp: decode_parts opcode_group_named)
next
  case (A_immediate op r v)
  with assms show ?thesis
    by (auto intro!: agrees_binary simp: decode_parts opcode_group_named operand_immediate immediate_number)
next
  case (A_call sc x)
  with assms(6) [of sc x] show ?thesis by simp
qed

end
