(* ===== verification/Program_Execution.thy ===== *)
theory Program_Execution
  imports Main_Program Assembly_Semantics
begin

text \<open>
  A loaded program on the machine: fetching, decoding and executing the words in its region does
  what the statements of its source say, step by step and through the interface of
  \<^verbatim>\<open>VirtualMachine\<close>. The part of a process that the statements determine, together with what is
  written and read at the console, follows the semantics of the assembly language exactly; a program
  that loads further programs or runs out of its own code is not covered by that semantics.
\<close>

section \<open>Programs with input and output\<close>

record console =
  io_out :: string
  io_in :: input_stream

type_synonym program_state = "assembly_state \<times> console"

type_synonym program_result = "(vm_exception + execution_result) \<times> program_state"

definition after_call :: "assembly_state \<Rightarrow> assembly_state" where
  "after_call a = a\<lparr>as_pc := as_pc a + 1\<rparr>"

text \<open>System calls on a data segment of the given size.\<close>

fun call_statement :: "nat \<Rightarrow> syscall_id \<Rightarrow> Address \<Rightarrow> program_state \<Rightarrow> program_result" where
  "call_statement n SYS_Print off (a, io) =
     (if unat off + 4 \<le> n
      then (Inr ER_Continue, after_call a,
            io\<lparr>io_out := io_out io @ show_word (load_word (as_data a) (unat off)) @ [CHR 0x0A]\<rparr>)
      else (Inl (segment_error ''data'' off), a, io))"
| "call_statement n SYS_Scan off (a, io) =
     (case extract_word (io_in io) of (v, stream) \<Rightarrow>
        let io' = io\<lparr>io_in := stream\<rparr>
        in if is_fail stream
           then (Inl (VmException ''syscall scan: failed to read integer from input''), a, io')
           else if unat off + 4 \<le> n
           then (Inr ER_Continue, after_call (a\<lparr>as_data := store_word (as_data a) (unat off) v\<rparr>), io')
           else (Inl (segment_error ''data'' off), a, io'))"
| "call_statement n SYS_Exit off (a, io) = (Inr ER_Halt, after_call a, io)"
| "call_statement n SYS_Yield off (a, io) = (Inr ER_Yield, after_call a, io)"
| "call_statement n _ off (a, io) = (Inr ER_Continue, after_call a, io)"

definition assembly_step :: "statement list \<Rightarrow> program_state \<Rightarrow> program_result option" where
  "assembly_step sts = (\<lambda>(a, io).
     if length (instructions_of sts) \<le> unat (as_pc a) then None
     else case instructions_of sts ! unat (as_pc a) of
            A_call sc x \<Rightarrow>
              if sc = SYS_Load then None
              else Some (call_statement (data_size sts) sc (data_address sts x) (a, io))
          | i \<Rightarrow> (case execute_statement sts i a of (r, a') \<Rightarrow> Some (r, a', io)))"

text \<open>At most \<open>n\<close> steps, ending early with a halt, an error or an exception.\<close>

fun assembly_run :: "statement list \<Rightarrow> nat \<Rightarrow> execution_result \<Rightarrow> program_state \<Rightarrow> program_result option" where
  "assembly_run sts 0 result s = Some (Inr result, s)"
| "assembly_run sts (Suc n) result s =
     (case assembly_step sts s of
        None \<Rightarrow> None
      | Some (Inl e, s') \<Rightarrow> Some (Inl e, s')
      | Some (Inr r, s') \<Rightarrow>
          if r = ER_Halt \<or> r = ER_Error then Some (Inr r, s') else assembly_run sts n r s')"

section \<open>A process that runs a program\<close>

definition code_loaded :: "statement list \<Rightarrow> pcb_ref \<Rightarrow> machine \<Rightarrow> bool" where
  "code_loaded sts i m \<longleftrightarrow>
    (let l = p_memory (processes m ! i); code = reference_code sts
     in code_start l + 4 * length code \<le> data_start l \<and>
        (\<forall>k < length code. load_word (pm_memory (vm_phys m)) (code_start l + 4 * k) = code ! k))"

definition at_state :: "statement list \<Rightarrow> pcb_ref \<Rightarrow> assembly_state \<Rightarrow> machine \<Rightarrow> bool" where
  "at_state sts i a m \<longleftrightarrow> i < length (processes m) \<and> code_loaded sts i m \<and>
    stands_for (data_size sts) a (execution_context i m)"

definition at_console :: "console \<Rightarrow> machine \<Rightarrow> bool" where
  "at_console io m \<longleftrightarrow> vm_out m = io_out io \<and> vm_in m = io_in io"

lemma length_reference_code [simp]: "length (reference_code sts) = length (instructions_of sts)"
  by (simp add: reference_code_def)

lemma at_state_layout: "at_state sts i a m \<Longrightarrow> layout_ok (pm_size (vm_phys m)) (p_memory (processes m ! i))"
  by (simp add: at_state_def stands_for_def stack_inv_def ctx_stack_def execution_context_def)

lemma at_state_pc: "at_state sts i a m \<Longrightarrow> rf_pc (registers_of i m) = as_pc a"
  by (simp add: at_state_def stands_for_def execution_context_def ec_registers_def registers_of_def)

lemma at_state_fetched:
  assumes "at_state sts i a m" and "unat (as_pc a) < length (instructions_of sts)"
  shows "fetched i m = Some (decodeInstruction (reference_code sts ! unat (as_pc a)))"
proof -
  let ?l = "p_memory (processes m ! i)" and ?n = "unat (as_pc a)"
  note ok = at_state_layout [OF assms(1)]
  have code: "code_start ?l + 4 * length (reference_code sts) \<le> data_start ?l"
    "load_word (pm_memory (vm_phys m)) (code_start ?l + 4 * ?n) = reference_code sts ! ?n"
    using assms by (simp_all add: at_state_def code_loaded_def Let_def)
  have b: "code_start ?l + 4 * ?n + 4 \<le> unat (pm_size (vm_phys m))" "unat (pm_size (vm_phys m)) < 2 ^ 32"
    using code(1) assms(2) layout_bounds [OF ok] by (simp_all add: stack_end_def)
  then have "unat (codeWordAddress ?l (as_pc a)) = code_start ?l + 4 * ?n"
    by (intro codeWordAddress_eq [OF ok]) simp
  with b code(2) have "readCodeWord ?l (as_pc a) (vm_phys m) = (Inr (reference_code sts ! ?n), vm_phys m)"
    by (simp add: readCodeWord_def phys_reads in_range_def)
  then show ?thesis by (simp add: fetched_def at_state_pc [OF assms(1)])
qed

text \<open>Changes that keep a process at its state.\<close>

lemma at_state_err [simp]:
  "at_state sts i a (m\<lparr>vm_err := e\<rparr>) = at_state sts i a m" "at_state sts i a (m\<lparr>vm_out := e\<rparr>) = at_state sts i a m"
  "at_state sts i a (m\<lparr>vm_in := s\<rparr>) = at_state sts i a m"
  by (simp_all add: at_state_def code_loaded_def execution_context_def processes_fields)

lemma at_state_process:
  assumes "at_state sts i a m" and "p_memory (f (processes m ! i)) = p_memory (processes m ! i)"
    and "stands_for (data_size sts) a' ((execution_context i m)\<lparr>ec_cpu := p_context (f (processes m ! i)),
           ec_process := Some (p_lastError (f (processes m ! i)))\<rparr>)"
  shows "at_state sts i a' (on_process i f m)"
proof -
  have "processes (on_process i f m) ! i = f (processes m ! i)"
    using assms(1) by (simp add: at_state_def frame_simps nth_update_process)
  then show ?thesis
    using assms by (simp add: at_state_def code_loaded_def execution_context_def frame_simps Let_def)
qed

lemma stands_for_cpu:
  assumes "stands_for n a c" and "cx_registers cpu = cx_registers (ec_cpu c)"
  shows "stands_for n a (c\<lparr>ec_cpu := cpu\<rparr>)"
  using assms by (simp add: stands_for_def ec_registers_def ctx_stack_def)

lemma at_state_context:
  assumes "at_state sts i a m" and "\<And>c. cx_registers (f c) = cx_registers c"
  shows "at_state sts i a (on_process i (on_context f) m)"
  by (rule at_state_process [OF assms(1)])
    (use assms in \<open>auto simp: at_state_def pcb_defs execution_context_def dest: stands_for_cpu [where cpu = "f (p_context (processes m ! i))"]\<close>)

lemma at_state_advance:
  assumes "at_state sts i a m"
  shows "at_state sts i (after_call a) (on_process i (on_context advance_context) m)"
proof (rule at_state_process [OF assms])
  have "stands_for (data_size sts) (after_call a) (with_registers advancePc (execution_context i m))"
    using agrees_next [of "data_size sts" a "execution_context i m"] assms
    by (simp add: agrees_def proceed_def after_call_def at_state_def)
  then show "stands_for (data_size sts) (after_call a) ((execution_context i m)
      \<lparr>ec_cpu := p_context (on_context advance_context (processes m ! i)),
       ec_process := Some (p_lastError (on_context advance_context (processes m ! i)))\<rparr>)"
    by (simp add: with_registers_def execution_context_def pcb_defs advance_context_def)
qed (simp add: pcb_defs)

section \<open>One instruction of a program\<close>

text \<open>The instructions that the registry executes.\<close>

lemma handler_step:
  assumes "at_state sts i a m" and "agrees (data_size sts) (r, a') (registry_execute insn (execution_context i m))"
  shows "\<exists>m'. run_handler i insn m = (r, m') \<and> at_state sts i a' m' \<and> vm_out m' = vm_out m \<and> vm_in m' = vm_in m"
proof -
  let ?c0 = "execution_context i m"
  obtain q c where rc: "registry_execute insn ?c0 = (q, c)" by (metis prod.exhaust)
  with assms(2) have q: "q = r" and s: "stands_for (data_size sts) a' c" by (simp_all add: agrees_def)
  have i: "i < length (processes m)" and code: "code_loaded sts i m" using assms(1) by (simp_all add: at_state_def)
  from registry_context_frame [OF rc] at_state_layout [OF assms(1)]
  have mem: "ec_memory c = p_memory (processes m ! i)"
    and bytes: "\<And>j. j < data_start (p_memory (processes m ! i)) \<Longrightarrow> pm_memory (ec_phys c) j = pm_memory (vm_phys m) j"
    by (simp_all add: ctx_frame_def execution_context_def)
  let ?m' = "write_context i c m"
  have e: "ec_process c = Some (as_error a')" using s by (simp add: stands_for_def)
  have p: "processes ?m' ! i = (processes m ! i)\<lparr>p_context := ec_cpu c, p_lastError := as_error a'\<rparr>"
    using i e by (simp add: write_context_def frame_simps nth_update_process processes_fields)
  have f: "vm_phys ?m' = ec_phys c" "length (processes ?m') = length (processes m)"
    "vm_out ?m' = vm_out m" "vm_in ?m' = vm_in m"
    by (simp_all add: write_context_def frame_simps processes_fields)
  have "execution_context i ?m' = c"
    by (simp add: execution_context_def p f) (simp add: mem [symmetric] e [symmetric])
  moreover have "code_loaded sts i ?m'"
  proof -
    let ?l = "p_memory (processes m ! i)"
    have "load_word (pm_memory (ec_phys c)) (code_start ?l + 4 * k) = load_word (pm_memory (vm_phys m)) (code_start ?l + 4 * k)"
      if "k < length (instructions_of sts)" for k
      by (rule load_word_cong, rule bytes) (use that code in \<open>simp add: code_loaded_def Let_def\<close>)
    with code show ?thesis by (simp add: code_loaded_def Let_def p f)
  qed
  ultimately have "at_state sts i a' ?m'" using i s f by (simp add: at_state_def)
  with f q rc show ?thesis by (simp add: run_handler_def)
qed

text \<open>Writing a word of the data segment, as \<^verbatim>\<open>scan\<close> does.\<close>

lemma data_write_step:
  assumes "at_state sts i a m" and "unat off + 4 \<le> data_size sts"
  shows "\<exists>m'. process_memory i (\<lambda>l. writeDataWord l off v) m = (Inr (), m') \<and>
    at_state sts i (a\<lparr>as_data := store_word (as_data a) (unat off) v\<rparr>) m' \<and> vm_out m' = vm_out m \<and> vm_in m' = vm_in m"
proof -
  let ?l = "p_memory (processes m ! i)" and ?c = "execution_context i m"
  note ok = at_state_layout [OF assms(1)]
  have s: "stands_for (data_size sts) a ?c" and code: "code_loaded sts i m" and i: "i < length (processes m)"
    using assms(1) by (simp_all add: at_state_def)
  have n: "unat (ml_dataSize ?l) = data_size sts" using s by (simp add: stands_for_def execution_context_def)
  let ?pm = "(vm_phys m)\<lparr>pm_memory := store_word (pm_memory (vm_phys m)) (data_start ?l + unat off) v\<rparr>"
  have "process_memory i (\<lambda>l. writeDataWord l off v) m = (Inr (), m\<lparr>vm_phys := ?pm\<rparr>)"
    using data_access(2) [OF ok] assms(2) n by (simp add: process_memory_def)
  moreover have "stands_for (data_size sts) (a\<lparr>as_data := store_word (as_data a) (unat off) v\<rparr>) (execution_context i (m\<lparr>vm_phys := ?pm\<rparr>))"
    using stands_for_store [OF s assms(2), of v] by (simp add: execution_context_def processes_fields)
  moreover have "code_loaded sts i (m\<lparr>vm_phys := ?pm\<rparr>)"
    using code by (auto simp: code_loaded_def Let_def processes_fields load_store_other)
  ultimately show ?thesis using i by (simp add: at_state_def processes_fields)
qed

lemma data_read_step:
  assumes "at_state sts i a m" and "unat off + 4 \<le> data_size sts"
  shows "process_memory i (\<lambda>l. readDataWord l off) m = (Inr (load_word (as_data a) (unat off)), m)"
proof -
  let ?l = "p_memory (processes m ! i)"
  note ok = at_state_layout [OF assms(1)]
  have n: "unat (ml_dataSize ?l) = data_size sts"
    and bytes: "\<And>j. j < data_size sts \<Longrightarrow> pm_memory (vm_phys m) (data_start ?l + j) = as_data a j"
    using assms(1) by (simp_all add: at_state_def stands_for_def execution_context_def)
  have "load_word (pm_memory (vm_phys m)) (data_start ?l + unat off) = load_word (as_data a) (unat off)"
    by (rule load_word_shift) (use bytes assms(2) in \<open>simp add: add.assoc\<close>)
  then show ?thesis
    using data_access(1) [OF ok] assms(2) n by (simp add: process_memory_def)
qed

lemma data_out_step:
  assumes "at_state sts i a m" and "\<not> unat off + 4 \<le> data_size sts"
  shows "process_memory i (\<lambda>l. readDataWord l off) m = (Inl (segment_error ''data'' off), m)"
    and "process_memory i (\<lambda>l. writeDataWord l off v) m = (Inl (segment_error ''data'' off), m)"
proof -
  have "unat (ml_dataSize (p_memory (processes m ! i))) = data_size sts"
    using assms(1) by (simp add: at_state_def stands_for_def execution_context_def)
  with assms(2) show "process_memory i (\<lambda>l. readDataWord l off) m = (Inl (segment_error ''data'' off), m)"
    and "process_memory i (\<lambda>l. writeDataWord l off v) m = (Inl (segment_error ''data'' off), m)"
    by (simp_all add: process_memory_def data_out_of_segment)
qed

section \<open>One step of a program\<close>

lemma statements_instruction:
  "statements_ok sec known sts \<Longrightarrow> set known \<union> ds_name ` set (symbols_from a sts) \<subseteq> ds_name ` set ds \<Longrightarrow>
     i \<in> set (instructions_of sts) \<Longrightarrow> instruction_ok i \<and> symbols_known ds i"
proof (induction sts arbitrary: sec known a)
  case (Cons st sts)
  show ?case
  proof (cases st)
    case (Define ty x v)
    with Cons.prems Cons.IH [of sec "x # known" "a + of_nat (dataTypeSize ty)"] show ?thesis by auto
  next
    case (Instruction j)
    with Cons.prems Cons.IH [of sec known a] symbols_knownI [of known j ds] show ?thesis by auto
  next
    case (Enter sec')
    with Cons.prems Cons.IH [of sec' known a] show ?thesis by simp
  next
    case (Label l)
    with Cons.prems Cons.IH [of sec known a] show ?thesis by auto
  qed
qed simp

lemma program_word:
  assumes "program_ok sts" and "i \<in> set (instructions_of sts)"
  shows "instruction_ok i" and "\<exists>w. instruction_word (label_map sts) (symbols_from 0 sts) i = Some w"
proof -
  have s: "statements_ok Section_None [] sts" and l: "labels_ok sts" using assms(1) by (simp_all add: program_ok_def)
  have i: "instruction_ok i \<and> symbols_known (symbols_from 0 sts) i"
    by (rule statements_instruction [OF s _ assms(2), of 0]) simp
  have "set (instruction_labels i) \<subseteq> dom (label_map sts)"
    using l assms(2) by (fastforce simp: labels_ok_def label_map_def list_all_iff dom_map_of_conv_image_fst)
  with i word_exists show "\<exists>w. instruction_word (label_map sts) (symbols_from 0 sts) i = Some w" by fastforce
  from i show "instruction_ok i" by simp
qed

text \<open>The end of every instruction, which counts down the time slice.\<close>

lemma slice_step:
  assumes "at_state sts i a m"
  shows "\<exists>m'. on_process_context i use_time_slice m = (Inr (), m') \<and> at_state sts i a m' \<and>
    vm_out m' = vm_out m \<and> vm_in m' = vm_in m"
proof -
  have "at_state sts i a (on_process i (on_context use_time_slice) m)"
    by (rule at_state_context [OF assms]) (simp add: use_time_slice_def setTimeSliceLeft_def)
  then show ?thesis by (simp add: on_process_context_def vmodify_def frame_simps)
qed

lemma trace_step:
  assumes "at_state sts i a m"
  shows "\<exists>m'. trace_instruction i pc insn m = (Inr (), m') \<and> at_state sts i a m' \<and>
    vm_out m' = vm_out m \<and> vm_in m' = vm_in m \<and> processes m' = processes m"
  using assms
  by (auto simp: trace_instruction_def vmodify_def at_state_def execution_context_def code_loaded_def Let_def
      split: option.split)

lemma plain_step:
  assumes "at_state sts i a m" and "d_opcode insn \<noteq> OP_CALL"
    and "agrees (data_size sts) (r, a') (registry_execute insn (execution_context i m))"
  shows "\<exists>m'. execute_fetched syscalls i insn m = (r, m') \<and> at_state sts i a' m' \<and>
    vm_out m' = vm_out m \<and> vm_in m' = vm_in m"
proof -
  from handler_step [OF assms(1,3)] obtain m1 where m1: "run_handler i insn m = (r, m1)" "at_state sts i a' m1"
    "vm_out m1 = vm_out m" "vm_in m1 = vm_in m" by blast
  from slice_step [OF m1(2)] obtain m2 where m2: "on_process_context i use_time_slice m1 = (Inr (), m2)"
    "at_state sts i a' m2" "vm_out m2 = vm_out m1" "vm_in m2 = vm_in m1" by blast
  from m1 m2 assms(2) show ?thesis
    by (cases r) (auto simp: execute_fetched_def vm_run)
qed

lemma syscall_statement:
  assumes "at_state sts i a m" and "at_console io m" and "sc \<noteq> SYS_Load" and "\<forall>k. sc \<noteq> SYS_unnamed k"
    and "call_statement (data_size sts) sc off (a, io) = (r, a', io')"
  shows "\<exists>q m1 b. handle_syscall cb sc i off m = (q, m1) \<and> at_console io' m1 \<and> at_state sts i b m1 \<and>
    (case r of Inl e \<Rightarrow> q = Inl e \<and> b = a'
     | Inr x \<Rightarrow> q = Inr () \<and> after_call b = a' \<and>
         x = (if sc = SYS_Exit then ER_Halt else if sc = SYS_Yield then ER_Yield else ER_Continue))"
proof (cases sc)
  case SYS_Print
  show ?thesis
  proof (cases "unat off + 4 \<le> data_size sts")
    case True
    note rd = data_read_step [OF assms(1) this]
    show ?thesis
      using assms SYS_Print True rd
      by (auto simp: syscall_print_def vm_run at_console_def intro!: exI [of _ a])
  next
    case False
    with assms SYS_Print data_out_step(1) [OF assms(1) False] show ?thesis
      by (auto simp: syscall_print_def vm_run)
  qed
next
  case SYS_Scan
  obtain v stream where x: "extract_word (io_in io) = (v, stream)" by (metis prod.exhaust)
  let ?m = "m\<lparr>vm_in := stream\<rparr>"
  have s: "at_state sts i a ?m" using assms(1) by simp
  have inp: "vm_in m = io_in io" using assms(2) by (simp add: at_console_def)
  show ?thesis
  proof (cases "is_fail stream \<or> \<not> unat off + 4 \<le> data_size sts")
    case True
    with assms SYS_Scan x inp data_out_step(2) [OF s, of off v] show ?thesis
      by (auto simp: syscall_scan_def vm_run at_console_def Let_def split: if_splits)
  next
    case False
    then obtain m' where m': "process_memory i (\<lambda>l. writeDataWord l off v) ?m = (Inr (), m')"
      "at_state sts i (a\<lparr>as_data := store_word (as_data a) (unat off) v\<rparr>) m'" "vm_out m' = vm_out ?m" "vm_in m' = vm_in ?m"
      using data_write_step [OF s, of off v] by blast
    have "handle_syscall cb sc i off m = (Inr (), m')"
      using False SYS_Scan x inp m'(1) by (simp add: syscall_scan_def vm_run)
    with False assms(2,5) SYS_Scan x m' show ?thesis
      by (auto simp: at_console_def Let_def)
  qed
next
  case SYS_Exit
  let ?f = "\<lambda>p. on_context (setHalted True) (setState Halted p)"
  have "at_state sts i a (on_process i ?f m)"
    by (rule at_state_process [OF assms(1)])
      (use assms(1) stands_for_cpu [of "data_size sts" a "execution_context i m" "setHalted True (p_context (processes m ! i))"]
        in \<open>simp_all add: pcb_defs at_state_def setHalted_def execution_context_def\<close>)
  with assms SYS_Exit show ?thesis
    by (auto simp: syscall_exit_def vmodify_def at_console_def frame_simps)
next
  case SYS_Yield
  have "at_state sts i a (on_process i (on_context (setShouldYield True)) m)"
    by (rule at_state_context [OF assms(1)]) (simp add: setShouldYield_def)
  with assms SYS_Yield show ?thesis
    by (auto simp: syscall_yield_def vmodify_def at_console_def frame_simps)
qed (use assms in simp_all)

text \<open>What a fetched instruction does to a process that is at a state of the program.\<close>

lemma call_step:
  assumes "at_state sts i a m" and "at_console io m" and "program_small sts"
    and "instruction_word (label_map sts) (symbols_from 0 sts) (A_call sc x) = Some w"
    and "instruction_ok (A_call sc x)" and "operands_small (A_call sc x)" and "sc \<noteq> SYS_Load"
    and "call_statement (data_size sts) sc (data_address sts x) (a, io) = (r, a', io')"
  shows "\<exists>m'. execute_fetched (handle_syscall cb) i (decodeInstruction w) m = (r, m') \<and>
    at_state sts i a' m' \<and> at_console io' m'"
proof -
  obtain p where p: "address_value (symbols_from 0 sts) x = Some p" using assms(4) by auto
  have "\<And>v. x = At_number v \<Longrightarrow> 0 \<le> v \<and> v < 2048" using assms(6) by auto
  note q = data_address_small [OF p assms(3) this]
  have named: "\<forall>k. sc \<noteq> SYS_unnamed k" using assms(5) by simp
  then have number: "syscall_of_number (ucast (ucast (syscall_number sc) :: u8)) = sc"
    "(ucast (syscall_number sc) :: u8) < 16"
    by (cases sc; simp add: syscall_of_number_def)+
  let ?d = "decodeInstruction w"
  have w: "w = encodeInstruction OP_CALL 0 (ucast (syscall_number sc)) 0 (ucast p)" using assms(4) p by simp
  have d: "d_opcode ?d = OP_CALL" "d_rs1 ?d = ucast (syscall_number sc)" "ucast (d_imm ?d) = p"
    using number(2) immediate_address(2) [OF q(2)] by (simp_all add: w decode_parts)
  have sc: "syscall_of_number (ucast (d_rs1 ?d)) = sc" by (simp only: d(2) number(1))
  from syscall_statement [OF assms(1,2,7) named assms(8), of cb] q(1) obtain y m1 b where
    y: "handle_syscall cb sc i p m = (y, m1)" "at_console io' m1" "at_state sts i b m1"
    and out: "case r of Inl e \<Rightarrow> y = Inl e \<and> b = a'
      | Inr x \<Rightarrow> y = Inr () \<and> after_call b = a' \<and>
          x = (if sc = SYS_Exit then ER_Halt else if sc = SYS_Yield then ER_Yield else ER_Continue)"
    by blast
  show ?thesis
  proof (cases r)
    case (Inl e)
    with y out d(1,3) sc show ?thesis
      by (auto simp: execute_fetched_def execute_call_def vm_run Let_def)
  next
    case (Inr v)
    let ?m2 = "on_process i (on_context advance_context) m1"
    have y': "y = Inr ()" "after_call b = a'"
      "v = (if sc = SYS_Exit then ER_Halt else if sc = SYS_Yield then ER_Yield else ER_Continue)"
      using out Inr by simp_all
    have s2: "at_state sts i a' ?m2" using at_state_advance [OF y(3)] y'(2) by simp
    have io2: "at_console io' ?m2" using y(2) by (simp add: at_console_def frame_simps)
    from slice_step [OF s2] obtain m3 where m3: "on_process_context i use_time_slice ?m2 = (Inr (), m3)"
      "at_state sts i a' m3" "vm_out m3 = vm_out ?m2" "vm_in m3 = vm_in ?m2" by blast
    have run: "execute_fetched (handle_syscall cb) i ?d m =
        (if sc = SYS_Exit then (Inr ER_Halt, ?m2) else if sc = SYS_Yield then (Inr ER_Yield, ?m2) else (Inr ER_Continue, m3))"
      using y(1) y'(1) d(1,3) sc m3(1)
      by (simp add: execute_fetched_def execute_call_def vm_run Let_def on_process_context_def [of i advance_context])
    from io2 m3(3,4) have "at_console io' m3" by (simp add: at_console_def)
    with run s2 io2 m3(2) y'(3) Inr show ?thesis by auto
  qed
qed

lemma program_step:
  assumes "at_state sts i a m" and "at_console io m" and "program_ok sts" and "program_small sts"
    and "assembly_step sts (a, io) = Some (r, a', io')"
  shows "\<exists>m'. executeInstruction (handle_syscall cb) i m = (r, m') \<and> at_state sts i a' m' \<and> at_console io' m'"
proof -
  let ?n = "unat (as_pc a)"
  have n: "?n < length (instructions_of sts)"
    using assms(5) by (simp add: assembly_step_def split: if_splits)
  let ?i = "instructions_of sts ! ?n"
  have mem: "?i \<in> set (instructions_of sts)" using n by simp
  from program_word [OF assms(3) mem] obtain w where
    ok: "instruction_ok ?i" and w: "instruction_word (label_map sts) (symbols_from 0 sts) ?i = Some w" by blast
  have small: "operands_small ?i" using assms(4) mem by (simp add: program_small_def list_all_iff)
  have "reference_code sts ! ?n = w" using w by (simp add: reference_code_nth [OF n])
  with at_state_fetched [OF assms(1) n] have f: "fetched i m = Some (decodeInstruction w)" by simp
  obtain m1 where m1: "trace_instruction i (rf_pc (registers_of i m)) (decodeInstruction w) m = (Inr (), m1)"
    "at_state sts i a m1" "vm_out m1 = vm_out m" "vm_in m1 = vm_in m"
    using trace_step [OF assms(1)] by blast
  have io1: "at_console io m1" using assms(2) m1(3,4) by (simp add: at_console_def)
  have run: "executeInstruction (handle_syscall cb) i m = execute_fetched (handle_syscall cb) i (decodeInstruction w) m1"
    using executeInstruction_fetched(1) [OF f, of "handle_syscall cb"] m1(1) by (simp add: vm_run)
  show ?thesis
  proof (cases "\<exists>sc x. ?i = A_call sc x")
    case True
    then obtain sc x where i: "?i = A_call sc x" by blast
    with assms(5) n have sc: "sc \<noteq> SYS_Load"
      and c: "call_statement (data_size sts) sc (data_address sts x) (a, io) = (r, a', io')"
      by (simp_all add: assembly_step_def split: if_splits)
    from call_step [OF m1(2) io1 assms(4) w [unfolded i] ok [unfolded i] small [unfolded i] sc c] run
    show ?thesis by simp
  next
    case False
    then have plain: "\<And>sc x. ?i \<noteq> A_call sc x" by blast
    have x: "execute_statement sts ?i a = (r, a')" "io' = io"
      using assms(5) n plain by (auto simp: assembly_step_def split: instruction.splits prod.splits)
    have "stands_for (data_size sts) a (execution_context i m1)" using m1(2) by (simp add: at_state_def)
    from statement_simulated [OF this assms(4) w ok small plain]
    have g: "agrees (data_size sts) (r, a') (registry_execute (decodeInstruction w) (execution_context i m1))"
      by (simp add: x)
    have "d_opcode (decodeInstruction w) \<noteq> OP_CALL"
      using w ok plain by (cases ?i) (auto simp: decode_parts opcode_group_named jump_opcodes_def
          unary_opcodes_def binary_opcodes_def)
    from plain_step [OF m1(2) this g] run io1 x(2) show ?thesis by (auto simp: at_console_def)
  qed
qed

section \<open>Stepping a program through the machine\<close>

lemma findProcess_frame:
  assumes "findProcess pid m = Some i" and "machine_frame i m m'"
  shows "findProcess pid m' = Some i"
proof -
  from assms(1) have f: "i < length (processes m)" "p_id (processes m ! i) = pid"
    "\<forall>j < i. p_id (processes m ! j) \<noteq> pid"
    by (simp_all add: findProcess_def find_process_def first_index_Some processes_def)
  with assms(2) have "i < length (processes m')" "p_id (processes m' ! i) = pid"
    "\<forall>j < i. p_id (processes m' ! j) \<noteq> pid"
    by (auto simp: machine_frame_def)
  then show ?thesis by (simp add: findProcess_def find_process_def first_index_Some processes_def)
qed

lemma stepProcess_program:
  assumes "at_state sts i a m" and "at_console io m" and "program_ok sts" and "program_small sts"
    and "assembly_step sts (a, io) = Some (r, a', io')" and "findProcess pid m = Some i"
  shows "\<exists>m'. stepProcess fs pid m = (r, m') \<and> at_state sts i a' m' \<and> at_console io' m' \<and> findProcess pid m' = Some i"
proof -
  let ?m = "on_process i (setState Running) m"
  have s: "at_state sts i a ?m"
    by (rule at_state_process [OF assms(1)])
      (use assms(1) in \<open>simp_all add: pcb_defs at_state_def, simp add: execution_context_def\<close>)
  have io: "at_console io ?m" using assms(2) by (simp add: at_console_def frame_simps)
  from program_step [OF s io assms(3-5), of "Some (loadProgram fs)"] obtain m' where
    m': "executeInstruction (os_syscalls fs) i ?m = (r, m')" "at_state sts i a' m'" "at_console io' m'"
    by (auto simp: os_syscalls_def)
  have "machine_frame i m ?m" by (rule frame_on_process) (simp_all add: pcb_defs)
  moreover have "machine_frame i ?m m'" using os.executeInstruction_frame m'(1) by (rule respectsD)
  ultimately have "machine_frame i m m'" by (rule machine_fr.frame_trans)
  from findProcess_frame [OF assms(6) this] m' assms(6) show ?thesis
    by (simp add: stepProcess_def runSingleStep_def vm_run)
qed

lemma step_loop_program:
  assumes "at_state sts i a m" and "at_console io m" and "program_ok sts" and "program_small sts"
    and "assembly_run sts n result (a, io) = Some (r, a', io')" and "findProcess pid m = Some i"
  shows "\<exists>m'. step_loop fs pid n result m = (r, m') \<and> at_state sts i a' m' \<and> at_console io' m' \<and> findProcess pid m' = Some i"
  using assms(1,2,5,6)
proof (induction n arbitrary: a io m result)
  case 0
  then show ?case by (simp add: vm_run)
next
  case (Suc n)
  from Suc.prems(3) obtain q b io1 where st: "assembly_step sts (a, io) = Some (q, b, io1)"
    by (cases "assembly_step sts (a, io)") auto
  from stepProcess_program [OF Suc.prems(1,2) assms(3,4) st Suc.prems(4)] obtain m1 where
    m1: "stepProcess fs pid m = (q, m1)" "at_state sts i b m1" "at_console io1 m1" "findProcess pid m1 = Some i" by blast
  show ?case
  proof (cases q)
    case (Inl e)
    with Suc.prems(3) st m1 show ?thesis by (auto simp: vm_run)
  next
    case (Inr x)
    show ?thesis
    proof (cases "x = ER_Halt \<or> x = ER_Error")
      case True
      with Suc.prems(3) st m1 Inr show ?thesis by (auto simp: vm_run)
    next
      case False
      with Suc.prems(3) st Inr have "assembly_run sts n x (b, io1) = Some (r, a', io')" by simp
      from Suc.IH [OF m1(2,3) this m1(4)] m1(1) Inr False show ?thesis by (simp add: vm_run)
    qed
  qed
qed

lemma at_state_register:
  assumes "at_state sts i a m" and "findProcess pid m = Some i" and "k < 16"
  shows "getRegister pid k m = (Inr (as_reg k a), m)"
  using assms
  by (simp add: getRegister_def vread_def reg_get_ok at_state_def stands_for_def execution_context_def
      ec_registers_def registers_of_def as_reg_def)

lemma at_state_byte:
  assumes "at_state sts i a m" and "j < data_size sts" and "data_size sts < 2 ^ 32"
  shows "process_memory i (\<lambda>l. readDataByte l (of_nat j)) m = (Inr (as_data a j), m)"
proof -
  have "unat (of_nat j :: Address) = j" using assms(2,3) by (simp add: unsigned_of_nat take_bit_nat_eq_self)
  moreover have "unat (ml_dataSize (p_memory (processes m ! i))) = data_size sts"
    "pm_memory (vm_phys m) (data_start (p_memory (processes m ! i)) + j) = as_data a j"
    using assms(1,2) by (simp_all add: at_state_def stands_for_def execution_context_def)
  ultimately show ?thesis
    using data_byte_access(1) [OF at_state_layout [OF assms(1)], of "of_nat j"] assms(2)
    by (simp add: process_memory_def)
qed

section \<open>Loading a program\<close>

definition data_image :: "statement list \<Rightarrow> u8 list" where
  "data_image sts = concat (map symbol_bytes (symbols_from 0 sts))"

definition initial_state :: "statement list \<Rightarrow> Word \<Rightarrow> assembly_state" where
  "initial_state sts w =
    \<lparr>as_registers = replicate kRegisterCount 0,
     as_flags = \<lparr>fl_zero = False, fl_sign = False, fl_carry = False, fl_overflow = False\<rparr>,
     as_pc = 0, as_stack = [w],
     as_data = (\<lambda>j. if j < data_size sts then data_image sts ! j else 0), as_error = None\<rparr>"

lemma length_symbol_bytes: "length (concat (map symbol_bytes (symbols_from a sts))) = data_size sts"
proof (induction sts arbitrary: a)
  case (Cons st sts)
  then show ?case by (cases st) (simp_all add: symbol_bytes_def)
qed simp

lemma length_data_image [simp]: "length (data_image sts) = data_size sts"
  by (simp add: data_image_def length_symbol_bytes)

lemma reference_fields [simp]: "ap_data (reference_program sts) = data_image sts" "ap_code (reference_program sts) = reference_code sts"
  by (simp_all add: reference_program_def data_image_def)

text \<open>What lies at the top of the stack of a process that is loaded now.\<close>

definition stale_word :: "statement list \<Rightarrow> machine \<Rightarrow> Word" where
  "stale_word sts m = load_word (pm_memory (vm_phys m))
    (unat (nextFreeAddress (vm_phys m)) + (4 * length (instructions_of sts) + data_size sts + 4092))"

lemma small_program_fits:
  assumes "program_small sts" and "unat (nextFreeAddress pm) + 65536 \<le> unat (pm_size pm)" and "unat (pm_size pm) < 2 ^ 32"
  shows "image_fits_memory (reference_program sts) pm" and "program_fits (reference_program sts)"
  using assms by (simp_all add: image_fits_memory_def program_fits_def program_small_def)

lemma loaded_at_state:
  assumes "program_small sts" and "load_image (reference_program sts) (vm_phys m) = (Inr l, pm)"
    and "unat (nextFreeAddress (vm_phys m)) + 65536 \<le> unat (pm_size (vm_phys m))" and "unat (pm_size (vm_phys m)) < 2 ^ 32"
    and "vm_phys m' = pm" and "processes m' ! i = new_process pid name l q" and "i < length (processes m')"
  shows "at_state sts i (initial_state sts (stale_word sts m)) m'"
proof -
  let ?p = "reference_program sts" and ?pm = "vm_phys m"
  note fits = small_program_fits [OF assms(1,3,4)]
  from load_image_ok [OF fits(1)] assms(2) have l: "l = load_layout (nextFreeAddress ?pm) ?p"
    and code: "\<And>k. k < length (reference_code sts) \<Longrightarrow> readCodeWord l (of_nat k) pm = (Inr (reference_code sts ! k), pm)"
    and data: "\<And>k. k < data_size sts \<Longrightarrow> readDataByte l (of_nat k) pm = (Inr (ap_data ?p ! k), pm)"
    and rest: "\<And>j. unat (nextFreeAddress ?pm) + (4 * length (instructions_of sts) + data_size sts) \<le> j \<Longrightarrow> pm_memory pm j = pm_memory ?pm j"
    and sz: "pm_size pm = pm_size ?pm"
    by auto
  have ok: "layout_ok (pm_size pm) l" using load_layout_ok [OF fits] sz l by simp
  have "4 * length (ap_code ?p) + length (ap_data ?p) < 2 ^ 32" using assms(1) by (simp add: program_small_def)
  note f = load_layout_fields [OF this, of "nextFreeAddress ?pm", folded l]
  have starts: "code_start l = unat (nextFreeAddress ?pm)" "data_start l = code_start l + 4 * length (reference_code sts)"
    "stack_end l = unat (nextFreeAddress ?pm) + (4 * length (instructions_of sts) + data_size sts + 4096)"
    using f by (simp_all add: code_start_def data_start_def stack_end_def stack_start_def)
  have small: "length (instructions_of sts) < 2048" "data_size sts \<le> 2048" using assms(1) by (simp_all add: program_small_def)
  note lb = layout_bounds [OF ok]
  have words: "load_word (pm_memory pm) (code_start l + 4 * k) = reference_code sts ! k" if "k < length (instructions_of sts)" for k
  proof -
    have k: "unat (of_nat k :: Address) = k" using that small by (simp add: unsigned_of_nat take_bit_nat_eq_self)
    have "code_start l + 4 * k + 4 \<le> unat (pm_size pm)" using that starts lb by (simp add: stack_end_def)
    moreover from this lb have "unat (codeWordAddress l (of_nat k)) = code_start l + 4 * k"
      using codeWordAddress_eq [OF ok, of "of_nat k"] k by simp
    ultimately show ?thesis using code [of k] that by (simp add: readCodeWord_def phys_reads in_range_def)
  qed
  have bytes: "pm_memory pm (data_start l + k) = ap_data ?p ! k" if "k < data_size sts" for k
  proof -
    have "unat (of_nat k :: Address) = k" using that small by (simp add: unsigned_of_nat take_bit_nat_eq_self)
    then show ?thesis using data [OF that] data_byte_access(1) [OF ok, of "of_nat k"] that f by simp
  qed
  have stk: "stack_inv l (pm, initial_sp l)" "stack_contents l (pm, initial_sp l) = [load_word (pm_memory pm) (stack_end l - 4)]"
    using new_process_stack [OF ok, of pid name q] f by (simp_all add: frame_simps)
  have "load_word (pm_memory pm) (stack_end l - 4) = stale_word sts m"
    unfolding stale_word_def starts
    by (rule load_word_shift) (use rest in \<open>simp add: algebra_simps\<close>)
  with stk bytes f have "stands_for (data_size sts) (initial_state sts (stale_word sts m)) (execution_context i m')"
    using assms(5,6)
    by (simp add: stands_for_def execution_context_def ec_registers_def ctx_stack_def initial_state_def frame_simps)
  with words starts assms(5-7) show ?thesis
    by (simp add: at_state_def code_loaded_def frame_simps)
qed

section \<open>Properties\<close>

text \<open>C3: A program does on the machine what its statements say. For every source whose tokens are those of
  a program with all names declared and within reach of the immediates, in whatever layout it is
  written: it is assembled and loaded, and however many steps are executed, the result, the output,
  every register and every byte of its data are those of the semantics of the assembly language -
  errors and exceptions included.\<close>

theorem program_runs_as_written:
  assumes "lexemes (Lexer source) = Inr (program_lexemes k lines)"
    and "program_ok (map fst lines)" and "program_small (map fst lines)"
    and "machine_ok m" and "unat (nextFreeAddress (vm_phys m)) + 65536 \<le> unat (pm_size (vm_phys m))"
    and "assembly_run (map fst lines) n ER_Continue
      (initial_state (map fst lines) (stale_word (map fst lines) m), \<lparr>io_out = vm_out m, io_in = vm_in m\<rparr>)
      = Some (r, a, io)" and "n < 2 ^ 64"
  shows "\<exists>pid m1 m2. loadProgramFromSource source name m = (Inr pid, m1) \<and>
    vm_step fs pid (of_nat n) m1 = (r, m2) \<and> vm_out m2 = io_out io \<and> vm_in m2 = io_in io \<and>
    (\<forall>reg < 16. getRegister pid reg m2 = (Inr (as_reg reg a), m2)) \<and>
    (\<forall>j < data_size (map fst lines). process_memory (length (processes m)) (\<lambda>l. readDataByte l (of_nat j)) m2 =
      (Inr (as_data a j), m2))"
proof -
  let ?sts = "map fst lines" and ?i = "length (processes m)"
  have small: "unat (pm_size (vm_phys m)) < 2 ^ 32" using assms(4) by (simp add: machine_ok_def)
  note fits = small_program_fits [OF assms(3,5) small]
  have asm: "assemble source = Inr (reference_program ?sts)" using assms(1,2) by (rule assemble_reference)
  from load_image_ok [OF fits(1)] obtain l pm where img: "load_image (reference_program ?sts) (vm_phys m) = (Inr l, pm)" by blast
  from loadProgramFromSource_runs [OF asm img] obtain pid m1 where
    ld: "loadProgramFromSource source name m = (Inr pid, m1)" by blast
  from loadProgramFromSource_ok [OF ld] asm img have
    m1: "vm_phys m1 = pm" "processes m1 = processes m @ [new_process pid name l (sch_quantum (vm_sched m))]"
      "vm_out m1 = vm_out m" "vm_in m1 = vm_in m" by auto
  have "Suc ?i < 2 ^ 32 - 1" using machine_ok_small [OF assms(4)] by simp
  with load_registers [OF ld] assms(4) have found: "findProcess pid m1 = Some ?i"
    by (simp add: machine_ok_def sched_inv_def)
  have at: "at_state ?sts ?i (initial_state ?sts (stale_word ?sts m)) m1"
    by (rule loaded_at_state [OF assms(3) img assms(5) small]) (simp_all add: m1)
  have io: "at_console \<lparr>io_out = vm_out m, io_in = vm_in m\<rparr> m1" by (simp add: at_console_def m1)
  from step_loop_program [OF at io assms(2,3,6) found, of fs] obtain m2 where
    m2: "step_loop fs pid n ER_Continue m1 = (r, m2)" "at_state ?sts ?i a m2" "at_console io m2" "findProcess pid m2 = Some ?i"
    by blast
  have "unat (of_nat n :: size_t) = n" using assms(7) by (simp add: unsigned_of_nat take_bit_nat_eq_self)
  then have "vm_step fs pid (of_nat n) m1 = (r, m2)" using m2(1) by (simp add: vm_step_def)
  moreover have "vm_out m2 = io_out io" "vm_in m2 = io_in io" using m2(3) by (simp_all add: at_console_def)
  moreover have "\<forall>reg < 16. getRegister pid reg m2 = (Inr (as_reg reg a), m2)"
    using at_state_register [OF m2(2,4)] by blast
  moreover have "process_memory ?i (\<lambda>l. readDataByte l (of_nat j)) m2 = (Inr (as_data a j), m2)" if "j < data_size ?sts" for j
    using at_state_byte [OF m2(2) that] assms(3) by (simp add: program_small_def)
  ultimately show ?thesis using ld by blast
qed


section \<open>Witnesses\<close>

text \<open>A program with a loop, two data words and output.\<close>

definition sum_source :: string where
  "sum_source = ''# the sum of the numbers up to n
DATA:
  WORD n 5
  WORD sum 0
CODE:
  mov r1, [n]
again: cmp r1, 0
  je done
  add r2, r1   # r2 is the sum so far
  dec r1
  jmp again
done: store r2, [sum]
  call print, [sum]
  halt
''"

definition sum_lines :: "line list" where
  "sum_lines =
    [(Enter Section_Data, 1), (Define DT_Word ''n'' 5, 1), (Define DT_Word ''sum'' 0, 1), (Enter Section_Code, 1),
     (Instruction (A_mov_symbol 1 ''n''), 1), (Label ''again'', 0), (Instruction (A_immediate OP_CMP 1 0), 1),
     (Instruction (A_jump OP_JE ''done''), 1), (Instruction (A_registers OP_ADD 2 1), 1),
     (Instruction (A_unary OP_DEC 1), 1), (Instruction (A_jump OP_JMP ''again''), 1), (Label ''done'', 0),
     (Instruction (A_memory OP_STORE 2 (At_symbol ''sum'')), 1), (Instruction (A_call SYS_Print (At_symbol ''sum'')), 1),
     (Instruction A_halt, 1)]"

lemma sum_lexemes: "lexemes (Lexer sum_source) = Inr (program_lexemes 1 sum_lines)"
  unfolding lexemes_source by code_simp

lemma sum_ok: "program_ok (map fst sum_lines)" "program_small (map fst sum_lines)"
proof -
  show "program_ok (map fst sum_lines)"
    by (simp add: program_ok_def sum_lines_def labels_ok_def number_ok_def binary_opcodes_def
        unary_opcodes_def jump_opcodes_def)
  show "program_small (map fst sum_lines)"
    by (simp add: program_small_def sum_lines_def)
qed

definition summary :: "program_result \<Rightarrow> (vm_exception + execution_result) \<times> string \<times> Word" where
  "summary = (\<lambda>(r, a, io). (r, io_out io, as_reg 2 a))"

lemma sum_run:
  "map_option summary (assembly_run (map fst sum_lines) 40 ER_Continue
     (initial_state (map fst sum_lines) 0, \<lparr>io_out = [], io_in = \<lparr>is_rest = [], is_fail = False\<rparr>\<rparr>)) =
   Some (Inr ER_Halt, ''15'' @ [newline], 15)"
  by code_simp
theorem program_runs_as_written_witness:
  "\<exists>pid m1 m2. loadProgramFromSource sum_source ''sum'' (VirtualOS 100 \<lparr>is_rest = [], is_fail = False\<rparr>) = (Inr pid, m1) \<and>
     vm_step (\<lambda>_. None) pid 40 m1 = (Inr ER_Halt, m2) \<and> vm_out m2 = ''15'' @ [newline] \<and>
     getRegister pid 2 m2 = (Inr 15, m2)"
proof -
  let ?m = "VirtualOS 100 \<lparr>is_rest = [], is_fail = False\<rparr>" and ?sts = "map fst sum_lines"
  have m: "vm_phys ?m = PhysicalMemory 1048576" "vm_out ?m = []" "vm_in ?m = \<lparr>is_rest = [], is_fail = False\<rparr>"
    by (simp_all add: VirtualOS_def)
  then have "stale_word ?sts ?m = 0" by (simp add: stale_word_def PhysicalMemory_def load_word_bytes)
  with m sum_run obtain r a io where
    run: "assembly_run ?sts 40 ER_Continue (initial_state ?sts (stale_word ?sts ?m), \<lparr>io_out = vm_out ?m, io_in = vm_in ?m\<rparr>)
      = Some (r, a, io)" and sum: "r = Inr ER_Halt" "io_out io = ''15'' @ [newline]" "as_reg 2 a = 15"
    by (auto simp: summary_def)
  have "unat (nextFreeAddress (vm_phys ?m)) + 65536 \<le> unat (pm_size (vm_phys ?m))"
    by (simp add: m PhysicalMemory_def)
  from program_runs_as_written [OF sum_lexemes sum_ok empty_machine_ok(1) this run, of "''sum''" "\<lambda>_. None"] sum
  obtain pid m1 m2 where "loadProgramFromSource sum_source ''sum'' ?m = (Inr pid, m1)"
    "vm_step (\<lambda>_. None) pid 40 m1 = (Inr ER_Halt, m2)" "vm_out m2 = ''15'' @ [newline]"
    "\<forall>reg < 16. getRegister pid reg m2 = (Inr (as_reg reg a), m2)" by auto
  moreover from this(4) have "getRegister pid 2 m2 = (Inr (as_reg 2 a), m2)" by simp
  ultimately show ?thesis using sum(3) by metis
qed

end
