(* ===== verification/System_Execution.thy ===== *)
theory System_Execution
  imports Core_Turn Program_Execution
begin

text \<open>
  The whole machine against its abstract specification: programs that execute their statements one
  at a time, in any order, on one console. Every execution of the cores and of the main thread - with
  its scheduling, preemption, context switches, wake-ups and shutdown - does to the registers, the
  stacks, the data and the console what some interleaving of the programs does, as long as no program
  leaves its own code or loads another.
\<close>

section \<open>The abstract machine\<close>

text \<open>The programs with their states, and whether each still runs; the console; an uncaught exception.\<close>

record execution =
  ex_states :: "(assembly_state \<times> bool) list"
  ex_console :: console
  ex_exception :: "vm_exception option"

inductive programs_step :: "statement list list \<Rightarrow> execution \<Rightarrow> execution \<Rightarrow> bool" for P where
  program_goes_on: "programs_step P e
     (e\<lparr>ex_states := (ex_states e)[k := (a', r \<noteq> ER_Halt \<and> r \<noteq> ER_Error)], ex_console := io'\<rparr>)"
    if "ex_exception e = None" and "k < length P" and "ex_states e ! k = (a, True)"
      and "assembly_step (P ! k) (a, ex_console e) = Some (Inr r, a', io')"
| program_throws: "programs_step P e
     (e\<lparr>ex_states := (ex_states e)[k := (a', True)], ex_console := io', ex_exception := Some x\<rparr>)"
    if "ex_exception e = None" and "k < length P" and "ex_states e ! k = (a, True)"
      and "assembly_step (P ! k) (a, ex_console e) = Some (Inl x, a', io')"

inductive_cases programs_stepE: "programs_step P e e'"

text \<open>A program is about to leave what its statements determine.\<close>

definition leaves_programs :: "statement list list \<Rightarrow> execution \<Rightarrow> bool" where
  "leaves_programs P e \<longleftrightarrow> ex_exception e = None \<and> (\<exists>k < length P. snd (ex_states e ! k) \<and>
     assembly_step (P ! k) (fst (ex_states e ! k), ex_console e) = None)"

definition initial_execution :: "statement list list \<Rightarrow> input_stream \<Rightarrow> execution" where
  "initial_execution P input =
    \<lparr>ex_states = map (\<lambda>sts. (initial_state sts 0, True)) P, ex_console = \<lparr>io_out = [], io_in = input\<rparr>,
     ex_exception = None\<rparr>"

section \<open>Simulation\<close>

text \<open>
  A concrete step is matched by abstract ones, or the abstract state is one where the specification
  gives up; hence the same for executions.
\<close>

locale simulation_until =
  fixes concrete :: "'c \<Rightarrow> 'c \<Rightarrow> bool" and abstract :: "'a \<Rightarrow> 'a \<Rightarrow> bool"
    and matches :: "'a \<Rightarrow> 'c \<Rightarrow> bool" and gives_up :: "'a \<Rightarrow> bool"
  assumes step_matched: "matches a c \<Longrightarrow> concrete c c' \<Longrightarrow>
    gives_up a \<or> (\<exists>a'. abstract\<^sup>*\<^sup>* a a' \<and> matches a' c')"
begin

lemma execution_matched:
  assumes "concrete\<^sup>*\<^sup>* c c'" and "matches a c"
  shows "\<exists>a'. abstract\<^sup>*\<^sup>* a a' \<and> (gives_up a' \<or> matches a' c')"
  using assms(1)
proof (induction rule: rtranclp_induct)
  case base
  show ?case using assms(2) by blast
next
  case (step d c')
  from step.IH obtain b where b: "abstract\<^sup>*\<^sup>* a b" "gives_up b \<or> matches b d" by blast
  show ?case
  proof (cases "gives_up b")
    case True
    with b show ?thesis by blast
  next
    case False
    with b step.hyps(2) step_matched obtain b' where
      "gives_up b \<or> abstract\<^sup>*\<^sup>* b b' \<and> matches b' c'" by blast
    with b False show ?thesis by (blast intro: rtranclp_trans)
  qed
qed

end

section \<open>Other processes\<close>

text \<open>A process stays where its program is when its registers, its region and its error stay.\<close>

lemma at_state_other:
  assumes "at_state sts k a m" and "k < length (processes m')"
    and "same_program (processes m ! k) (processes m' ! k)" and "pm_size (vm_phys m') = pm_size (vm_phys m)"
    and "\<And>j. in_region (p_memory (processes m ! k)) j \<Longrightarrow> pm_memory (vm_phys m') j = pm_memory (vm_phys m) j"
  shows "at_state sts k a m'"
proof -
  let ?l = "p_memory (processes m ! k)" and ?c = "execution_context k m" and ?c' = "execution_context k m'"
  note lb = layout_bounds [OF at_state_layout [OF assms(1)]]
  have l: "p_memory (processes m' ! k) = ?l" using assms(3) by (simp add: same_program_def)
  have bytes: "pm_memory (vm_phys m') j = pm_memory (vm_phys m) j" if "code_start ?l \<le> j" "j < stack_end ?l" for j
    using that lb assms(5) by (simp add: in_region_def)
  have parts: "stands_for (data_size sts) a ?c" "code_loaded sts k m" using assms(1) by (simp_all add: at_state_def)
  have regs: "ec_registers ?c' = ec_registers ?c" "ec_memory ?c' = ?l" "ec_phys ?c' = vm_phys m'"
    "ec_memory ?c = ?l" "ec_phys ?c = vm_phys m" "ec_process ?c' = ec_process ?c"
    using assms(3) l by (simp_all add: execution_context_def ec_registers_def same_program_def)
  let ?sp = "rf_sp (ec_registers ?c)"
  have inv: "stack_inv ?l (vm_phys m, ?sp)" using parts(1) regs by (simp add: stands_for_def ctx_stack_def)
  then have sp: "code_start ?l \<le> unat ?sp" using lb by (simp add: stack_inv_def)
  have "stack_inv ?l (vm_phys m', ?sp)" using inv assms(4) by (simp add: stack_inv_def)
  moreover have "stack_contents ?l (vm_phys m', ?sp) = stack_contents ?l (vm_phys m, ?sp)"
    by (rule stack_contents_cong) (use bytes sp in simp)
  moreover have "pm_memory (vm_phys m') (data_start ?l + j) = pm_memory (vm_phys m) (data_start ?l + j)"
    if "j < data_size sts" for j
  proof -
    have "data_size sts = unat (ml_dataSize ?l)" using parts(1) regs by (simp add: stands_for_def)
    then show ?thesis using that lb by (intro bytes) (simp_all add: stack_end_def)
  qed
  ultimately have "stands_for (data_size sts) a ?c'"
    using parts(1) regs by (simp add: stands_for_def ctx_stack_def)
  moreover have "code_loaded sts k m'"
  proof -
    have "load_word (pm_memory (vm_phys m')) (code_start ?l + 4 * n) = load_word (pm_memory (vm_phys m)) (code_start ?l + 4 * n)"
      if "n < length (instructions_of sts)" for n
    proof (rule load_word_cong)
      fix i :: nat
      assume "i < 4"
      moreover have "code_start ?l + 4 * length (instructions_of sts) \<le> data_start ?l"
        using parts(2) by (simp add: code_loaded_def Let_def)
      ultimately show "pm_memory (vm_phys m') (code_start ?l + 4 * n + i) = pm_memory (vm_phys m) (code_start ?l + 4 * n + i)"
        using that lb by (intro bytes) (simp_all add: stack_end_def)
    qed
    with parts(2) l show ?thesis by (simp add: code_loaded_def Let_def)
  qed
  ultimately show ?thesis using assms(2) by (simp add: at_state_def)
qed

lemma quiet_nth:
  assumes "quiet m m'" and "k < length (processes m)"
  shows "k < length (processes m')" and "same_program (processes m ! k) (processes m' ! k)"
  using assms list_all2_lengthD [of same_program "processes m" "processes m'"]
    list_all2_nthD [of same_program "processes m" "processes m'" k]
  by (simp_all add: quiet_def)

lemma at_state_quiet:
  assumes "at_state sts k a m" and "quiet m m'"
  shows "at_state sts k a m'"
proof -
  have "k < length (processes m)" using assms(1) by (simp add: at_state_def)
  from quiet_nth [OF assms(2) this] show ?thesis
    by (rule at_state_other [OF assms(1)]) (use assms(2) in \<open>simp_all add: quiet_def\<close>)
qed

lemma at_state_reg:
  assumes "at_state sts k a m" and "i < 16"
  shows "reg_get (registers_of k m) i = Inr (as_reg i a)"
  using assms
  by (simp add: reg_get_ok at_state_def stands_for_def execution_context_def ec_registers_def registers_of_def as_reg_def)

text \<open>The next instruction of a program is no call of \<^verbatim>\<open>load\<close> unless the program says so.\<close>

lemma program_no_load:
  assumes "at_state sts i a m" and "program_ok sts" and "assembly_step sts (a, io) = Some result" and "fetched i m = Some insn"
  shows "\<not> is_load_call insn"
proof -
  let ?n = "unat (as_pc a)"
  have n: "?n < length (instructions_of sts)" using assms(3) by (auto simp: assembly_step_def split: if_splits)
  let ?i = "instructions_of sts ! ?n"
  have mem: "?i \<in> set (instructions_of sts)" using n by simp
  from program_word [OF assms(2) mem] obtain w where
    ok: "instruction_ok ?i" and w: "instruction_word (label_map sts) (symbols_from 0 sts) ?i = Some w" by blast
  have "reference_code sts ! ?n = w" using w by (simp add: reference_code_nth [OF n])
  with at_state_fetched [OF assms(1) n] assms(4) have insn: "insn = decodeInstruction w" by simp
  show ?thesis
  proof (cases "\<exists>sc x. ?i = A_call sc x")
    case True
    then obtain sc x where i: "?i = A_call sc x" by blast
    with assms(3) n have "sc \<noteq> SYS_Load" by (auto simp: assembly_step_def split: if_splits)
    have named: "\<forall>k. sc \<noteq> SYS_unnamed k" using ok i by simp
    then have number: "syscall_of_number (ucast (ucast (syscall_number sc) :: u8)) = sc"
      "(ucast (syscall_number sc) :: u8) < 16"
      by (cases sc; simp add: syscall_of_number_def)+
    obtain p where "address_value (symbols_from 0 sts) x = Some p" using w i by auto
    then have "w = encodeInstruction OP_CALL 0 (ucast (syscall_number sc)) 0 (ucast p)" using w i by simp
    then have "d_rs1 insn = ucast (syscall_number sc)" using number(2) by (simp add: insn decode_parts)
    with number(1) \<open>sc \<noteq> SYS_Load\<close> show ?thesis by (simp only: is_load_call_def) simp
  next
    case False
    then have "d_opcode (decodeInstruction w) \<noteq> OP_CALL"
      using w ok by (cases ?i) (auto simp: decode_parts opcode_group_named jump_opcodes_def
          unary_opcodes_def binary_opcodes_def)
    then show ?thesis by (simp add: is_load_call_def insn)
  qed
qed

section \<open>Programs on the machine\<close>

definition programs_at :: "statement list list \<Rightarrow> execution \<Rightarrow> machine \<Rightarrow> bool" where
  "programs_at P e m \<longleftrightarrow> regions_ok m \<and> length (processes m) = length P \<and> length (ex_states e) = length P \<and>
    at_console (ex_console e) m \<and> (\<forall>k < length P. at_state (P ! k) k (fst (ex_states e ! k)) m)"

definition programs_ok :: "statement list list \<Rightarrow> bool" where
  "programs_ok P \<longleftrightarrow> list_all (\<lambda>sts. program_ok sts \<and> program_small sts) P"

lemma programs_ok_nth: "programs_ok P \<Longrightarrow> k < length P \<Longrightarrow> program_ok (P ! k) \<and> program_small (P ! k)"
  by (simp add: programs_ok_def list_all_length)

lemma programs_at_quiet:
  assumes "programs_at P e m" and "quiet m m'"
  shows "programs_at P e m'"
proof -
  have "length (processes m') = length (processes m)" "regions_ok m'" "at_console (ex_console e) m'"
    using assms keeps_types_quiet [OF assms(2)]
    by (auto simp: quiet_def programs_at_def keeps_types_def at_console_def list_all2_lengthD)
  moreover have "at_state (P ! k) k (fst (ex_states e ! k)) m'" if "k < length P" for k
    using assms that by (intro at_state_quiet [OF _ assms(2)]) (simp add: programs_at_def)
  ultimately show ?thesis using assms(1) by (simp add: programs_at_def)
qed

lemma regions_apart:
  assumes "regions_ok m" and "i < length (processes m)" and "k < length (processes m)" and "i \<noteq> k"
  shows "regions_disjoint (p_memory (processes m ! i)) (p_memory (processes m ! k))"
proof -
  have "process_typed (processes m ! i)" "process_typed (processes m ! k)" "i < k \<or> k < i"
    using assms by (auto simp: regions_ok_def)
  with assms show ?thesis by (auto simp: regions_ok_def region_base_def regions_disjoint_def process_typed_def)
qed

text \<open>Executing an instruction of one program on the machine is a step of that program only.\<close>

lemma programs_at_step:
  assumes "programs_at P e m" and "programs_ok P" and k: "k < length P"
    and st: "assembly_step (P ! k) (fst (ex_states e ! k), ex_console e) = Some (r, a', io')"
    and ex: "executeInstruction (os_syscalls fs) k m = (q, m')"
  shows "q = r \<and> programs_at P (e\<lparr>ex_states := (ex_states e)[k := (a', b)], ex_console := io'\<rparr>) m' \<and>
    (\<forall>j < length P. j \<noteq> k \<longrightarrow> processes m' ! j = processes m ! j)"
proof -
  let ?cb = "Some (loadProgram fs)"
  have at: "\<And>j. j < length P \<Longrightarrow> at_state (P ! j) j (fst (ex_states e ! j)) m" and io: "at_console (ex_console e) m"
    and len: "length (processes m) = length P" "length (ex_states e) = length P" and reg: "regions_ok m"
    using assms(1) by (simp_all add: programs_at_def)
  have ok: "program_ok (P ! k)" "program_small (P ! k)" using programs_ok_nth [OF assms(2) k] by simp_all
  from program_step [OF at [OF k] io ok st, of ?cb] ex have q: "q = r"
    and at_k: "at_state (P ! k) k a' m'" and io': "at_console io' m'"
    by (auto simp: os_syscalls_def)
  have ex': "executeInstruction (handle_syscall ?cb) k m = (q, m')" using ex by (simp add: os_syscalls_def)
  have no_load: "\<And>insn. fetched k m = Some insn \<Longrightarrow> \<not> is_load_call insn"
    using program_no_load [OF at [OF k] ok(1) st] .
  have cb: "callback_framed ?cb" by (rule loadProgram_framed)
  have isolated: "length (processes m') = length (processes m) \<and> pm_size (vm_phys m') = pm_size (vm_phys m) \<and>
      processes m' ! j = processes m ! j \<and>
      (\<forall>n. in_region (p_memory (processes m ! j)) n \<longrightarrow> pm_memory (vm_phys m') n = pm_memory (vm_phys m) n)"
    if "j < length P" "j \<noteq> k" for j
    using that k len regions_apart [OF reg, of k j] at_state_layout [OF at [OF k]]
    by (intro executeInstruction_isolated [OF ex' cb _ _ _ _ _ no_load]) simp_all
  have mf: "memory_frame k m m'" using ex' no_load by (rule executeInstruction_memory)
  then have len': "length (processes m') = length P" using k len by (simp add: memory_frame_def)
  have "at_state (P ! j) j (fst (ex_states e ! j)) m'" if "j < length P" "j \<noteq> k" for j
    using isolated [OF that] that len' by (intro at_state_other [OF at]) simp_all
  with at_k k len have "at_state (P ! j) j (fst ((ex_states e)[k := (a', b)] ! j)) m'" if "j < length P" for j
    using that by (cases "j = k") simp_all
  moreover have "regions_ok m'"
    using respectsD [OF types_instruction ex] reg by (simp add: keeps_types_def)
  ultimately show ?thesis using q io' len len' isolated by (simp add: programs_at_def)
qed

section \<open>Programs on the cores\<close>

text \<open>A core has seen a process halt or fail and has not recorded it yet.\<close>

definition pending :: "system \<Rightarrow> pcb_ref \<Rightarrow> bool" where
  "pending s k \<longleftrightarrow> (\<exists>c < length (sy_cores s). label_of s c = C_Decide k ER_Halt \<or> label_of s c = C_Decide k ER_Error)"

definition runs_on :: "statement list list \<Rightarrow> execution \<Rightarrow> system \<Rightarrow> bool" where
  "runs_on P e s \<longleftrightarrow>
    (\<forall>k < length P. snd (ex_states e ! k) \<longleftrightarrow> \<not> ended (sy_machine s) k \<and> \<not> pending s k) \<and>
    (\<forall>c < length (sy_cores s). \<forall>i. label_of s c = C_Execute i \<longrightarrow> \<not> ended (sy_machine s) i)"

definition crashed_with :: "system \<Rightarrow> vm_exception \<Rightarrow> bool" where
  "crashed_with s x \<longleftrightarrow> (\<exists>c < length (sy_cores s). label_of s c = C_Terminated x)"

definition follows :: "statement list list \<Rightarrow> execution \<Rightarrow> system \<Rightarrow> bool" where
  "follows P e s \<longleftrightarrow> programs_ok P \<and> sys_inv s \<and> programs_at P e (sy_machine s) \<and>
    (\<forall>x. ex_exception e = Some x \<longleftrightarrow> crashed_with s x) \<and>
    (ex_exception e = None \<longrightarrow> runs_on P e s)"

lemma terminated_crashed: "terminated (sy_cores s) \<longleftrightarrow> (\<exists>x. crashed_with s x)"
proof -
  have "(case l of C_Terminated e \<Rightarrow> True | _ \<Rightarrow> False) \<longleftrightarrow> (\<exists>x. l = C_Terminated x)" for l by (cases l) simp_all
  then show ?thesis by (auto simp: terminated_def crashed_with_def list_ex_length label_of_def)
qed

lemma follows_alive: "follows P e s \<Longrightarrow> \<not> terminated (sy_cores s) \<Longrightarrow> ex_exception e = None"
  by (auto simp: follows_def terminated_crashed)

text \<open>The labels that matter are not affected by a wake-up.\<close>

definition matters :: "core_label \<Rightarrow> bool" where
  "matters l \<longleftrightarrow> l \<noteq> C_Sleeping \<and> l \<noteq> C_Acquire"

lemma matters_simps [simp]:
  "matters (C_Decide i r)" "matters (C_Execute i)" "matters (C_Terminated x)"
  by (simp_all add: matters_def)

text \<open>A step that executes nothing is matched by none, when processes end only by being recorded.\<close>

lemma follows_stutter:
  assumes "follows P e s" and "sys_inv s'" and "quiet (sy_machine s) (sy_machine s')" and "ex_exception e = None"
    and cores: "length (sy_cores s') = length (sy_cores s)"
    and same: "\<And>x. crashed_with s' x = crashed_with s x"
    and ends: "\<And>k. k < length P \<Longrightarrow>
      ended (sy_machine s') k \<or> pending s' k \<longleftrightarrow> ended (sy_machine s) k \<or> pending s k"
    and execute: "\<And>c i. c < length (sy_cores s) \<Longrightarrow> label_of s' c = C_Execute i \<Longrightarrow> \<not> ended (sy_machine s') i"
  shows "follows P e s'"
proof -
  have "programs_at P e (sy_machine s')"
    using programs_at_quiet [OF _ assms(3)] assms(1) by (simp add: follows_def)
  moreover have "runs_on P e s'"
    using assms(1,4) ends execute cores by (auto simp: follows_def runs_on_def)
  ultimately show ?thesis using assms(1,2) same by (simp add: follows_def)
qed

lemma label_after:
  assumes "c < length (sy_cores s)" and "s' = s\<lparr>sy_machine := m', sy_cores := cores_after notify c l' (sy_cores s)\<rparr>"
  shows "label_of s' c = l'" and "d < length (sy_cores s) \<Longrightarrow> d \<noteq> c \<Longrightarrow> matters l \<Longrightarrow> label_of s' d = l \<longleftrightarrow> label_of s d = l"
    and "length (sy_cores s') = length (sy_cores s)" and "sy_machine s' = m'"
  using assms by (auto simp: label_of_def cores_after_def wake_nth matters_def nth_list_update)

section \<open>Steps of a core\<close>

lemma quiet_label:
  assumes "core_step syscalls stop l m = Some (l', m', notify)" and "\<And>i. l \<noteq> C_Execute i"
  shows "l' \<noteq> C_Terminated x" and "l' \<noteq> C_Decide i r"
    and "l' = C_Execute i \<Longrightarrow> m' = m \<and> \<not> ended m i"
  using assms
  by (cases l; auto simp: decide_def Let_def ended_def split: if_splits option.splits prod.splits)+

lemma pending_after:
  assumes "c < length (sy_cores s)" and "s' = s\<lparr>sy_machine := m', sy_cores := cores_after notify c l' (sy_cores s)\<rparr>"
  shows "pending s' k \<longleftrightarrow> l' = C_Decide k ER_Halt \<or> l' = C_Decide k ER_Error \<or>
    (\<exists>d < length (sy_cores s). d \<noteq> c \<and> (label_of s d = C_Decide k ER_Halt \<or> label_of s d = C_Decide k ER_Error))"
proof -
  have "(label_of s' d = C_Decide k r) = (if d = c then l' = C_Decide k r else label_of s d = C_Decide k r)"
    if "d < length (sy_cores s)" for d r
    using label_after(1,2) [OF assms] that by simp
  with assms(1) label_after(3) [OF assms] show ?thesis by (auto simp: pending_def split: if_splits)
qed

lemma pending_before:
  "c < length (sy_cores s) \<Longrightarrow> pending s k \<longleftrightarrow> label_of s c = C_Decide k ER_Halt \<or> label_of s c = C_Decide k ER_Error \<or>
    (\<exists>d < length (sy_cores s). d \<noteq> c \<and> (label_of s d = C_Decide k ER_Halt \<or> label_of s d = C_Decide k ER_Error))"
  by (auto simp: pending_def)

lemma held_once:
  "sys_inv s \<Longrightarrow> c < length (sy_cores s) \<Longrightarrow> d < length (sy_cores s) \<Longrightarrow> holds (label_of s c) = Some i \<Longrightarrow>
     holds (label_of s d) = Some i \<Longrightarrow> c = d"
  unfolding sys_inv_def by blast

lemma held_exists:
  assumes "sys_inv s" and "c < length (sy_cores s)" and "holds (label_of s c) = Some i"
  shows "i < length (processes (sy_machine s))"
proof -
  have "label_ok (sy_machine s) (label_of s c)" using assms(1,2) by (simp add: sys_inv_def)
  from label_ok_held [OF this assms(3)] show ?thesis by (simp add: has_state_def)
qed

lemma follows_core_quiet:
  assumes f: "follows P e s" and c: "c < length (sy_cores s)" and alive: "\<not> terminated (sy_cores s)"
    and step: "core_step (os_syscalls fs) stop (label_of s c) (sy_machine s) = Some (l', m', notify)"
    and plain: "\<And>i. label_of s c \<noteq> C_Execute i"
    and s': "s' = s\<lparr>sy_machine := m', sy_cores := cores_after notify c l' (sy_cores s)\<rparr>" and inv': "sys_inv s'"
  shows "follows P e s'"
proof -
  let ?m = "sy_machine s" and ?l = "label_of s c"
  note after = label_after [OF c s']
  have inv: "sys_inv s" and at: "programs_at P e ?m" using f by (simp_all add: follows_def)
  have ok: "machine_ok ?m" "label_ok ?m ?l" using inv c by (simp_all add: sys_inv_def)
  have len: "length (processes ?m) = length P" using at by (simp add: programs_at_def)
  have ex: "ex_exception e = None" using f alive by (rule follows_alive)
  have run: "runs_on P e s" using f ex by (simp add: follows_def)
  show ?thesis
  proof (rule follows_stutter [OF f inv' _ ex])
    show "quiet ?m (sy_machine s')" using quiet_step [OF step plain] after(4) by simp
    show "length (sy_cores s') = length (sy_cores s)" by (rule after(3))
  next
    fix x
    have "label_of s' d \<noteq> C_Terminated x" if "d < length (sy_cores s)" for d
      using that alive after(1) after(2) [OF that, of "C_Terminated x"] quiet_label(1) [OF step plain, of x]
      by (cases "d = c") (auto simp: terminated_crashed crashed_with_def)
    then have "\<not> crashed_with s' x" using after(3) by (simp add: crashed_with_def)
    moreover have "\<not> crashed_with s x" using alive by (auto simp: terminated_crashed)
    ultimately show "crashed_with s' x = crashed_with s x" by simp
  next
    fix k
    assume "k < length P"
    with quiet_ends [OF step plain ok] len after(4)
    have "ended (sy_machine s') k \<longleftrightarrow> ended ?m k \<or> ?l = C_Decide k ER_Halt \<or> ?l = C_Decide k ER_Error" by simp
    with pending_after [OF c s', of k] pending_before [OF c, of k] quiet_label(2) [OF step plain, of k]
    show "ended (sy_machine s') k \<or> pending s' k \<longleftrightarrow> ended ?m k \<or> pending s k" by blast
  next
    fix d i
    assume d: "d < length (sy_cores s)" "label_of s' d = C_Execute i"
    show "\<not> ended (sy_machine s') i"
    proof (cases "d = c")
      case True
      with d after(1,4) quiet_label(3) [OF step plain, of i] show ?thesis by simp
    next
      case False
      with d after(2) [OF d(1) False, of "C_Execute i"] have l: "label_of s d = C_Execute i" by simp
      then have h: "holds (label_of s d) = Some i" "\<not> ended ?m i" using run d(1) by (simp_all add: runs_on_def)
      then have "?l \<noteq> C_Decide i r" for r using held_once [OF inv c d(1), of i] False by auto
      with quiet_ends [OF step plain ok held_exists [OF inv d(1) h(1)]] h(2) after(4) show ?thesis by simp
    qed
  qed
qed

text \<open>A core that executes an instruction has a process whose program runs.\<close>

lemma execute_active:
  assumes f: "follows P e s" and c: "c < length (sy_cores s)" and alive: "\<not> terminated (sy_cores s)"
    and label: "label_of s c = C_Execute i"
  shows "ex_exception e = None" and "i < length P" and "ex_states e ! i = (fst (ex_states e ! i), True)"
    and "\<not> ended (sy_machine s) i" and "d < length (sy_cores s) \<Longrightarrow> label_of s d \<noteq> C_Decide i q"
proof -
  have inv: "sys_inv s" and at: "programs_at P e (sy_machine s)" using f by (simp_all add: follows_def)
  have h: "holds (label_of s c) = Some i" by (simp add: label)
  show ex: "ex_exception e = None" using f alive by (rule follows_alive)
  then have run: "runs_on P e s" using f by (simp add: follows_def)
  show i: "i < length P" using held_exists [OF inv c h] at by (simp add: programs_at_def)
  have other: "label_of s d \<noteq> C_Decide i q" if "d < length (sy_cores s)" for d q
    using held_once [OF inv c that h] label by auto
  then show "d < length (sy_cores s) \<Longrightarrow> label_of s d \<noteq> C_Decide i q" .
  show "\<not> ended (sy_machine s) i" using run c label by (simp add: runs_on_def)
  moreover have "\<not> pending s i" using other by (auto simp: pending_def)
  ultimately have "snd (ex_states e ! i)" using run i by (simp add: runs_on_def)
  then show "ex_states e ! i = (fst (ex_states e ! i), True)" by (simp add: prod_eq_iff)
qed

lemma crashed_after:
  assumes "c < length (sy_cores s)" and "\<not> terminated (sy_cores s)"
    and "s' = s\<lparr>sy_machine := m', sy_cores := cores_after notify c l' (sy_cores s)\<rparr>"
  shows "crashed_with s' x \<longleftrightarrow> l' = C_Terminated x"
proof -
  have "label_of s d \<noteq> C_Terminated x" if "d < length (sy_cores s)" for d
    using assms(2) that by (auto simp: terminated_crashed crashed_with_def)
  then have "(label_of s' d = C_Terminated x) = (d = c \<and> l' = C_Terminated x)" if "d < length (sy_cores s)" for d
    using that label_after(1) [OF assms(1,3)] label_after(2) [OF assms(1,3) that, of "C_Terminated x"] by auto
  with assms(1) label_after(3) [OF assms(1,3)] show ?thesis by (auto simp: crashed_with_def)
qed

text \<open>An instruction that throws, and one that returns.\<close>

lemma follows_throw:
  assumes f: "follows P e s" and c: "c < length (sy_cores s)" and alive: "\<not> terminated (sy_cores s)"
    and label: "label_of s c = C_Execute i"
    and st: "assembly_step (P ! i) (fst (ex_states e ! i), ex_console e) = Some (Inl y, a', io')"
    and x: "executeInstruction (os_syscalls fs) i (sy_machine s) = (q, m')"
    and s': "s' = s\<lparr>sy_machine := m', sy_cores := cores_after notify c (C_Terminated y) (sy_cores s)\<rparr>" and inv': "sys_inv s'"
  shows "\<exists>e'. programs_step P e e' \<and> follows P e' s'"
proof -
  note active = execute_active [OF f c alive label]
  let ?e = "e\<lparr>ex_states := (ex_states e)[i := (a', True)], ex_console := io', ex_exception := Some y\<rparr>"
  have f': "programs_at P e (sy_machine s)" "programs_ok P" using f by (simp_all add: follows_def)
  have "programs_step P e ?e" using active(1-3) st by (rule program_throws)
  moreover have "programs_at P ?e (sy_machine s')"
    using programs_at_step [OF f' active(2) st x, of True] label_after(4) [OF c s'] by (simp add: programs_at_def)
  ultimately show ?thesis
    using f'(2) inv' crashed_after [OF c alive s'] by (auto simp: follows_def)
qed

lemma runs_on_return:
  assumes f: "follows P e s" and c: "c < length (sy_cores s)" and alive: "\<not> terminated (sy_cores s)"
    and label: "label_of s c = C_Execute i"
    and s': "s' = s\<lparr>sy_machine := m', sy_cores := cores_after notify c (C_Decide i v) (sy_cores s)\<rparr>"
    and own: "v \<noteq> ER_Halt \<Longrightarrow> \<not> ended m' i"
    and others: "\<And>j. j < length P \<Longrightarrow> j \<noteq> i \<Longrightarrow> processes m' ! j = processes (sy_machine s) ! j"
  shows "runs_on P (e\<lparr>ex_states := (ex_states e)[i := (a', v \<noteq> ER_Halt \<and> v \<noteq> ER_Error)], ex_console := io'\<rparr>) s'"
proof -
  let ?m = "sy_machine s" and ?go = "v \<noteq> ER_Halt \<and> v \<noteq> ER_Error"
  note after = label_after [OF c s'] and active = execute_active [OF f c alive label]
  have inv: "sys_inv s" and at: "programs_at P e ?m" using f by (simp_all add: follows_def)
  have len: "length (processes ?m) = length P" "length (ex_states e) = length P" using at by (simp_all add: programs_at_def)
  have run: "runs_on P e s" using f active(1) by (simp add: follows_def)
  have keep: "ended m' k = ended ?m k" if "k < length P" "k \<noteq> i" for k
    using others [OF that] by (simp add: ended_def)
  have pend: "pending s' k = pending s k" if "k \<noteq> i" for k
    using pending_after [OF c s', of k] pending_before [OF c, of k] that by (simp add: label)
  have "?go \<longleftrightarrow> \<not> ended m' i \<and> \<not> pending s' i"
    using own active(5) pending_after [OF c s', of i] by auto
  then have "snd ((ex_states e)[i := (a', ?go)] ! k) \<longleftrightarrow> \<not> ended m' k \<and> \<not> pending s' k" if "k < length P" for k
    using that keep [OF that] pend run len by (cases "k = i") (simp_all add: runs_on_def)
  moreover have "\<not> ended m' j" if d: "d < length (sy_cores s)" "label_of s' d = C_Execute j" for d j
  proof -
    have "d \<noteq> c" using d after(1) by auto
    with d after(2) [of d "C_Execute j"] have l: "label_of s d = C_Execute j" by simp
    then have hd: "holds (label_of s d) = Some j" "\<not> ended ?m j" using run d(1) by (simp_all add: runs_on_def)
    moreover have "j \<noteq> i" using held_once [OF inv c d(1), of i] hd(1) label \<open>d \<noteq> c\<close> by auto
    ultimately show ?thesis using keep [of j] held_exists [OF inv d(1) hd(1)] len by simp
  qed
  ultimately show ?thesis using after(3,4) by (simp add: runs_on_def)
qed

lemma follows_return:
  assumes f: "follows P e s" and c: "c < length (sy_cores s)" and alive: "\<not> terminated (sy_cores s)"
    and label: "label_of s c = C_Execute i"
    and st: "assembly_step (P ! i) (fst (ex_states e ! i), ex_console e) = Some (Inr v, a', io')"
    and x: "executeInstruction (os_syscalls fs) i (sy_machine s) = (q, m')"
    and s': "s' = s\<lparr>sy_machine := m', sy_cores := cores_after notify c (C_Decide i v) (sy_cores s)\<rparr>" and inv': "sys_inv s'"
  shows "\<exists>e'. programs_step P e e' \<and> follows P e' s'"
proof -
  note active = execute_active [OF f c alive label]
  let ?go = "v \<noteq> ER_Halt \<and> v \<noteq> ER_Error" and ?cb = "Some (loadProgram fs)"
  let ?e = "e\<lparr>ex_states := (ex_states e)[i := (a', ?go)], ex_console := io'\<rparr>"
  have f': "programs_at P e (sy_machine s)" "programs_ok P" using f by (simp_all add: follows_def)
  note sim = programs_at_step [OF f' active(2) st x]
  have "programs_step P e ?e" using active(1-3) st by (rule program_goes_on)
  moreover have "programs_at P ?e (sy_machine s')"
    using sim [of ?go] label_after(4) [OF c s'] by simp
  moreover have "runs_on P ?e s'"
  proof (rule runs_on_return [OF f c alive label s'])
    assume "v \<noteq> ER_Halt"
    moreover have "q = Inr v" "i < length (processes (sy_machine s))"
      using sim active(2) f'(1) by (simp_all add: programs_at_def)
    ultimately have "ended m' i = ended (sy_machine s) i"
      using instruction_ends [of ?cb i "sy_machine s" v m'] x loadProgram_framed by (simp add: os_syscalls_def)
    with active(4) show "\<not> ended m' i" by simp
  qed (use sim in blast)
  ultimately show ?thesis
    using f'(2) inv' active(1) crashed_after [OF c alive s'] by (auto simp: follows_def)
qed

lemma follows_core_execute:
  assumes f: "follows P e s" and c: "c < length (sy_cores s)" and alive: "\<not> terminated (sy_cores s)"
    and label: "label_of s c = C_Execute i"
    and step: "core_step (os_syscalls fs) stop (label_of s c) (sy_machine s) = Some (l', m', notify)"
    and s': "s' = s\<lparr>sy_machine := m', sy_cores := cores_after notify c l' (sy_cores s)\<rparr>" and inv': "sys_inv s'"
  shows "leaves_programs P e \<or> (\<exists>e'. programs_step P e e' \<and> follows P e' s')"
proof (cases "assembly_step (P ! i) (fst (ex_states e ! i), ex_console e)")
  case None
  with execute_active [OF f c alive label] show ?thesis
    by (metis leaves_programs_def snd_conv)
next
  case (Some res)
  then obtain r a' io' where st: "assembly_step (P ! i) (fst (ex_states e ! i), ex_console e) = Some (r, a', io')"
    by (metis prod.exhaust)
  obtain q m1 where x: "executeInstruction (os_syscalls fs) i (sy_machine s) = (q, m1)" by (metis prod.exhaust)
  have "programs_at P e (sy_machine s)" "programs_ok P" using f by (simp_all add: follows_def)
  from programs_at_step [OF this execute_active(2) [OF f c alive label] st x] have q: "q = r" by blast
  have m1: "m1 = m'" and l': "l' = (case r of Inl y \<Rightarrow> C_Terminated y | Inr v \<Rightarrow> C_Decide i v)"
    using step x q by (auto simp: label split: sum.splits)
  show ?thesis
  proof (cases r)
    case (Inl y)
    with follows_throw [OF f c alive label st [unfolded Inl] x [unfolded m1] _ inv'] s' l' show ?thesis by simp
  next
    case (Inr v)
    with follows_return [OF f c alive label st [unfolded Inr] x [unfolded m1] _ inv'] s' l' show ?thesis by simp
  qed
qed

section \<open>Steps of the system\<close>

text \<open>The steps of the main thread.\<close>

lemma follows_main:
  assumes f: "follows P e s" and alive: "\<not> terminated (sy_cores s)" and inv': "sys_inv s'"
    and q: "quiet (sy_machine s) (sy_machine s')"
    and ends: "\<And>k. k < length (processes (sy_machine s)) \<Longrightarrow> ended (sy_machine s') k = ended (sy_machine s) k"
    and len: "length (sy_cores s') = length (sy_cores s)"
    and labels: "\<And>c l. c < length (sy_cores s) \<Longrightarrow> matters l \<Longrightarrow> label_of s' c = l \<longleftrightarrow> label_of s c = l"
  shows "follows P e s'"
proof -
  have ex: "ex_exception e = None" using f alive by (rule follows_alive)
  have n: "length (processes (sy_machine s)) = length P" and inv: "sys_inv s"
    using f by (simp_all add: follows_def programs_at_def)
  show ?thesis
  proof (rule follows_stutter [OF f inv' q ex len])
    show "crashed_with s' x = crashed_with s x" for x using labels len by (auto simp: crashed_with_def)
    show "ended (sy_machine s') k \<or> pending s' k \<longleftrightarrow> ended (sy_machine s) k \<or> pending s k" if "k < length P" for k
      using ends n that labels len by (auto simp: pending_def)
    show "\<not> ended (sy_machine s') i" if "c < length (sy_cores s)" "label_of s' c = C_Execute i" for c i
    proof -
      from that labels have "label_of s c = C_Execute i" by simp
      moreover from this have "i < length (processes (sy_machine s))" using held_exists [OF inv that(1)] by simp
      ultimately show ?thesis using f ex that(1) ends by (simp add: follows_def runs_on_def)
    qed
  qed
qed

lemma label_wake: "c < length (sy_cores s) \<Longrightarrow> matters l \<Longrightarrow> co_label (wake (sy_cores s) ! c) = l \<longleftrightarrow> label_of s c = l"
  by (auto simp: wake_nth matters_def label_of_def)

lemma system_followed:
  assumes f: "follows P e s" and step: "system_step (os_syscalls fs) s s'"
  shows "leaves_programs P e \<or> (\<exists>e'. (programs_step P)\<^sup>*\<^sup>* e e' \<and> follows P e' s')"
proof -
  have "sys_inv s" using f by (simp add: follows_def)
  with step have inv': "sys_inv s'" by (rule sys_inv_step)
  from step show ?thesis
  proof (cases rule: system_step.cases)
    case (core_moves c l' m' notify)
    let ?l = "label_of s c"
    have s': "s' = s\<lparr>sy_machine := m', sy_cores := cores_after notify c l' (sy_cores s)\<rparr>"
      using core_moves(1) by (simp add: cores_after_def)
    note st = core_moves(5) [folded label_of_def]
    show ?thesis
    proof (cases "\<exists>i. ?l = C_Execute i")
      case True
      then obtain i where "?l = C_Execute i" by blast
      from follows_core_execute [OF f core_moves(3,2) this st s' inv'] show ?thesis by blast
    next
      case False
      then have "\<And>i. ?l \<noteq> C_Execute i" by blast
      from follows_core_quiet [OF f core_moves(3,2) st this s' inv'] show ?thesis by blast
    qed
  next
    case main_stops
    have "follows P e s'"
    proof (rule follows_main [OF f main_stops(2) inv'])
      show "quiet (sy_machine s) (sy_machine s')" using main_stops(1) by (simp add: quiet_scheduler)
      show "ended (sy_machine s') k = ended (sy_machine s) k" for k
        using main_stops(1) by (simp add: ended_same ends_scheduler)
    qed (use main_stops(1) in \<open>simp_all add: label_of_def\<close>)
    then show ?thesis by blast
  next
    case main_notifies
    have "follows P e s'"
      by (rule follows_main [OF f main_notifies(2) inv'])
        (use main_notifies(1) in \<open>simp_all add: quiet_fr.frame_refl label_wake, simp_all add: label_of_def label_wake\<close>)
    then show ?thesis by blast
  next
    case (main_flags c)
    have "follows P e s'"
      by (rule follows_main [OF f main_flags(2) inv'])
        (use main_flags(1,4) in \<open>auto simp: quiet_fr.frame_refl label_of_def nth_list_update\<close>)
    then show ?thesis by blast
  qed (use f inv' in \<open>auto simp: quiet_fr.frame_refl label_of_def intro!: exI [of _ e] intro: follows_main [OF f]\<close>)
qed

interpretation programs: simulation_until "system_step (os_syscalls fs)" "programs_step P" "follows P" "leaves_programs P"
  for fs P
  by unfold_locales (rule system_followed)

section \<open>Loading the programs\<close>

text \<open>A file holds a program in some layout.\<close>

definition program_file :: "file_system \<Rightarrow> string \<Rightarrow> statement list \<Rightarrow> bool" where
  "program_file fs path sts \<longleftrightarrow> (\<exists>source k lines. fs path = Some source \<and>
     lexemes (Lexer source) = Inr (program_lexemes k lines) \<and> sts = map fst lines \<and>
     program_ok sts \<and> program_small sts)"

definition loaded :: "statement list list \<Rightarrow> input_stream \<Rightarrow> machine \<Rightarrow> bool" where
  "loaded P input m \<longleftrightarrow> ready_to_run m \<and> programs_ok P \<and> programs_at P (initial_execution P input) m \<and>
    (\<forall>k < length P. \<not> ended m k) \<and>
    (\<forall>j. unat (nextFreeAddress (vm_phys m)) \<le> j \<longrightarrow> pm_memory (vm_phys m) j = 0)"

lemma initial_execution_nth [simp]:
  "k < length P \<Longrightarrow> ex_states (initial_execution P input) ! k = (initial_state (P ! k) 0, True)"
  "length (ex_states (initial_execution P input)) = length P"
  "ex_console (initial_execution P input) = \<lparr>io_out = [], io_in = input\<rparr>" "ex_exception (initial_execution P input) = None"
  by (simp_all add: initial_execution_def)

lemma loaded_boot: "loaded [] input (vf_os (boot opts input))"
proof -
  have "vm_phys (vf_os (boot opts input)) = PhysicalMemory 1048576" "vm_out (vf_os (boot opts input)) = []"
    "vm_in (vf_os (boot opts input)) = input"
    by (simp_all add: boot_fields VirtualOS_def)
  then show ?thesis
    using boot_ready [of opts input]
    by (simp add: loaded_def programs_ok_def programs_at_def at_console_def regions_ok_def)
      (simp add: PhysicalMemory_def)
qed

text \<open>A program that was loaded has been put into a region of its own at the next free address.\<close>

lemma program_file_loaded:
  assumes "regions_ok m" and "program_file fs path sts" and "loadProgram fs path m = (Inr pid, m')"
  obtains l where "load_image (reference_program sts) (vm_phys m) = (Inr l, vm_phys m')"
    and "processes m' = processes m @ [new_process pid (path_filename path) l (sch_quantum (vm_sched m))]"
    and "vm_out m' = vm_out m" and "vm_in m' = vm_in m"
    and "unat (nextFreeAddress (vm_phys m)) + 65536 \<le> unat (pm_size (vm_phys m))"
    and "unat (nextFreeAddress (vm_phys m')) = unat (nextFreeAddress (vm_phys m)) + 65536"
    and "pm_size (vm_phys m') = pm_size (vm_phys m)"
    and "\<And>j. j < unat (nextFreeAddress (vm_phys m)) \<or> unat (nextFreeAddress (vm_phys m')) \<le> j \<Longrightarrow>
      pm_memory (vm_phys m') j = pm_memory (vm_phys m) j"
proof -
  let ?p = "reference_program sts"
  from assms(2) obtain source k lines where src: "fs path = Some source" "lexemes (Lexer source) = Inr (program_lexemes k lines)"
    and sts: "sts = map fst lines" "program_ok sts" "program_small sts"
    by (auto simp: program_file_def)
  have ld: "loadProgramFromSource source (path_filename path) m = (Inr pid, m')"
    using assms(3) src(1) by (simp add: loadProgram_def)
  have asm: "assemble source = Inr ?p" using assemble_reference src(2) sts by blast
  have small: "unat (pm_size (vm_phys m)) < 2 ^ 32" "unat (nextFreeAddress (vm_phys m)) \<le> unat (pm_size (vm_phys m))"
    using assms(1) by (simp_all add: regions_ok_def)
  from loadProgramFromSource_ok [OF ld] asm obtain l where
    img: "load_image ?p (vm_phys m) = (Inr l, vm_phys m')" and m': "vm_out m' = vm_out m" "vm_in m' = vm_in m"
      "processes m' = processes m @ [new_process pid (path_filename path) l (sch_quantum (vm_sched m))]"
    by auto
  from load_image_allocation [OF img small] have space: "unat (nextFreeAddress (vm_phys m)) + 65536 \<le> unat (pm_size (vm_phys m))"
    and free: "unat (nextFreeAddress (vm_phys m')) = unat (nextFreeAddress (vm_phys m)) + 65536" by auto
  from load_image_ok [OF small_program_fits(1) [OF sts(3) space small(1)]] img
  have size: "pm_size (vm_phys m') = pm_size (vm_phys m)" and frame: "\<And>j. j < unat (nextFreeAddress (vm_phys m)) \<or>
        unat (nextFreeAddress (vm_phys m)) + (4 * length (ap_code ?p) + length (ap_data ?p)) \<le> j \<Longrightarrow>
      pm_memory (vm_phys m') j = pm_memory (vm_phys m) j" by auto
  have "pm_memory (vm_phys m') j = pm_memory (vm_phys m) j"
    if "j < unat (nextFreeAddress (vm_phys m)) \<or> unat (nextFreeAddress (vm_phys m')) \<le> j" for j
    by (rule frame) (use that free sts(3) in \<open>auto simp: program_small_def\<close>)
  with that [OF img m'(3,1,2) space free size] show ?thesis by blast
qed

lemma loaded_program:
  assumes "loaded P input m" and "program_file fs path sts" and "loadProgram fs path m = (Inr pid, m')"
  shows "loaded (P @ [sts]) input m'"
proof -
  let ?n = "length P"
  have sts: "program_ok sts" "program_small sts" using assms(2) by (auto simp: program_file_def)
  have at: "programs_at P (initial_execution P input) m" and okP: "programs_ok P" and rdy: "ready_to_run m"
    and live: "\<And>k. k < ?n \<Longrightarrow> \<not> ended m k"
    and zero: "\<And>j. unat (nextFreeAddress (vm_phys m)) \<le> j \<Longrightarrow> pm_memory (vm_phys m) j = 0"
    using assms(1) by (auto simp: loaded_def)
  have reg: "regions_ok m" and len: "length (processes m) = ?n" using at by (simp_all add: programs_at_def)
  from program_file_loaded [OF reg assms(2,3)] obtain l where
    img: "load_image (reference_program sts) (vm_phys m) = (Inr l, vm_phys m')"
    and m': "processes m' = processes m @ [new_process pid (path_filename path) l (sch_quantum (vm_sched m))]"
      "vm_out m' = vm_out m" "vm_in m' = vm_in m"
    and space: "unat (nextFreeAddress (vm_phys m)) + 65536 \<le> unat (pm_size (vm_phys m))"
    and free: "unat (nextFreeAddress (vm_phys m')) = unat (nextFreeAddress (vm_phys m)) + 65536"
      "pm_size (vm_phys m') = pm_size (vm_phys m)"
    and frame: "\<And>j. j < unat (nextFreeAddress (vm_phys m)) \<or> unat (nextFreeAddress (vm_phys m')) \<le> j \<Longrightarrow>
      pm_memory (vm_phys m') j = pm_memory (vm_phys m) j" by blast
  have zero': "pm_memory (vm_phys m') j = 0" if "unat (nextFreeAddress (vm_phys m')) \<le> j" for j
    using frame [of j] zero [of j] that free(1) by simp
  have "at_state (P ! k) k (initial_state (P ! k) 0) m'" if k: "k < ?n" for k
  proof (rule at_state_other)
    show "at_state (P ! k) k (initial_state (P ! k) 0) m" using at k by (simp add: programs_at_def)
    have "unat (ml_base (p_memory (processes m ! k))) + unat (ml_totalSize (p_memory (processes m ! k))) \<le>
        unat (nextFreeAddress (vm_phys m))"
      using reg k len by (simp add: regions_ok_def region_base_def process_typed_def)
    then show "pm_memory (vm_phys m') j = pm_memory (vm_phys m) j" if "in_region (p_memory (processes m ! k)) j" for j
      using that frame [of j] by (simp add: in_region_def)
  qed (use k len m' free in \<open>simp_all add: nth_append\<close>)
  moreover have "at_state sts ?n (initial_state sts 0) m'"
  proof -
    have "load_word (pm_memory (vm_phys m)) (unat (nextFreeAddress (vm_phys m)) + d) = 0" for d
      using zero by (simp add: load_word_bytes)
    then have "stale_word sts m = 0" by (simp add: stale_word_def)
    moreover have "at_state sts ?n (initial_state sts (stale_word sts m)) m'"
      by (rule loaded_at_state [OF sts(2) img space _ refl]) (use reg len m'(1) in \<open>simp_all add: nth_append regions_ok_def\<close>)
    ultimately show ?thesis by simp
  qed
  ultimately have "at_state ((P @ [sts]) ! k) k (initial_state ((P @ [sts]) ! k) 0) m'" if "k < Suc ?n" for k
    using that by (cases "k = ?n") (simp_all add: nth_append)
  then have "programs_at (P @ [sts]) (initial_execution (P @ [sts]) input) m'"
    using at len m' regions_ok_add [OF reg img m'(1) refl] by (simp add: programs_at_def at_console_def)
  moreover have "ready_to_run m'"
    using loadProgram_ready [OF assms(3) rdy] by simp
  moreover have "\<not> ended m' k" if "k < Suc ?n" for k
    using that live [of k] len m'(1) by (cases "k = ?n") (simp_all add: ended_def nth_append frame_simps)
  ultimately show ?thesis using okP sts zero' by (simp add: loaded_def programs_ok_def)
qed

lemma loaded_programs:
  assumes "loaded P input (vf_os vm)" and "list_all2 (program_file fs) paths Q" and "load_programs fs paths vm = (Inr (), vm')"
  shows "loaded (P @ Q) input (vf_os vm')"
  using assms(2,1,3)
proof (induction arbitrary: P vm rule: list_all2_induct)
  case (Cons path paths sts Q)
  from Cons.prems(2) obtain pid vm1 where m1: "loadProgram fs path (vf_os vm) = (Inr pid, vf_os vm1)"
    "load_programs fs paths vm1 = (Inr (), vm')" by (rule load_programs_Cons)
  from Cons.IH [OF loaded_program [OF Cons.prems(1) Cons.hyps(1) m1(1)] m1(2)] show ?case by simp
qed (simp add: vreturn_def)

lemma loaded_follows:
  assumes "loaded P input m"
  shows "follows P (initial_execution P input) (run_system n m)"
proof -
  let ?m = "on_scheduler notifyProcessReady m"
  have rdy: "ready_to_run m" using assms by (simp add: loaded_def)
  have len: "length (processes m) = length P" using assms by (simp add: loaded_def programs_at_def)
  have s: "sy_machine (run_system n m) = ?m" "\<And>c. c < n \<Longrightarrow> label_of (run_system n m) c = C_Head None"
    "length (sy_cores (run_system n m)) = n"
    by (simp_all add: run_system_def label_of_def)
  have "programs_at P (initial_execution P input) ?m"
    using assms programs_at_quiet [OF _ quiet_scheduler(1)] by (simp add: loaded_def)
  moreover have "ended ?m k = ended m k" for k by (simp add: ended_same ends_scheduler)
  then have "runs_on P (initial_execution P input) (run_system n m)"
    using assms s by (simp add: runs_on_def loaded_def pending_def)
  moreover have "\<not> crashed_with (run_system n m) x" for x using s by (simp add: crashed_with_def)
  ultimately show ?thesis
    using assms sys_inv_initial [OF rdy] s(1) by (simp add: follows_def loaded_def)
qed

lemma main_loads:
  assumes "main_program fs input argv0 args = Run s0" and "parse_arguments args default_options = Inr (Some opts)"
  shows "\<exists>vm. load_programs fs (op_programs opts) (boot opts input) = (Inr (), vm) \<and>
    s0 = run_system (unat (op_cores opts)) (vf_os vm)"
proof -
  obtain r m where rm: "load_programs fs (op_programs opts) (boot opts input) = (r, m)" by (metis prod.exhaust)
  have ne: "op_programs opts \<noteq> []" using assms by (auto simp: main_program_def)
  have r: "r = Inr ()" using assms ne rm by (cases r) (simp_all add: main_program_def)
  from main_starts [OF assms(2) ne rm [unfolded r]] assms(1) r rm show ?thesis by simp
qed

section \<open>Programs that keep to their code\<close>

text \<open>
  Without \<^verbatim>\<open>ret\<close> and calls of \<^verbatim>\<open>load\<close>, with labels in front of instructions, and with a last instruction that
  does not go on to the next, a program never leaves its code.
\<close>

fun stays_in :: "statement list \<Rightarrow> instruction \<Rightarrow> bool" where
  "stays_in sts A_ret = False"
| "stays_in sts (A_call sc x) = (sc \<noteq> SYS_Load)"
| "stays_in sts (A_jump op l) = (unat (label_position sts l) < length (instructions_of sts))"
| "stays_in sts _ = True"

fun never_falls_through :: "instruction \<Rightarrow> bool" where
  "never_falls_through A_halt = True"
| "never_falls_through (A_call sc x) = (sc = SYS_Exit)"
| "never_falls_through (A_jump op l) = (op = OP_JMP)"
| "never_falls_through _ = False"

definition keeps_to_code :: "statement list \<Rightarrow> bool" where
  "keeps_to_code sts \<longleftrightarrow> instructions_of sts \<noteq> [] \<and> list_all (stays_in sts) (instructions_of sts) \<and>
    never_falls_through (last (instructions_of sts))"

lemma statement_pc:
  assumes "execute_statement sts i a = (Inr r, a')" and "stays_in sts i" and "r \<noteq> ER_Halt" and "r \<noteq> ER_Error"
  shows "as_pc a' = as_pc a + 1 \<and> \<not> never_falls_through i \<or> unat (as_pc a') < length (instructions_of sts)"
  using assms
proof (cases i)
  case (A_unary op r)
  with assms show ?thesis
    by (cases "(op, r, a)" rule: as_unary.cases)
      (auto simp: proceed_def result_flags_def compare_flags_def set_as_reg_def Let_def)
qed (auto simp: proceed_def go_to_def fail_with_def as_push_def as_pop_def as_memory_def as_binary_def result_flags_def
    compare_flags_def set_as_reg_def Let_def split: if_splits list.splits option.splits)

lemma call_pc:
  "call_statement n sc off (a, io) = (Inr r, a', io') \<Longrightarrow> r \<noteq> ER_Halt \<Longrightarrow> as_pc a' = as_pc a + 1 \<and> sc \<noteq> SYS_Exit"
  by (cases sc) (auto simp: after_call_def Let_def split: if_splits prod.splits)

lemma program_stays:
  assumes "keeps_to_code sts" and "program_small sts" and "unat (as_pc a) < length (instructions_of sts)"
    and "assembly_step sts (a, io) = Some (Inr r, a', io')" and "r \<noteq> ER_Halt" and "r \<noteq> ER_Error"
  shows "unat (as_pc a') < length (instructions_of sts)"
proof -
  let ?n = "unat (as_pc a)" and ?is = "instructions_of sts"
  let ?i = "?is ! ?n"
  have stay: "stays_in sts ?i" and last_stops: "never_falls_through (last ?is)"
    using assms(1,3) by (simp_all add: keeps_to_code_def list_all_length)
  have "as_pc a' = as_pc a + 1 \<and> \<not> never_falls_through ?i \<or> unat (as_pc a') < length ?is"
  proof (cases "\<exists>sc x. ?i = A_call sc x")
    case True
    then obtain sc x where i: "?i = A_call sc x" by blast
    with assms(3,4) stay have "call_statement (data_size sts) sc (data_address sts x) (a, io) = (Inr r, a', io')"
      by (simp add: assembly_step_def)
    from call_pc [OF this assms(5)] i show ?thesis by simp
  next
    case False
    then have "execute_statement sts ?i a = (Inr r, a')"
      using assms(3,4) by (auto simp: assembly_step_def split: instruction.splits prod.splits)
    from statement_pc [OF this stay assms(5,6)] show ?thesis .
  qed
  then show ?thesis
  proof
    assume next_one: "as_pc a' = as_pc a + 1 \<and> \<not> never_falls_through ?i"
    then have "?n \<noteq> length ?is - 1" using last_stops assms(1) by (auto simp: keeps_to_code_def last_conv_nth)
    with assms(3) have "Suc ?n < length ?is" by simp
    moreover have "unat (as_pc a + 1) = Suc ?n"
      using assms(2,3) by (subst unat_add_u32) (simp_all add: program_small_def)
    ultimately show ?thesis using next_one by simp
  qed
qed

lemma program_can_step:
  assumes "keeps_to_code sts" and "unat (as_pc a) < length (instructions_of sts)"
  shows "assembly_step sts (a, io) \<noteq> None"
proof -
  have "stays_in sts (instructions_of sts ! unat (as_pc a))"
    using assms by (simp add: keeps_to_code_def list_all_length)
  with assms(2) show ?thesis by (auto simp: assembly_step_def split: instruction.split prod.split) (metis prod.exhaust)
qed

definition inside :: "statement list list \<Rightarrow> execution \<Rightarrow> bool" where
  "inside P e \<longleftrightarrow> length (ex_states e) = length P \<and> (ex_exception e = None \<longrightarrow>
    (\<forall>k < length P. snd (ex_states e ! k) \<longrightarrow> unat (as_pc (fst (ex_states e ! k))) < length (instructions_of (P ! k))))"

lemma inside_step:
  assumes "programs_step P e e'" and "inside P e" and "list_all (\<lambda>sts. program_small sts \<and> keeps_to_code sts) P"
  shows "inside P e'"
  using assms
proof (cases rule: programs_step.cases)
  case (program_goes_on k a r a' io')
  have "unat (as_pc a') < length (instructions_of (P ! k))" if "r \<noteq> ER_Halt" "r \<noteq> ER_Error"
    using program_stays [OF _ _ _ program_goes_on(5) that] program_goes_on assms(2,3)
    by (fastforce simp: inside_def list_all_length)
  with program_goes_on assms(2) show ?thesis by (auto simp: inside_def nth_list_update)
qed (simp add: inside_def)

lemma programs_never_leave:
  assumes "(programs_step P)\<^sup>*\<^sup>* (initial_execution P input) e" and "list_all (\<lambda>sts. program_small sts \<and> keeps_to_code sts) P"
  shows "\<not> leaves_programs P e"
proof -
  have "inside P (initial_execution P input)"
    using assms(2) by (auto simp: inside_def list_all_length keeps_to_code_def initial_state_def)
  with assms(1) have "inside P e"
    by (induction rule: rtranclp_induct) (auto intro: inside_step assms(2))
  have "assembly_step (P ! k) (fst (ex_states e ! k), ex_console e) \<noteq> None"
    if "ex_exception e = None" "k < length P" "snd (ex_states e ! k)" for k
    using that assms(2) \<open>inside P e\<close> by (intro program_can_step) (simp_all add: inside_def list_all_length)
  then show ?thesis by (auto simp: leaves_programs_def)
qed

section \<open>The end of a run\<close>

lemma terminated_nth: "terminated cores \<longleftrightarrow> (\<exists>c < length cores. \<exists>x. co_label (cores ! c) = C_Terminated x)"
  using terminated_crashed [of "\<lparr>sy_machine = undefined, sy_cores = cores, sy_main = M_Wait\<rparr>"]
  by (auto simp: crashed_with_def label_of_def)

text \<open>Once the main thread has stopped waiting no core executes an instruction, so none ends the program.\<close>

lemma stopped_alive_step:
  assumes "system_step (os_syscalls fs) s s'" and "sys_inv s" and "sy_main s \<noteq> M_Wait \<Longrightarrow> \<not> terminated (sy_cores s)"
  shows "sy_main s' \<noteq> M_Wait \<longrightarrow> \<not> terminated (sy_cores s')"
  using assms
proof (cases rule: system_step.cases)
  case (core_moves c l' m' notify)
  show ?thesis
  proof
    assume "sy_main s' \<noteq> M_Wait"
    then have "all_halted (sy_machine s)" using assms(2) core_moves(1) by (simp add: sys_inv_halted)
    moreover have "label_ok (sy_machine s) (label_of s c)" using assms(2) core_moves(3) by (simp add: sys_inv_def)
    ultimately have "label_of s c \<noteq> C_Execute i" for i by (auto simp: has_state_def all_halted_def)
    then have "l' \<noteq> C_Terminated x" for x using quiet_label(1) [OF core_moves(5)] by (simp add: label_of_def)
    moreover have "s' = s\<lparr>sy_machine := m', sy_cores := cores_after notify c l' (sy_cores s)\<rparr>"
      using core_moves(1) by (simp add: cores_after_def)
    note after = label_after [OF core_moves(3) this]
    ultimately show "\<not> terminated (sy_cores s')"
      using core_moves(2) after(1,3) after(2) [of _ "C_Terminated _"]
      by (auto simp: terminated_crashed crashed_with_def) (metis after(2) matters_simps(3))
  qed
next
  case main_notifies
  then show ?thesis by simp
next
  case (main_flags c)
  then show ?thesis by (auto simp: terminated_nth nth_list_update split: if_splits)
qed simp_all

lemma stopped_alive:
  assumes "(system_step (os_syscalls fs))\<^sup>*\<^sup>* s0 s" and "sys_inv s0" and "sy_main s0 = M_Wait" and "sy_main s \<noteq> M_Wait"
  shows "\<not> terminated (sy_cores s)"
proof -
  have "sys_inv s \<and> (sy_main s \<noteq> M_Wait \<longrightarrow> \<not> terminated (sy_cores s))"
    using assms(1)
  proof (induction rule: rtranclp_induct)
    case (step t u)
    then show ?case using sys_inv_step [OF step.hyps(2)] stopped_alive_step [OF step.hyps(2)] by blast
  qed (use assms(2,3) in simp)
  with assms(4) show ?thesis by blast
qed

section \<open>What can be seen of an execution\<close>

lemma main_follows:
  assumes "main_program fs input argv0 args = Run s0" and "parse_arguments args default_options = Inr (Some opts)"
    and "list_all2 (program_file fs) (op_programs opts) P"
  shows "follows P (initial_execution P input) s0" and "sy_main s0 = M_Wait"
proof -
  from main_loads [OF assms(1,2)] obtain vm where
    m: "load_programs fs (op_programs opts) (boot opts input) = (Inr (), vm)"
    "s0 = run_system (unat (op_cores opts)) (vf_os vm)" by blast
  have "loaded P input (vf_os vm)" using loaded_programs [OF loaded_boot assms(3) m(1)] by simp
  from loaded_follows [OF this] m(2) show "follows P (initial_execution P input) s0" by simp
  from m(2) show "sy_main s0 = M_Wait" by (simp add: run_system_def)
qed

lemma follows_console:
  "follows P e s \<Longrightarrow> vm_out (sy_machine s) = io_out (ex_console e) \<and> vm_in (sy_machine s) = io_in (ex_console e)"
  by (simp add: follows_def programs_at_def at_console_def)

lemma follows_registers:
  "follows P e s \<Longrightarrow> k < length P \<Longrightarrow> i < 16 \<Longrightarrow>
     reg_get (registers_of k (sy_machine s)) i = Inr (as_reg i (fst (ex_states e ! k)))"
  by (rule at_state_reg [where sts = "P ! k"]) (simp_all add: follows_def programs_at_def)

lemma follows_data:
  assumes "follows P e s" and "k < length P" and "j < data_size (P ! k)"
  shows "process_memory k (\<lambda>l. readDataByte l (of_nat j)) (sy_machine s) =
    (Inr (as_data (fst (ex_states e ! k)) j), sy_machine s)"
proof (rule at_state_byte [OF _ assms(3)])
  show "at_state (P ! k) k (fst (ex_states e ! k)) (sy_machine s)"
    using assms(1,2) by (simp add: follows_def programs_at_def)
  show "data_size (P ! k) < 2 ^ 32"
    using assms(1,2) programs_ok_nth [of P k] by (simp add: follows_def program_small_def)
qed

lemma follows_finished:
  assumes "follows P e s" and "sy_main s \<noteq> M_Wait" and "\<not> terminated (sy_cores s)" and "k < length P"
  shows "\<not> snd (ex_states e ! k)"
proof -
  have "sys_inv s" and "programs_at P e (sy_machine s)" using assms(1) by (simp_all add: follows_def)
  then have "ended (sy_machine s) k"
    using sys_inv_halted [OF _ assms(2)] assms(4) by (simp add: all_halted_def ended_def programs_at_def)
  moreover have "runs_on P e s" using assms(1) follows_alive [OF assms(1,3)] by (simp add: follows_def)
  ultimately show ?thesis using assms(4) by (simp add: runs_on_def)
qed

section \<open>Properties\<close>

text \<open>C1: The whole program does what the programs it is given say. Whatever the number of cores, the quantum
  and the interleaving of the threads: in every reachable state the registers and the data of every
  process, the output and the rest of the input are those that the programs reach by executing their
  statements in some order on one console, and the machine ends with an exception exactly when a
  program throws it. Nothing is said of programs that in some such order leave their own code or load
  another program.\<close>

theorem machine_runs_programs:
  assumes "main_program fs input argv0 args = Run s0"
    and "parse_arguments args default_options = Inr (Some opts)"
    and "list_all2 (program_file fs) (op_programs opts) P"
    and "(system_step (os_syscalls fs))\<^sup>*\<^sup>* s0 s"
  shows "\<exists>e. (programs_step P)\<^sup>*\<^sup>* (initial_execution P input) e \<and>
    (leaves_programs P e \<or>
     vm_out (sy_machine s) = io_out (ex_console e) \<and> vm_in (sy_machine s) = io_in (ex_console e) \<and>
     (\<forall>k < length P.
        (\<forall>i < 16. reg_get (registers_of k (sy_machine s)) i = Inr (as_reg i (fst (ex_states e ! k)))) \<and>
        (\<forall>j < data_size (P ! k). process_memory k (\<lambda>l. readDataByte l (of_nat j)) (sy_machine s) =
           (Inr (as_data (fst (ex_states e ! k)) j), sy_machine s))) \<and>
     (\<forall>x. ex_exception e = Some x \<longleftrightarrow> crashed_with s x))"
proof -
  from programs.execution_matched [OF assms(4) main_follows(1) [OF assms(1-3)]] obtain e where
    e: "(programs_step P)\<^sup>*\<^sup>* (initial_execution P input) e" "leaves_programs P e \<or> follows P e s" by blast
  show ?thesis
  proof (cases "leaves_programs P e")
    case False
    with e(2) have f: "follows P e s" by blast
    then have "\<forall>x. ex_exception e = Some x \<longleftrightarrow> crashed_with s x" by (simp add: follows_def)
    with e(1) follows_console [OF f] follows_registers [OF f] follows_data [OF f] show ?thesis by blast
  qed (use e(1) in blast)
qed

text \<open>C2: A run that returns is correct: when \<^verbatim>\<open>run\<close> is over and the programs keep to their code, every
  program has been executed, in some interleaving with the others, from its first instruction to its
  halt or error, no exception was thrown, and the output and the final contents of registers and
  data are those of that execution.\<close>

theorem completed_run_is_correct:
  assumes "main_program fs input argv0 args = Run s0"
    and "parse_arguments args default_options = Inr (Some opts)"
    and "list_all2 (program_file fs) (op_programs opts) P" and "list_all keeps_to_code P"
    and "(system_step (os_syscalls fs))\<^sup>*\<^sup>* s0 s" and "sy_main s = M_Done"
  shows "\<exists>e. (programs_step P)\<^sup>*\<^sup>* (initial_execution P input) e \<and> ex_exception e = None \<and>
    vm_out (sy_machine s) = io_out (ex_console e) \<and>
    (\<forall>k < length P. \<not> snd (ex_states e ! k) \<and>
       (\<forall>i < 16. reg_get (registers_of k (sy_machine s)) i = Inr (as_reg i (fst (ex_states e ! k)))) \<and>
       (\<forall>j < data_size (P ! k). process_memory k (\<lambda>l. readDataByte l (of_nat j)) (sy_machine s) =
          (Inr (as_data (fst (ex_states e ! k)) j), sy_machine s)))"
proof -
  note start = main_follows [OF assms(1-3)]
  have closed: "list_all (\<lambda>sts. program_small sts \<and> keeps_to_code sts) P"
    using start(1) assms(4) by (auto simp: follows_def programs_ok_def list_all_iff)
  from programs.execution_matched [OF assms(5) start(1)] obtain e where
    e: "(programs_step P)\<^sup>*\<^sup>* (initial_execution P input) e" "leaves_programs P e \<or> follows P e s" by blast
  with programs_never_leave [OF e(1) closed] have f: "follows P e s" by blast
  have stopped: "sy_main s \<noteq> M_Wait" using assms(6) by simp
  have alive: "\<not> terminated (sy_cores s)"
    using stopped_alive [OF assms(5) _ start(2) stopped] start(1) by (simp add: follows_def)
  from e(1) follows_alive [OF f alive] follows_console [OF f] follows_registers [OF f] follows_data [OF f]
    follows_finished [OF f stopped alive] show ?thesis by blast
qed

section \<open>Witnesses\<close>

text \<open>One core runs one program that halts at once, and the main thread shuts the machine down.\<close>

lemma ready_process_acquired:
  assumes "machine_ok m" and "sch_running (vm_sched m)" and "k < length (processes m)" and "p_state (processes m ! k) = Ready"
  obtains i s where "acquireProcess (sched_view m) = Some (Some i, s)" and "i < length (processes m)"
proof -
  have inv: "sched_inv (sched_view m)" using assms(1) by (simp add: machine_ok_def)
  then have "p_id (processes m ! k) \<in> set (readyQueue (vm_sched m))"
    using assms(3,4) ready_idsI [of k "processes m"] by (auto simp: sched_inv_def all_queued_def sched_view_def)
  then obtain pid queue where "readyQueue (vm_sched m) = pid # queue" by (cases "readyQueue (vm_sched m)") auto
  moreover have "sched_ok (vm_sched m, processes m)" using inv by (simp add: sched_inv_def sched_view_def)
  ultimately show ?thesis using acquire_head [OF _ assms(2)] that by (fastforce simp: sched_view_def)
qed

lemma one_core_halts:
  assumes "loaded [sts] input m" and "sch_running (vm_sched m)"
    and "assembly_step sts (initial_state sts 0, \<lparr>io_out = [], io_in = input\<rparr>) = Some (Inr ER_Halt, a, io)"
  shows "\<exists>s. (system_step (os_syscalls fs))\<^sup>*\<^sup>* (run_system 1 m) s \<and> sy_main s = M_Done"
proof -
  let ?R = "(system_step (os_syscalls fs))\<^sup>*\<^sup>*" and ?m = "on_scheduler notifyProcessReady m"
  let ?e = "initial_execution [sts] input"
  have rdy: "ready_to_run m" and at: "programs_at [sts] ?e m" and okP: "programs_ok [sts]" and live: "\<not> ended m 0"
    using assms(1) by (simp_all add: loaded_def)
  have len: "length (processes m) = 1" using at by (simp add: programs_at_def)
  have st: "p_state (processes m ! 0) = Ready"
    using rdy live len by (cases "p_state (processes m ! 0)") (auto simp: ready_to_run_def ended_def)
  have ok: "machine_ok ?m" using rdy by (simp add: ready_to_run_def notify_machine_ok)
  have ps: "processes ?m = processes m" by (simp add: processes_on_scheduler)
  have run: "sch_running (vm_sched ?m)"
    using assms(2) by (simp add: on_scheduler_put put_sched_def notifyProcessReady_def sched_view_def)
  obtain i s where "acquireProcess (sched_view ?m) = Some (Some i, s)" "i < length (processes ?m)"
    using ready_process_acquired [OF ok run, of 0] ps len st by auto
  then have acq: "acquireProcess (sched_view ?m) = Some (Some 0, s)" using ps len by simp
  let ?m1 = "put_sched s ?m"
  have "ended ?m1 0 = ended ?m 0"
    using ends_acquire [OF _ acq, of 0] ok by (intro ended_same) (simp add: machine_ok_def)
  then have live1: "\<not> ended ?m1 0" using live by (simp add: ended_def ps)
  have at1: "programs_at [sts] ?e ?m1"
    by (rule programs_at_quiet [OF programs_at_quiet [OF at quiet_scheduler(1)] quiet_acquire [OF acq]])
  obtain q m2 where ex: "executeInstruction (os_syscalls fs) 0 ?m1 = (q, m2)" by (metis prod.exhaust)
  from programs_at_step [OF at1 okP, of 0, OF _ _ ex, of "Inr ER_Halt" a io False] assms(3)
  have q: "q = Inr ER_Halt" and at2: "length (processes m2) = 1" by (simp_all add: programs_at_def)
  let ?m3 = "on_process 0 (setState Halted) m2"
  let ?m4 = "releaseProcess 0 False ?m3"
  have "run_system 1 m = one_core ?m (C_Head None) False M_Wait" by (simp add: run_system_def one_core_def)
  also have "?R \<dots> (one_core ?m C_Acquire False M_Wait)"
    by (intro r_into_rtranclp one_core_step [where notify = False]) simp_all
  also have "?R \<dots> (one_core ?m1 (C_Check 0) False M_Wait)"
    by (intro r_into_rtranclp one_core_step [where notify = False]) (simp_all add: acq put_acquire split: prod.split)
  also have "?R \<dots> (one_core ?m1 (C_Execute 0) False M_Wait)"
    using live1 by (intro r_into_rtranclp one_core_step [where notify = False]) (simp_all add: ended_def)
  also have "?R \<dots> (one_core m2 (C_Decide 0 ER_Halt) False M_Wait)"
    by (intro r_into_rtranclp one_core_step [where notify = "notifies 0 ?m1"]) (simp_all add: ex q)
  also have "?R \<dots> (one_core ?m3 (C_Release 0 False True) False M_Wait)"
    by (intro r_into_rtranclp one_core_step [where notify = False]) (simp_all add: decide_def)
  also have "?R \<dots> (one_core ?m4 C_Callback False M_Wait)"
    by (intro r_into_rtranclp one_core_step [where notify = True]) simp_all
  also have "?R \<dots> (one_core ?m4 (C_Head None) False M_Wait)"
    by (intro r_into_rtranclp one_core_step [where notify = False]) simp_all
  also have "?R \<dots> (one_core (on_scheduler stop_scheduler ?m4) C_Finished True M_Done)"
  proof (rule one_core_shutdown)
    have "p_state (processes ?m3 ! 0) = Halted" using at2 by (simp add: frame_simps nth_update_process)
    then have "processes ?m4 = processes ?m3" by (simp add: releaseProcess_def processes_on_scheduler)
    with at2 \<open>p_state (processes ?m3 ! 0) = Halted\<close> show "all_halted ?m4" by (simp add: all_halted_def frame_simps)
  qed
  finally show ?thesis by (auto simp: one_core_def)
qed

definition halt_statements :: "statement list" where
  "halt_statements = [Enter Section_Code, Instruction A_halt]"

lemma halt_file: "program_file one_file ''dir/p.asm'' halt_statements"
proof -
  have "lexemes (Lexer (source_lines [''CODE:'', ''halt''])) =
      Inr (program_lexemes 0 [(Enter Section_Code, 1), (Instruction A_halt, 1)])"
    unfolding lexemes_source by code_simp
  moreover have "program_ok halt_statements" "program_small halt_statements"
    by (simp_all add: program_ok_def halt_statements_def labels_ok_def program_small_def)
  ultimately show ?thesis by (fastforce simp: program_file_def one_file_def halt_statements_def)
qed

lemma halt_keeps: "keeps_to_code halt_statements" "program_small halt_statements"
  by (simp_all add: keeps_to_code_def halt_statements_def program_small_def)

text \<open>\<^verbatim>\<open>vm --cores 1 dir/p.asm\<close>\<close>

lemma halt_options:
  "parse_arguments [''--cores'', ''1'', ''dir/p.asm''] default_options =
     Inr (Some (default_options\<lparr>op_cores := 1, op_programs := [''dir/p.asm'']\<rparr>))"
  by (simp add: parsePositiveOption_def std_stoul_def is_space_def is_digit_def digits_val_def digit_val_def
      add_program_def default_options_def)

lemma halt_run:
  "\<exists>s0 s. main_program one_file \<lparr>is_rest = [], is_fail = False\<rparr> ''vm'' [''--cores'', ''1'', ''dir/p.asm''] = Run s0 \<and>
     (system_step (os_syscalls one_file))\<^sup>*\<^sup>* s0 s \<and> sy_main s = M_Done"
proof -
  let ?in = "\<lparr>is_rest = [], is_fail = False\<rparr>"
  let ?opts = "default_options\<lparr>op_cores := 1, op_programs := [''dir/p.asm'']\<rparr>"
  let ?p = "\<lparr>ap_code = [encodeInstruction OP_HALT 0 0 0 0], ap_data = []\<rparr>"
  let ?vm = "\<lambda>m. (boot ?opts ?in)\<lparr>vf_os := m\<rparr>"
  have boot: "vf_os (boot ?opts ?in) = VirtualOS 100 ?in"
    by (simp add: boot_fields default_options_def) (simp add: VirtualOS_def)
  have "image_fits_memory ?p (vm_phys (VirtualOS 100 ?in))"
    by (simp add: image_fits_memory_def PhysicalMemory_def VirtualOS_def)
  from load_image_ok [OF this] obtain l pm where "load_image ?p (vm_phys (VirtualOS 100 ?in)) = (Inr l, pm)" by blast
  from loadProgramFromSource_runs [OF sample_source this] obtain pid m where
    ld: "loadProgramFromSource (source_lines [''CODE:'', ''halt'']) ''p.asm'' (VirtualOS 100 ?in) = (Inr pid, m)" by blast
  moreover have "path_filename ''dir/p.asm'' = ''p.asm''" by (simp add: path_filename_def)
  ultimately have l1: "load_programs one_file [''dir/p.asm''] (boot ?opts ?in) = (Inr (), ?vm m)"
    by (simp add: VirtualMachine_loadProgram_def on_os_def boot loadProgram_def one_file_def vm_run)
  then have main: "main_program one_file ?in ''vm'' [''--cores'', ''1'', ''dir/p.asm''] = Run (run_system 1 m)"
    using main_starts [OF halt_options, of one_file ?in "?vm m" "''vm''"] by (simp add: default_options_def)
  have "loaded [halt_statements] ?in m"
    using loaded_programs [OF loaded_boot _ l1, of "[halt_statements]"] halt_file by simp
  moreover have "sch_running (vm_sched m)"
    using loadProgramFromSource_ok [OF ld] by (auto simp: VirtualOS_def PreemptiveScheduler_def)
  moreover have "assembly_step halt_statements (initial_state halt_statements 0, \<lparr>io_out = [], io_in = ?in\<rparr>) =
      Some (Inr ER_Halt, initial_state halt_statements 0, \<lparr>io_out = [], io_in = ?in\<rparr>)"
    by (simp add: assembly_step_def halt_statements_def initial_state_def)
  ultimately show ?thesis using one_core_halts main by blast
qed

theorem machine_runs_programs_witness:
  "\<exists>s0 s e. main_program one_file \<lparr>is_rest = [], is_fail = False\<rparr> ''vm'' [''--cores'', ''1'', ''dir/p.asm''] = Run s0 \<and>
     (system_step (os_syscalls one_file))\<^sup>*\<^sup>* s0 s \<and> sy_main s = M_Done \<and>
     (programs_step [halt_statements])\<^sup>*\<^sup>* (initial_execution [halt_statements] \<lparr>is_rest = [], is_fail = False\<rparr>) e \<and>
     vm_out (sy_machine s) = io_out (ex_console e) \<and>
     reg_get (registers_of 0 (sy_machine s)) 7 = Inr (as_reg 7 (fst (ex_states e ! 0)))"
proof -
  from halt_run obtain s0 s where
    run: "main_program one_file \<lparr>is_rest = [], is_fail = False\<rparr> ''vm'' [''--cores'', ''1'', ''dir/p.asm''] = Run s0"
      "(system_step (os_syscalls one_file))\<^sup>*\<^sup>* s0 s" "sy_main s = M_Done" by blast
  from machine_runs_programs [OF run(1) halt_options _ run(2), of "[halt_statements]"] halt_file obtain e where
    e: "(programs_step [halt_statements])\<^sup>*\<^sup>* (initial_execution [halt_statements] \<lparr>is_rest = [], is_fail = False\<rparr>) e"
      "leaves_programs [halt_statements] e \<or> vm_out (sy_machine s) = io_out (ex_console e) \<and>
        reg_get (registers_of 0 (sy_machine s)) 7 = Inr (as_reg 7 (fst (ex_states e ! 0)))" by fastforce
  moreover have "\<not> leaves_programs [halt_statements] e"
    using programs_never_leave [OF e(1)] halt_keeps by simp
  ultimately show ?thesis using run by blast
qed

theorem completed_run_is_correct_witness:
  "\<exists>s0 s e. main_program one_file \<lparr>is_rest = [], is_fail = False\<rparr> ''vm'' [''--cores'', ''1'', ''dir/p.asm''] = Run s0 \<and>
     (system_step (os_syscalls one_file))\<^sup>*\<^sup>* s0 s \<and> sy_main s = M_Done \<and>
     (programs_step [halt_statements])\<^sup>*\<^sup>* (initial_execution [halt_statements] \<lparr>is_rest = [], is_fail = False\<rparr>) e \<and>
     \<not> snd (ex_states e ! 0)"
proof -
  from halt_run obtain s0 s where
    run: "main_program one_file \<lparr>is_rest = [], is_fail = False\<rparr> ''vm'' [''--cores'', ''1'', ''dir/p.asm''] = Run s0"
      "(system_step (os_syscalls one_file))\<^sup>*\<^sup>* s0 s" "sy_main s = M_Done" by blast
  from completed_run_is_correct [OF run(1) halt_options _ _ run(2,3), of "[halt_statements]"] halt_file halt_keeps
  obtain e where "(programs_step [halt_statements])\<^sup>*\<^sup>* (initial_execution [halt_statements] \<lparr>is_rest = [], is_fail = False\<rparr>) e"
    "\<not> snd (ex_states e ! 0)" by fastforce
  with run show ?thesis by blast
qed

end
