(* ===== verification/Tracing.thy ===== *)
theory Tracing
  imports System_Execution
begin

text \<open>
  Tracing observes and does not interfere. What an instruction does and what the threads do depends on a part of
  the machine, its visible state, from which the tracer, the error stream and the calls of tracers are missing; so runs
  with different tracers stay in step. What a tracer is told is the instruction with the state before it.
\<close>

section \<open>Computations that depend on a view\<close>

definition same_outcome :: "('s \<Rightarrow> 'v) \<Rightarrow> 'r \<times> 's \<Rightarrow> 'r \<times> 's \<Rightarrow> bool" where
  "same_outcome view x y \<longleftrightarrow> fst x = fst y \<and> view (snd x) = view (snd y)"

definition oblivious :: "('s \<Rightarrow> 'v) \<Rightarrow> ('s, 'a) vm \<Rightarrow> bool" where
  "oblivious view op \<longleftrightarrow> (\<forall>s t. view s = view t \<longrightarrow> same_outcome view (op s) (op t))"

lemma obliviousI: "(\<And>s t. view s = view t \<Longrightarrow> same_outcome view (op s) (op t)) \<Longrightarrow> oblivious view op"
  unfolding oblivious_def by blast

lemma obliviousD:
  assumes "oblivious view op" and "view s = view t" and "op s = (r, s')"
  shows "\<exists>t'. op t = (r, t') \<and> view s' = view t'"
proof -
  have "same_outcome view (op s) (op t)" using assms(1,2) unfolding oblivious_def by blast
  with assms(3) show ?thesis by (cases "op t") (simp add: same_outcome_def)
qed

lemma oblivious_return: "oblivious view (vreturn a)"
  by (rule obliviousI) (simp add: same_outcome_def vreturn_def)

lemma oblivious_throw: "oblivious view (vthrow e)"
  by (rule obliviousI) (simp add: same_outcome_def vthrow_def)

lemma oblivious_read: "oblivious view (vread (\<lambda>_. r))"
  by (rule obliviousI) (simp add: same_outcome_def vread_def)

lemma oblivious_gets:
  assumes "\<And>s t. view s = view t \<Longrightarrow> f t = f s"
  shows "oblivious view (vgets f)"
proof (rule obliviousI)
  fix s t
  assume v: "view s = view t"
  from v assms [OF v] show "same_outcome view (vgets f s) (vgets f t)" by (simp add: same_outcome_def vgets_def)
qed

lemma oblivious_modify:
  assumes "\<And>s t. view s = view t \<Longrightarrow> view (f s) = view (f t)"
  shows "oblivious view (vmodify f)"
proof (rule obliviousI)
  fix s t
  assume v: "view s = view t"
  from assms [OF v] show "same_outcome view (vmodify f s) (vmodify f t)" by (simp add: same_outcome_def vmodify_def)
qed

lemma oblivious_bind:
  assumes "oblivious view m" and "\<And>a. oblivious view (f a)"
  shows "oblivious view (vbind m f)"
proof (rule obliviousI)
  fix s t
  assume v: "view s = view t"
  obtain r s' where s: "m s = (r, s')" by (cases "m s")
  from obliviousD [OF assms(1) v s] obtain t' where t: "m t = (r, t')" "view s' = view t'" by blast
  have "same_outcome view (f a s') (f a t')" for a using assms(2) t(2) unfolding oblivious_def by blast
  with s t show "same_outcome view (vbind m f s) (vbind m f t)"
    by (cases r) (simp_all add: vbind_def same_outcome_def)
qed

lemma oblivious_seq: "oblivious view m \<Longrightarrow> oblivious view k \<Longrightarrow> oblivious view (vseq m k)"
  unfolding vseq_def by (rule oblivious_bind)

lemma oblivious_if: "oblivious view m \<Longrightarrow> oblivious view k \<Longrightarrow> oblivious view (if b then m else k)"
  by simp

lemmas oblivious_intros =
  oblivious_return oblivious_throw oblivious_read oblivious_bind oblivious_seq oblivious_if

section \<open>The visible state\<close>

definition visible :: "machine \<Rightarrow> phys_mem \<times> process_table \<times> scheduler \<times> string \<times> input_stream" where
  "visible m = (vm_phys m, vm_table m, vm_sched m, vm_out m, vm_in m)"

lemma visible_parts:
  assumes "visible m = visible t"
  shows "vm_phys t = vm_phys m" "vm_table t = vm_table m" "vm_sched t = vm_sched m" "vm_out t = vm_out m"
    "vm_in t = vm_in m" "processes t = processes m" "sched_view t = sched_view m" "registers_of i t = registers_of i m"
    "execution_context i t = execution_context i m" "fetched i t = fetched i m"
  using assms
  by (simp_all add: visible_def processes_def sched_view_def registers_of_def execution_context_def fetched_def)

lemma visible_updates:
  assumes "visible m = visible t"
  shows "visible (on_process i f m) = visible (on_process i f t)"
    "visible (on_scheduler g m) = visible (on_scheduler g t)"
    "visible (put_sched s m) = visible (put_sched s t)"
    "visible (m\<lparr>vm_phys := p\<rparr>) = visible (t\<lparr>vm_phys := p\<rparr>)"
    "visible (m\<lparr>vm_table := tb\<rparr>) = visible (t\<lparr>vm_table := tb\<rparr>)"
    "visible (m\<lparr>vm_out := vm_out m @ out\<rparr>) = visible (t\<lparr>vm_out := vm_out t @ out\<rparr>)"
    "visible (m\<lparr>vm_in := inp\<rparr>) = visible (t\<lparr>vm_in := inp\<rparr>)"
  using visible_parts [OF assms] by (simp_all add: on_process_def on_scheduler_put put_sched_def visible_def)

lemma visible_invisible [simp]:
  "visible (m\<lparr>vm_err := e\<rparr>) = visible m" "visible (onInstruction t pid pc insn regs m) = visible m"
  "visible (os_setTracer tr m) = visible m"
  by (simp_all add: visible_def os_setTracer_def)

lemma oblivious_process: "oblivious visible (vmodify (on_process i f))"
  by (rule oblivious_modify) (rule visible_updates)

lemma oblivious_scheduler: "oblivious visible (vmodify (on_scheduler f))"
  by (rule oblivious_modify) (rule visible_updates)

lemma oblivious_streams:
  "oblivious visible (vmodify (\<lambda>m. m\<lparr>vm_out := vm_out m @ out\<rparr>))"
  "oblivious visible (vmodify (\<lambda>m. m\<lparr>vm_in := inp\<rparr>))"
  "oblivious visible (vgets (\<lambda>m. extract_word (vm_in m)))"
  by (rule oblivious_modify, erule visible_updates)+ (rule oblivious_gets, drule visible_parts(5), simp)

lemma oblivious_fields:
  "oblivious visible (vgets (\<lambda>m. rf_pc (registers_of i m)))" "oblivious visible (vgets (\<lambda>m. p_id (processes m ! i)))"
  by (rule oblivious_gets, rule arg_cong [of _ _ rf_pc], erule visible_parts)
    (rule oblivious_gets, drule visible_parts(6), simp)

lemma oblivious_memory: "oblivious visible (process_memory i op)"
proof (rule obliviousI)
  fix s t
  assume v: "visible s = visible t"
  show "same_outcome visible (process_memory i op s) (process_memory i op t)"
    using visible_parts [OF v] visible_updates(4) [OF v]
    by (simp add: process_memory_def same_outcome_def split: prod.split)
qed

lemma oblivious_phys: "oblivious visible (on_phys op)"
proof (rule obliviousI)
  fix s t
  assume v: "visible s = visible t"
  show "same_outcome visible (on_phys op s) (on_phys op t)"
    using visible_parts [OF v] visible_updates(4) [OF v] by (simp add: on_phys_def same_outcome_def split: prod.split)
qed

lemma oblivious_add_process: "oblivious visible (add_process name l)"
proof (rule obliviousI)
  fix s t
  assume v: "visible s = visible t"
  show "same_outcome visible (add_process name l s) (add_process name l t)"
    using visible_parts [OF v] visible_updates(5) [OF v]
    by (simp add: add_process_def same_outcome_def split: prod.split)
qed

lemma oblivious_handler: "oblivious visible (run_handler i insn)"
proof (rule obliviousI)
  fix s t
  assume v: "visible s = visible t"
  have "visible (write_context i c s) = visible (write_context i c t)" for c
    unfolding write_context_def by (rule visible_updates, rule visible_updates, rule v)
  with visible_parts [OF v] show "same_outcome visible (run_handler i insn s) (run_handler i insn t)"
    by (simp add: run_handler_def same_outcome_def split: prod.split)
qed

lemma oblivious_trace: "oblivious visible (trace_instruction i pc insn)"
  unfolding trace_instruction_def
  by (rule oblivious_modify) (simp split: option.split)

lemma oblivious_context: "oblivious visible (on_process_context i f)"
  unfolding on_process_context_def by (rule oblivious_process)

lemma oblivious_read_path: "oblivious visible (read_path n i a)"
  by (induction n arbitrary: a) (auto intro!: oblivious_intros oblivious_memory)

lemma oblivious_load: "oblivious visible (loadProgram fs path)"
proof (cases "fs path")
  case None
  then show ?thesis by (simp add: loadProgram_def oblivious_throw)
next
  case (Some source)
  have "oblivious visible (loadProgramFromSource source name)" for name
    unfolding loadProgramFromSource_def createProcess_def lift_result_def
    by (intro oblivious_intros oblivious_phys oblivious_add_process oblivious_process oblivious_scheduler oblivious_fields)
  with Some show ?thesis by (simp add: loadProgram_def)
qed

lemma oblivious_syscall: "oblivious visible (os_syscalls fs sc i a)"
  unfolding os_syscalls_def
proof (cases sc)
  case SYS_Scan
  then show "oblivious visible (handle_syscall (Some (loadProgram fs)) sc i a)"
    unfolding SYS_Scan handle_syscall.simps syscall_scan_def
    by (auto intro!: oblivious_bind [OF oblivious_streams(3)] oblivious_intros oblivious_memory oblivious_streams)
qed (auto simp: syscall_exit_def syscall_yield_def syscall_print_def syscall_load_def
      intro!: oblivious_intros oblivious_process oblivious_memory oblivious_read_path oblivious_load oblivious_streams)

lemma oblivious_instruction: "oblivious visible (executeInstruction (os_syscalls fs) i)"
  unfolding executeInstruction_def execute_call_def Let_def
  by (intro oblivious_intros oblivious_memory oblivious_trace oblivious_syscall oblivious_context oblivious_handler
      oblivious_fields)

section \<open>Systems in step\<close>

lemma decide_visible:
  assumes v: "visible m = visible t" and "decide i r m = (l, m')"
  shows "\<exists>t'. decide i r t = (l, t') \<and> visible m' = visible t'"
proof -
  have e: "visible (m\<lparr>vm_err := a\<rparr>) = visible (t\<lparr>vm_err := b\<rparr>)" for a b using v by simp
  show ?thesis
    using assms(2) visible_parts(6) [OF v] v visible_updates(1) [OF v] visible_updates(1) [OF e]
    by (simp add: decide_def Let_def split: if_splits) blast+
qed

lemma release_visible:
  assumes v: "visible m = visible t"
  shows "visible (releaseProcess i p m) = visible (releaseProcess i p t)"
  using visible_parts(6) [OF v] visible_updates(2) [OF v] visible_updates(2) [OF visible_updates(1) [OF v]]
  by (simp add: releaseProcess_def)

lemma core_step_visible:
  assumes v: "visible m = visible t" and "core_step (os_syscalls fs) stop l m = Some (l', m', notify)"
  shows "\<exists>t'. core_step (os_syscalls fs) stop l t = Some (l', t', notify) \<and> visible m' = visible t'"
proof (cases l)
  case C_Acquire
  have "visible (m\<lparr>vm_sched := sch, vm_table := (vm_table m)\<lparr>pt_processes := ps\<rparr>\<rparr>) =
      visible (t\<lparr>vm_sched := sch, vm_table := (vm_table t)\<lparr>pt_processes := ps\<rparr>\<rparr>)" for sch ps
    using visible_updates(3) [OF v, of "(sch, ps)"] by (simp add: put_sched_def)
  with C_Acquire assms(2) v show ?thesis
    by (auto simp: visible_parts [OF v] split: option.splits)
next
  case (C_Execute i)
  obtain r m1 where x: "executeInstruction (os_syscalls fs) i m = (r, m1)" by (metis prod.exhaust)
  from obliviousD [OF oblivious_instruction v x] obtain t1 where
    t1: "executeInstruction (os_syscalls fs) i t = (r, t1)" "visible m1 = visible t1" by blast
  have "notifies i t = notifies i m" using visible_parts [OF v] by (simp add: notifies_def)
  with C_Execute assms(2) x t1 show ?thesis by (cases r) auto
next
  case (C_Decide i r)
  obtain k m1 where "decide i r m = (k, m1)" by (metis prod.exhaust)
  with decide_visible [OF v this] C_Decide assms(2) show ?thesis by auto
next
  case (C_Release i p cb)
  with assms release_visible [OF v] show ?thesis by auto
qed (use assms visible_updates(2) [OF v] visible_parts(6) [OF v] in \<open>auto simp: onCoreIdle_def split: if_splits option.splits\<close>)

definition in_step :: "system \<Rightarrow> system \<Rightarrow> bool" where
  "in_step s t \<longleftrightarrow> sy_cores t = sy_cores s \<and> sy_main t = sy_main s \<and> visible (sy_machine s) = visible (sy_machine t)"

lemma in_stepI: "system_step syscalls t t' \<Longrightarrow> in_step s' t' \<Longrightarrow> \<exists>t'. system_step syscalls t t' \<and> in_step s' t'"
  by blast

lemma in_step_step:
  assumes "in_step s t" and "system_step (os_syscalls fs) s s'"
  shows "\<exists>t'. system_step (os_syscalls fs) t t' \<and> in_step s' t'"
proof -
  have v: "visible (sy_machine s) = visible (sy_machine t)" and e: "sy_cores t = sy_cores s" "sy_main t = sy_main s"
    using assms(1) by (simp_all add: in_step_def)
  note steps = system_step.intros(2-) [where s = t and syscalls = "os_syscalls fs", unfolded e]
  from assms(2) show ?thesis
  proof (cases rule: system_step.cases)
    case (core_moves c l' m' notify)
    from core_step_visible [OF v core_moves(5)] obtain t' where
      t': "core_step (os_syscalls fs) (co_stopRequested (sy_cores s ! c)) (co_label (sy_cores s ! c)) (sy_machine t) =
        Some (l', t', notify)" "visible m' = visible t'" by blast
    from system_step.core_moves [of t c "os_syscalls fs", unfolded e, OF core_moves(2-4) t'(1)]
    show ?thesis by (rule in_stepI) (use core_moves(1) t'(2) e in \<open>simp_all add: in_step_def\<close>)
  next
    case main_wakes
    have "allHalted (vm_table (sy_machine t))" using main_wakes(4) visible_parts(2) [OF v] by simp
    from steps(1) [OF main_wakes(2,3) this] show ?thesis
      by (rule in_stepI) (use main_wakes(1) v e in \<open>simp_all add: in_step_def\<close>)
  next
    case main_stops
    from steps(2) [OF main_stops(2,3)] show ?thesis
      by (rule in_stepI) (use main_stops(1) visible_updates(2) [OF v] e in \<open>simp_all add: in_step_def\<close>)
  next
    case main_notifies
    from steps(3) [OF main_notifies(2,3)] show ?thesis
      by (rule in_stepI) (use main_notifies(1) v e in \<open>simp_all add: in_step_def\<close>)
  next
    case (main_flags c)
    from steps(4) [OF main_flags(2-4)] show ?thesis
      by (rule in_stepI) (use main_flags(1) v e in \<open>simp_all add: in_step_def\<close>)
  next
    case main_flagged
    from steps(5) [OF main_flagged(2,3)] show ?thesis
      by (rule in_stepI) (use main_flagged(1) v e in \<open>simp_all add: in_step_def\<close>)
  next
    case (main_joins c)
    from steps(6) [OF main_joins(2-5)] show ?thesis
      by (rule in_stepI) (use main_joins(1) v e in \<open>simp_all add: in_step_def\<close>)
  next
    case main_done
    from steps(7) [OF main_done(2,3)] show ?thesis
      by (rule in_stepI) (use main_done(1) v e in \<open>simp_all add: in_step_def\<close>)
  qed
qed

section \<open>What is reported\<close>

text \<open>Reports are made by the call of the tracer only; nothing else touches them, and the tracer stays.\<close>

definition unreported :: "machine \<Rightarrow> machine \<Rightarrow> bool" where
  "unreported m m' \<longleftrightarrow> vm_tracer m' = vm_tracer m \<and> vm_calls m' = vm_calls m \<and> vm_err m' = vm_err m"

interpretation unrep_fr: frame_relation unreported
  by unfold_locales (simp_all add: unreported_def)

lemma unreported_updates:
  "unreported m (on_process i f m)" "unreported m (on_scheduler g m)" "unreported m (put_sched s m)"
  "unreported m (m\<lparr>vm_phys := p\<rparr>)" "unreported m (m\<lparr>vm_table := tb\<rparr>)" "unreported m (m\<lparr>vm_out := out\<rparr>)"
  "unreported m (m\<lparr>vm_in := inp\<rparr>)"
  by (simp_all add: unreported_def on_process_def on_scheduler_put put_sched_def)

lemma unreported_memory: "respecting unreported (process_memory i op)" "respecting unreported (on_phys op')"
  by (rule respectsI, simp add: process_memory_def on_phys_def unreported_updates split: prod.split)+

lemma unreported_read_path: "respecting unreported (read_path n i a)"
  by (induction n arbitrary: a) (auto intro!: unrep_fr.respects_intros unreported_memory)

lemma unreported_add: "respecting unreported (add_process name l)"
  by (rule respectsI) (simp add: add_process_def unreported_updates split: prod.split)

lemma unreported_load_source: "respecting unreported (loadProgramFromSource source name)"
  unfolding loadProgramFromSource_def createProcess_def lift_result_def
  by (intro unrep_fr.respects_intros unreported_memory unreported_add respects_modify unreported_updates)

lemma unreported_load: "respecting unreported (loadProgram fs path)"
  by (auto simp: loadProgram_def intro: unreported_load_source unrep_fr.respects_throw split: option.split)

lemma unreported_syscall: "respecting unreported (os_syscalls fs sc i a)"
  unfolding os_syscalls_def
  by (cases sc)
    (auto simp: syscall_exit_def syscall_yield_def syscall_print_def syscall_scan_def syscall_load_def split: prod.split
      intro!: unrep_fr.respects_intros unreported_memory unreported_read_path unreported_load respects_modify
        unreported_updates)

lemma unreported_handler: "respecting unreported (run_handler i insn)"
  by (rule respectsI) (simp add: run_handler_def write_context_def unreported_def on_process_def split: prod.split)

lemma unreported_context: "respecting unreported (on_process_context i f)"
  unfolding on_process_context_def by (intro respects_modify unreported_updates)

lemma unreported_fetched: "respecting unreported (execute_fetched (os_syscalls fs) i insn)"
  unfolding execute_fetched_def execute_call_def Let_def
  by (intro unrep_fr.respects_intros unreported_syscall unreported_context unreported_handler)

definition trace_event :: "pcb_ref \<Rightarrow> decoded_instruction \<Rightarrow> machine \<Rightarrow> trace_event" where
  "trace_event i insn m =
    \<lparr>te_pid = p_id (processes m ! i), te_pc = rf_pc (registers_of i m), te_instruction = insn,
     te_registers = registers_of i m\<rparr>"

lemma instruction_reports:
  assumes "executeInstruction (os_syscalls fs) i m = (r, m')"
  shows "vm_tracer m' = vm_tracer m \<and>
    vm_calls m' = vm_calls m @ (case (vm_tracer m, fetched i m) of
      (Some (ClientTracer k), Some insn) \<Rightarrow> [(k, trace_event i insn m)] | _ \<Rightarrow> []) \<and>
    vm_err m' = vm_err m @ (case (vm_tracer m, fetched i m) of
      (Some StdoutTracer, Some insn) \<Rightarrow>
        trace_line (p_id (processes m ! i)) (rf_pc (registers_of i m)) insn (registers_of i m) | _ \<Rightarrow> [])"
proof (cases "fetched i m")
  case None
  with executeInstruction_fetched(2) [OF None, of "os_syscalls fs"] assms show ?thesis
    by (auto split: option.split tracer.split)
next
  case (Some insn)
  let ?t = "snd (trace_instruction i (rf_pc (registers_of i m)) insn m)"
  have "execute_fetched (os_syscalls fs) i insn ?t = (r, m')"
    using assms executeInstruction_fetched(1) [OF Some, of "os_syscalls fs"] by (simp add: trace_instruction_def vm_run)
  with unreported_fetched have "unreported ?t m'" by (rule respectsD)
  with Some show ?thesis
    by (auto simp: unreported_def trace_instruction_def trace_event_def vm_run split: option.split tracer.split)
qed

lemma core_step_reports:
  assumes "core_step (os_syscalls fs) stop l m = Some (l', m', notify)"
  shows "vm_tracer m' = vm_tracer m \<and>
    vm_calls m' = vm_calls m @ (case l of
      C_Execute i \<Rightarrow> (case (vm_tracer m, fetched i m) of
        (Some (ClientTracer k), Some insn) \<Rightarrow> [(k, trace_event i insn m)] | _ \<Rightarrow> []) | _ \<Rightarrow> [])"
proof (cases l)
  case C_Acquire
  with assms show ?thesis by (auto simp: put_sched_def split: option.splits)
next
  case (C_Execute i)
  obtain r m1 where "executeInstruction (os_syscalls fs) i m = (r, m1)" by (metis prod.exhaust)
  with C_Execute assms instruction_reports [OF this] show ?thesis by (cases r) auto
next
  case (C_Decide i r)
  with assms show ?thesis by (auto simp: decide_def Let_def on_process_def split: if_splits)
next
  case (C_Release i p cb)
  with assms show ?thesis by (auto simp: releaseProcess_def on_scheduler_put put_sched_def on_process_def)
qed (use assms in \<open>auto simp: onCoreIdle_def on_scheduler_put put_sched_def split: if_splits option.splits\<close>)

lemma system_step_tracer: "system_step (os_syscalls fs) s s' \<Longrightarrow> vm_tracer (sy_machine s') = vm_tracer (sy_machine s)"
  by (induction rule: system_step.induct) (auto simp: on_scheduler_put put_sched_def dest: core_step_reports)

section \<open>Properties\<close>

text \<open>The events of a step: what a core has fetched and executed in it.\<close>

definition executed_by :: "system \<Rightarrow> system \<Rightarrow> nat \<Rightarrow> trace_event list" where
  "executed_by s s' c =
    (case label_of s c of
       C_Execute i \<Rightarrow> (if label_of s' c = C_Execute i then []
         else case fetched i (sy_machine s) of Some insn \<Rightarrow> [trace_event i insn (sy_machine s)] | None \<Rightarrow> [])
     | _ \<Rightarrow> [])"

lemma concat_map_Nil: "(\<And>d. d < n \<Longrightarrow> f d = []) \<Longrightarrow> concat (map f [0..<n]) = []"
  by (induction n) simp_all

lemma concat_single:
  "c < n \<Longrightarrow> (\<And>d. d < n \<Longrightarrow> d \<noteq> c \<Longrightarrow> f d = []) \<Longrightarrow> concat (map f [0..<n]) = f c"
proof (induction n)
  case (Suc n)
  show ?case
  proof (cases "c = n")
    case True
    with Suc.prems(2) concat_map_Nil [of n f] show ?thesis by simp
  next
    case False
    with Suc show ?thesis by simp
  qed
qed simp

text \<open>C10: Tracing does not interfere. Whatever tracers are installed, the machines that differ only in that, in the error
  stream and in the calls of tracers can go through the same states: for each reachable state of the one there is a
  reachable state of the other with the same cores, the same position of the main thread, and the same memory,
  processes, scheduler, output and input.\<close>

theorem tracing_does_not_interfere:
  assumes "reachable (os_syscalls fs) n m s" and "visible m = visible t"
  shows "\<exists>s'. reachable (os_syscalls fs) n t s' \<and> sy_cores s' = sy_cores s \<and> sy_main s' = sy_main s \<and>
    visible (sy_machine s') = visible (sy_machine s)"
proof -
  have start: "in_step (run_system n m) (run_system n t)"
    using visible_updates(2) [OF assms(2)] by (simp add: in_step_def run_system_def)
  from assms(1) have "\<exists>s'. reachable (os_syscalls fs) n t s' \<and> in_step s s'"
    unfolding reachable_def
  proof (induction rule: rtranclp_induct)
    case base
    show ?case using start by blast
  next
    case (step u v)
    then obtain u' where "(system_step (os_syscalls fs))\<^sup>*\<^sup>* (run_system n t) u'" "in_step u u'" by blast
    with in_step_step [OF this(2) step.hyps(2)] show ?case by (meson rtranclp.rtrancl_into_rtrancl)
  qed
  then show ?thesis unfolding in_step_def by force
qed

text \<open>C18: A tracer of a client is told exactly what is executed. In every step of the system it gets one call for the
  instruction that a core has fetched and executed in that step, if there is one, even if it throws: with the
  identifier of the process, the address, the instruction, and the registers before the execution. No step
  changes the tracer.\<close>

theorem client_tracer_is_told:
  assumes "system_step (os_syscalls fs) s s'" and "vm_tracer (sy_machine s) = Some (ClientTracer k)"
  shows "vm_tracer (sy_machine s') = Some (ClientTracer k) \<and>
    vm_calls (sy_machine s') = vm_calls (sy_machine s) @
      map (Pair k) (concat (map (executed_by s s') [0..<length (sy_cores s)]))"
  using assms
proof (cases rule: system_step.cases)
  case (core_moves c l' m' notify)
  let ?m = "sy_machine s"
  have label: "label_of s' d = (if d = c then l' else if label_of s d = C_Sleeping \<and> notify then C_Acquire else label_of s d)"
    if "d < length (sy_cores s)" for d
    using that core_moves(1) by (auto simp: label_of_def wake_def nth_list_update)
  have "executed_by s s' d = []" if "d < length (sy_cores s)" "d \<noteq> c" for d
    using label [OF that(1)] that(2) by (auto simp: executed_by_def split: core_label.split)
  with core_moves(3) have "concat (map (executed_by s s') [0..<length (sy_cores s)]) = executed_by s s' c"
    by (rule concat_single)
  moreover have "l' \<noteq> C_Execute i" if "label_of s c = C_Execute i" for i
    using core_moves(5) that by (auto simp: label_of_def split: prod.splits sum.splits)
  then have "executed_by s s' c = (case label_of s c of
      C_Execute i \<Rightarrow> (case fetched i ?m of Some insn \<Rightarrow> [trace_event i insn ?m] | None \<Rightarrow> []) | _ \<Rightarrow> [])"
    using label [OF core_moves(3)] by (auto simp: executed_by_def split: core_label.split)
  ultimately show ?thesis
    using core_step_reports [OF core_moves(5)] assms(2) core_moves(1)
    by (auto simp: label_of_def split: core_label.split option.split)
qed (auto simp: executed_by_def label_of_def on_scheduler_put put_sched_def wake_def nth_list_update concat_map_Nil
    split: core_label.split)

section \<open>Witnesses\<close>

text \<open>The program \<^verbatim>\<open>halt\<close> with a tracer of a client.\<close>

theorem tracing_does_not_interfere_witness:
  "\<exists>n m s'. map p_name (processes m) = [''p.asm''] \<and>
     reachable (os_syscalls one_file) n (os_setTracer (Some (ClientTracer 7)) m) s' \<and> sy_main s' = M_Done"
proof -
  let ?in = "\<lparr>is_rest = [], is_fail = False\<rparr>" and ?args = "[''--cores'', ''1'', ''dir/p.asm'']"
  from halt_run obtain s0 s where s: "main_program one_file ?in ''vm'' ?args = Run s0"
    "(system_step (os_syscalls one_file))\<^sup>*\<^sup>* s0 s" "sy_main s = M_Done" by blast
  from main_runs [OF s(1)] obtain opts m where o: "parse_arguments ?args default_options = Inr (Some opts)"
    "s0 = run_system (unat (op_cores opts)) m" "map p_name (processes m) = map path_filename (op_programs opts)" by blast
  have "op_programs opts = [''dir/p.asm'']" using o(1) unfolding halt_options by (auto simp: default_options_def)
  then have "map p_name (processes m) = [''p.asm'']" using o(3) by (simp add: path_filename_def)
  moreover have "reachable (os_syscalls one_file) (unat (op_cores opts)) m s" using s(2) o(2) by (simp add: reachable_def)
  from tracing_does_not_interfere [OF this, of "os_setTracer (Some (ClientTracer 7)) m"] s(3)
  obtain s' where "reachable (os_syscalls one_file) (unat (op_cores opts)) (os_setTracer (Some (ClientTracer 7)) m) s'"
    "sy_main s' = M_Done" by auto
  ultimately show ?thesis by (intro exI conjI)
qed

theorem client_tracer_is_told_witness:
  "\<exists>s'. system_step (os_syscalls one_file) (one_core (os_setTracer (Some (ClientTracer 7))
         (sample_machine (encodeInstruction OP_HALT 0 0 0 0))) (C_Execute 0) False M_Wait) s' \<and>
     map (\<lambda>(k, e). (k, te_pid e, te_pc e, d_opcode (te_instruction e))) (vm_calls (sy_machine s')) = [(7, 1, 0, OP_HALT)]"
proof -
  let ?raw = "encodeInstruction OP_HALT 0 0 0 0"
  let ?m = "os_setTracer (Some (ClientTracer 7)) (sample_machine ?raw)"
  let ?s = "one_core ?m (C_Execute 0) False M_Wait"
  obtain l' m' notify where c: "core_step (os_syscalls one_file) False (C_Execute 0) ?m = Some (l', m', notify)"
    and l': "l' \<noteq> C_Execute 0"
    by (cases "executeInstruction (os_syscalls one_file) 0 ?m"; cases "fst (executeInstruction (os_syscalls one_file) 0 ?m)") auto
  let ?t = "one_core m' l' False M_Wait"
  have step: "system_step (os_syscalls one_file) ?s ?t" using c by (rule one_core_step) simp_all
  have f: "fetched 0 ?m = Some (decodeInstruction ?raw)"
    using fetched_sample [of ?raw] visible_parts(10) [of ?m "sample_machine ?raw"] by simp
  have "d_opcode (decodeInstruction ?raw) = OP_HALT"
    using opcode_of_byte_byte [of OP_HALT] by (simp add: decode_encode)
  then have e: "executed_by ?s ?t 0 = [trace_event 0 (decodeInstruction ?raw) ?m]"
    using f l' by (simp add: executed_by_def label_of_def one_core_def)
  have m: "vm_tracer ?m = Some (ClientTracer 7)" "vm_calls ?m = []" "p_id (processes ?m ! 0) = 1"
    "rf_pc (registers_of 0 ?m) = 0"
    by (simp_all add: os_setTracer_def sample_machine_simps)
  have fields: "sy_machine ?s = ?m" "length (sy_cores ?s) = Suc 0" by (simp_all add: one_core_def)
  have "vm_tracer (sy_machine ?s) = Some (ClientTracer 7)" using m(1) by (simp only: fields)
  from client_tracer_is_told [OF step this]
  have "vm_calls (sy_machine ?t) = [(7, trace_event 0 (decodeInstruction ?raw) ?m)]"
    by (simp add: fields m(2) e)
  then have "map (\<lambda>(k, e). (k, te_pid e, te_pc e, d_opcode (te_instruction e))) (vm_calls (sy_machine ?t)) = [(7, 1, 0, OP_HALT)]"
    using \<open>d_opcode _ = OP_HALT\<close> m(3,4) by (simp add: trace_event_def)
  with step show ?thesis by (intro exI conjI)
qed

end
