(* ===== verification/Client_Use.thy ===== *)
theory Client_Use
  imports Tracing
begin

text \<open>
  What holds after any sequence of calls of a client, from the constructor of the machine on: loading, stepping single
  processes, changing the tracer, and runs of all cores, in any order and whatever the programs do.
\<close>

section \<open>Calls and the machine\<close>

text \<open>
  A relation that the operations of the machine respect is respected by every call of a client that does not
  install a tracer; if changing the pointer to the tracer respects it too, by all.
\<close>

locale client_frame = frame_relation R for R :: "machine \<Rightarrow> machine \<Rightarrow> bool" +
  fixes fs :: file_system
  assumes frame_loads: "respecting R (loadProgramFromSource source name)"
    and frame_executes: "respecting R (executeInstruction (os_syscalls fs) i)"
    and frame_running: "R m (on_process i (setState Running) m)"
    and frame_notify: "R m (on_scheduler notifyProcessReady m)"
    and frame_system: "system_step (os_syscalls fs) s s' \<Longrightarrow> R (sy_machine s) (sy_machine s')"
begin

lemma frame_load: "respecting R (loadProgram fs path)"
  by (auto simp: loadProgram_def intro!: frame_loads respects_throw split: option.split)

lemma frame_step_process: "respecting R (stepProcess fs pid)"
  unfolding stepProcess_def runSingleStep_def
  by (auto intro!: respects_bind respects_gets respects_throw respects_seq respects_modify frame_running frame_executes
      split: option.split)

lemma frame_step_loop: "respecting R (step_loop fs pid n result)"
  by (induction n arbitrary: result) (auto intro!: respects_intros frame_step_process)

lemma frame_run: "(system_step (os_syscalls fs))\<^sup>*\<^sup>* s s' \<Longrightarrow> R (sy_machine s) (sy_machine s')"
  by (induction rule: rtranclp_induct) (auto intro: frame_refl frame_trans frame_system)

lemma frame_forwarded: "respecting R op \<Longrightarrow> R (vf_os vm) (vf_os (snd (on_os op vm)))"
  by (simp add: on_os_def respecting_def split: prod.split) (metis snd_conv)

lemma forwarded_tracer: "vf_tracer (snd (on_os op vm)) = vf_tracer vm"
  by (simp add: on_os_def split: prod.split)

lemma frame_call:
  "client_call fs vm vm' \<Longrightarrow> R (vf_os vm) (vf_os vm') \<and> vf_tracer vm' = vf_tracer vm \<or>
     (\<exists>enabled. vm' = enableTrace enabled vm) \<or> (\<exists>tracer. vm' = setTracer tracer vm)"
proof (induction rule: client_call.induct)
  case (call_load vm path)
  show ?case by (simp add: VirtualMachine_loadProgram_def forwarded_tracer frame_forwarded frame_load)
next
  case (call_load_source vm source name)
  show ?case by (simp add: VirtualMachine_loadProgramFromSource_def forwarded_tracer frame_forwarded frame_loads)
next
  case (call_step vm pid steps)
  show ?case by (simp add: VirtualMachine_step_def vm_step_def forwarded_tracer frame_forwarded frame_step_loop)
next
  case (call_register vm pid reg)
  show ?case by (simp add: VirtualMachine_getRegister_def getRegister_def forwarded_tracer frame_forwarded respects_read)
next
  case (call_stop vm)
  show ?case by (simp add: frame_refl)
next
  case (call_run vm s)
  have "R (vf_os vm) (sy_machine (VirtualMachine_run vm))"
    by (simp add: VirtualMachine_run_def run_system_def frame_notify)
  from frame_trans [OF this frame_run [OF call_run(1)]] show ?case by simp
qed blast+

end

locale client_frame_tracer = client_frame R fs for R fs +
  assumes frame_tracer: "R m (os_setTracer tracer m)"
begin

lemma frame_calls: "(client_call fs)\<^sup>*\<^sup>* vm vm' \<Longrightarrow> R (vf_os vm) (vf_os vm')"
proof (induction rule: rtranclp_induct)
  case (step u v)
  have "R (vf_os u) (vf_os v)"
    using frame_call [OF step.hyps(2)] by (auto simp: enableTrace_def setTracer_def Let_def frame_tracer)
  with step.IH show ?case by (rule frame_trans)
qed (rule frame_refl)

end

section \<open>Types\<close>

interpretation client_types: client_frame_tracer keeps_types fs for fs
proof unfold_locales
  show "system_step (os_syscalls fs) s s' \<Longrightarrow> keeps_types (sy_machine s) (sy_machine s')" for s s'
    by (rule types_reachable) (rule r_into_rtranclp)
  show "keeps_types m (on_process i (setState Running) m)" for m i
    by (rule keeps_types_process) (simp add: same_types_def pcb_defs)
  show "keeps_types m (os_setTracer tracer m)" for m tracer
    by (rule keeps_types_fields) (simp_all add: os_setTracer_def processes_def)
  show "keeps_types m (on_scheduler notifyProcessReady m)" for m
    by (rule keeps_types_quiet) (rule quiet_scheduler)
qed (fact types_load_source types_instruction)+

section \<open>The tracer that the system points to\<close>

definition same_tracer :: "machine \<Rightarrow> machine \<Rightarrow> bool" where
  "same_tracer m m' \<longleftrightarrow> vm_tracer m' = vm_tracer m"

interpretation client_same_tracer: client_frame same_tracer fs for fs
proof unfold_locales
  show "respecting same_tracer (loadProgramFromSource source name)" for source name
    using unreported_load_source by (simp add: respecting_def unreported_def same_tracer_def)
  show "respecting same_tracer (executeInstruction (os_syscalls fs) i)" for fs i
    by (rule respectsI) (metis instruction_reports prod.collapse same_tracer_def)
qed (simp_all add: same_tracer_def on_process_def on_scheduler_put put_sched_def system_step_tracer)

definition tracer_owned :: "virtual_machine \<Rightarrow> bool" where
  "tracer_owned vm \<longleftrightarrow> vm_tracer (vf_os vm) = None \<or> vm_tracer (vf_os vm) = vf_tracer vm"

lemma client_call_owned: "client_call fs vm vm' \<Longrightarrow> tracer_owned vm \<Longrightarrow> tracer_owned vm'"
  using client_same_tracer.frame_call [of fs vm vm']
  by (auto simp: tracer_owned_def same_tracer_def enableTrace_def setTracer_def os_setTracer_def Let_def)

section \<open>Properties\<close>

text \<open>C12: Types of the machine: whatever a client calls and whatever the threads and the programs do in it, loading more
  programs included, every process has sixteen registers and a stack segment of 4096 bytes on record, its region of
  65536 bytes lies inside the physical memory, and it overlaps the region of no other process.\<close>

theorem client_keeps_types:
  assumes "(client_call fs)\<^sup>*\<^sup>* (VirtualMachine coreCount timeSlice input) vm" and "k < length (processes (vf_os vm))"
  shows "process_typed (processes (vf_os vm) ! k) \<and>
    region_base (vf_os vm) k + 65536 \<le> unat (pm_size (vm_phys (vf_os vm))) \<and>
    (\<forall>j < length (processes (vf_os vm)). j \<noteq> k \<longrightarrow>
      regions_disjoint (p_memory (processes (vf_os vm) ! j)) (p_memory (processes (vf_os vm) ! k)))"
proof (rule regions_ok_apart)
  have "regions_ok (VirtualOS timeSlice input)"
    by (simp add: regions_ok_def VirtualOS_def processes_def ProcessTable_def PhysicalMemory_def)
  with client_types.frame_calls [OF assms(1)] show "regions_ok (vf_os vm)"
    by (simp add: keeps_types_def VirtualMachine_def)
qed (use assms in simp_all)

text \<open>C17: The tracer that the system calls is always alive. Whatever a client does with a machine, one call after the
  other, the system and its cores either have no tracer or the one that the machine owns.\<close>

theorem tracer_is_owned:
  assumes "(client_call fs)\<^sup>*\<^sup>* (VirtualMachine coreCount timeSlice input) vm"
  shows "vm_tracer (vf_os vm) = None \<or> vm_tracer (vf_os vm) = vf_tracer vm"
proof -
  have "tracer_owned vm"
    using assms
  proof (induction rule: rtranclp_induct)
    case base
    show ?case by (simp add: tracer_owned_def VirtualMachine_def VirtualOS_def)
  next
    case (step u v)
    from client_call_owned [OF step.hyps(2) step.IH] show ?case .
  qed
  then show ?thesis by (simp add: tracer_owned_def)
qed

section \<open>Witnesses\<close>

text \<open>A client loads the program \<^verbatim>\<open>halt\<close> twice.\<close>

lemma halt_loads:
  assumes "unat (nextFreeAddress (vm_phys m)) \<le> 65536" and "pm_size (vm_phys m) = 1048576"
  shows "\<exists>m'. snd (loadProgram one_file ''dir/p.asm'' m) = m' \<and>
    length (processes m') = Suc (length (processes m)) \<and> pm_size (vm_phys m') = 1048576 \<and>
    nextFreeAddress (vm_phys m') = nextFreeAddress (vm_phys m) + 65536"
proof -
  let ?p = "\<lparr>ap_code = [encodeInstruction OP_HALT 0 0 0 0], ap_data = []\<rparr>"
  have "image_fits_memory ?p (vm_phys m)" using assms by (simp add: image_fits_memory_def)
  from load_image_ok [OF this] obtain pm where pm: "load_image ?p (vm_phys m) = (Inr (load_layout (nextFreeAddress (vm_phys m)) ?p), pm)"
    "pm_size pm = pm_size (vm_phys m)" "nextFreeAddress pm = nextFreeAddress (vm_phys m) + 65536" by blast
  from loadProgramFromSource_runs [OF sample_source pm(1), of "path_filename ''dir/p.asm''"] obtain m' where
    l: "loadProgramFromSource (source_lines [''CODE:'', ''halt'']) (path_filename ''dir/p.asm'') m =
      (Inr (nextProcessId (vm_table m)), m')" by blast
  with loadProgramFromSource_ok [OF l] sample_source pm assms(2) have
    "length (processes m') = Suc (length (processes m))" "pm_size (vm_phys m') = 1048576"
    "nextFreeAddress (vm_phys m') = nextFreeAddress (vm_phys m) + 65536" by auto
  with l show ?thesis by (simp add: loadProgram_def one_file_def)
qed

theorem client_keeps_types_witness:
  "\<exists>vm. (client_call one_file)\<^sup>*\<^sup>* (VirtualMachine 1 100 \<lparr>is_rest = [], is_fail = False\<rparr>) vm \<and>
     length (processes (vf_os vm)) = 2 \<and>
     regions_disjoint (p_memory (processes (vf_os vm) ! 0)) (p_memory (processes (vf_os vm) ! 1))"
proof -
  let ?load = "\<lambda>vm. snd (VirtualMachine_loadProgram one_file ''dir/p.asm'' vm)"
  let ?vm = "VirtualMachine 1 100 \<lparr>is_rest = [], is_fail = False\<rparr>"
  have os: "vf_os (?load vm) = snd (loadProgram one_file ''dir/p.asm'' (vf_os vm))" for vm
    by (simp add: VirtualMachine_loadProgram_def on_os_def split: prod.split)
  have start: "length (processes (vf_os ?vm)) = 0" "nextFreeAddress (vm_phys (vf_os ?vm)) = 0"
    "pm_size (vm_phys (vf_os ?vm)) = 1048576"
    by (simp_all add: VirtualMachine_def VirtualOS_def processes_def ProcessTable_def PhysicalMemory_def)
  from halt_loads [of "vf_os ?vm"] start have one: "length (processes (vf_os (?load ?vm))) = 1"
    "nextFreeAddress (vm_phys (vf_os (?load ?vm))) = 65536" "pm_size (vm_phys (vf_os (?load ?vm))) = 1048576"
    by (simp_all add: os)
  from halt_loads [of "vf_os (?load ?vm)"] one have two: "length (processes (vf_os (?load (?load ?vm)))) = 2"
    by (simp add: os [of "?load ?vm"])
  have r: "(client_call one_file)\<^sup>*\<^sup>* ?vm (?load (?load ?vm))"
    by (rule rtranclp.rtrancl_into_rtrancl [OF r_into_rtranclp]) (rule call_load)+
  from client_keeps_types [OF r, of 1] two r show ?thesis by auto
qed

theorem tracer_is_owned_witness:
  "let vm = setTracer (Some (ClientTracer 7)) (enableTrace True (VirtualMachine 1 100 \<lparr>is_rest = [], is_fail = False\<rparr>))
   in (client_call one_file)\<^sup>*\<^sup>* (VirtualMachine 1 100 \<lparr>is_rest = [], is_fail = False\<rparr>) vm \<and>
      vm_tracer (vf_os vm) = vf_tracer vm"
proof -
  let ?vm = "VirtualMachine 1 100 \<lparr>is_rest = [], is_fail = False\<rparr>"
  let ?t = "setTracer (Some (ClientTracer 7)) (enableTrace True ?vm)"
  have r: "(client_call one_file)\<^sup>*\<^sup>* ?vm ?t"
    by (rule rtranclp.rtrancl_into_rtrancl [OF r_into_rtranclp]) (rule call_enable, rule call_set)
  moreover have "vm_tracer (vf_os ?t) \<noteq> None" by (simp add: setTracer_def os_setTracer_def Let_def)
  ultimately show ?thesis using tracer_is_owned [OF r] unfolding Let_def by argo
qed

end
