(* ===== verification/Client_Stop.thy ===== *)
theory Client_Stop
  imports Virtual_Machine
begin

text \<open>
  A client that calls \<^verbatim>\<open>stop\<close> while another thread is in \<^verbatim>\<open>run\<close>. The threads are those of the system and the thread
  of the client, which executes the same statements of \<^verbatim>\<open>stop\<close> that the main thread executes after its wait; the
  flag \<^verbatim>\<open>running_\<close> of the operating system, which \<^verbatim>\<open>run\<close> sets and \<^verbatim>\<open>stop\<close> tests and clears, decides which of them does.
  The test and the assignment are one step here: what two threads do that both have passed the test is not modelled.
\<close>

section \<open>Two threads that may stop\<close>

record interrupted =
  in_system :: system
  in_running :: bool
  in_client :: "main_label option"

text \<open>
  The cores move, and the main thread that executes \<^verbatim>\<open>stop\<close>; the main thread leaves its wait and stops the machine
  unless that has been done; the client calls \<^verbatim>\<open>stop\<close>, at some time, and executes its statements one by one: the
  steps of the system with the position of the client in place of that of the main thread.
\<close>

inductive stop_step :: "syscall_handler \<Rightarrow> interrupted \<Rightarrow> interrupted \<Rightarrow> bool" for syscalls where
  thread_moves: "stop_step syscalls x (x\<lparr>in_system := s'\<rparr>)"
    if "system_step syscalls (in_system x) s'" and "sy_main (in_system x) = M_Wait \<longrightarrow> sy_main s' = M_Wait"
| main_leaves: "stop_step syscalls x
     (x\<lparr>in_system := (if in_running x then s' else s'\<lparr>sy_main := M_Done\<rparr>), in_running := False\<rparr>)"
    if "system_step syscalls (in_system x) s'" and "sy_main (in_system x) = M_Wait" and "sy_main s' \<noteq> M_Wait"
| client_calls_stop: "stop_step syscalls x
     (x\<lparr>in_running := False, in_client := Some (if in_running x then M_Stop else M_Done)\<rparr>)"
    if "\<not> terminated (sy_cores (in_system x))" and "in_client x = None"
| client_moves: "stop_step syscalls x
     (x\<lparr>in_system := s'\<lparr>sy_main := sy_main (in_system x)\<rparr>, in_client := Some (sy_main s')\<rparr>)"
    if "in_client x = Some l" and "system_step syscalls ((in_system x)\<lparr>sy_main := l\<rparr>) s'" and "sy_main s' \<noteq> l"

definition interrupted_run :: "nat \<Rightarrow> machine \<Rightarrow> interrupted" where
  "interrupted_run coreCount m = \<lparr>in_system = run_system coreCount m, in_running = True, in_client = None\<rparr>"

text \<open>\<^verbatim>\<open>isRunning\<close> reads the flag. Without a client that stops it is set exactly while the main thread waits.\<close>

definition isRunning :: "interrupted \<Rightarrow> bool" where
  "isRunning x \<longleftrightarrow> in_running x"

lemma leaves_wait: "system_step syscalls s s' \<Longrightarrow> sy_main s \<noteq> M_Wait \<Longrightarrow> sy_main s' \<noteq> M_Wait"
  by (cases rule: system_step.cases) auto

lemma running_while_waiting:
  assumes "(stop_step syscalls)\<^sup>*\<^sup>* (interrupted_run n m) x" and "in_client x = None"
  shows "isRunning x \<longleftrightarrow> sy_main (in_system x) = M_Wait"
proof -
  have "in_client x = None \<longrightarrow> in_running x = (sy_main (in_system x) = M_Wait)"
    using assms(1)
  proof (induction rule: rtranclp_induct)
    case base
    show ?case by (simp add: interrupted_run_def run_system_def)
  next
    case (step y z)
    from step.hyps(2) step.IH show ?case by (cases rule: stop_step.cases) (auto dest: leaves_wait)
  qed
  with assms(2) show ?thesis by (simp add: isRunning_def)
qed

section \<open>What the client has done\<close>

fun joined :: "main_label \<Rightarrow> core list \<Rightarrow> bool" where
  "joined M_Wait cores = False"
| "joined (M_Join c) cores = list_all joinable (take c cores)"
| "joined M_Done cores = list_all joinable cores"
| "joined _ cores = True"

definition stop_inv :: "interrupted \<Rightarrow> bool" where
  "stop_inv x \<longleftrightarrow> sy_main (in_system x) = M_Wait \<longrightarrow>
    (case in_client x of None \<Rightarrow> in_running x | Some l \<Rightarrow> joined l (sy_cores (in_system x)))"

lemma joined_wake: "joined l (wake cores) = joined l cores"
  by (cases l) (force simp: wake_def list_all_length)+

lemma joined_update:
  "joined l cores \<Longrightarrow> c < length cores \<Longrightarrow> \<not> joinable (cores ! c) \<or> joinable x \<Longrightarrow> joined l (cores[c := x])"
  by (cases l) (auto simp: list_all_length nth_list_update)

lemma joined_core_moves:
  assumes "joined l cores" and "c < length cores" and "core_step syscalls b (co_label (cores ! c)) m = Some (l', m', notify)"
  shows "joined l ((if notify then wake cores else cores)[c := (cores ! c)\<lparr>co_label := l'\<rparr>])"
proof (rule joined_update)
  have "co_label (cores ! c) \<noteq> C_Finished" using assms(3) by auto
  then show "\<not> joinable ((if notify then wake cores else cores) ! c) \<or> joinable ((cores ! c)\<lparr>co_label := l'\<rparr>)"
    using assms(2) by (auto simp: wake_def)
qed (use assms joined_wake in \<open>simp_all add: wake_def\<close>)

text \<open>The steps of \<^verbatim>\<open>stop\<close>: each leaves what it has joined, and what has been joined stays.\<close>

lemma stop_joins:
  assumes "system_step syscalls s s'" and "sy_main s \<noteq> M_Wait" and "joined (sy_main s) (sy_cores s)"
  shows "joined (sy_main s') (sy_cores s') \<and> sy_main s' \<noteq> M_Wait"
  using assms
proof (cases rule: system_step.cases)
  case (core_moves c l' m' notify)
  with assms show ?thesis using joined_core_moves [OF _ core_moves(3,5)] by simp
next
  case (main_joins c)
  with assms show ?thesis by (simp add: take_Suc_conv_app_nth)
qed (use assms in \<open>auto\<close>)

lemma core_moves_joined:
  assumes "system_step syscalls s s'" and "sy_main s' = sy_main s" and "joined l (sy_cores s)"
  shows "joined l (sy_cores s')"
  using assms(1)
proof (cases rule: system_step.cases)
  case (core_moves c l' m' notify)
  with joined_core_moves [OF assms(3) core_moves(3,5)] show ?thesis by simp
qed (use assms(2) in auto)

lemma stop_inv_step:
  assumes "stop_step syscalls x x'" and "stop_inv x"
  shows "stop_inv x'"
  using assms
proof (induction rule: stop_step.induct)
  case (thread_moves x s')
  show ?case
  proof (cases "sy_main (in_system x) = M_Wait")
    case True
    with thread_moves have "sy_main s' = sy_main (in_system x)" by simp
    from core_moves_joined [OF thread_moves(1) this] True thread_moves(3) show ?thesis
      by (auto simp: stop_inv_def split: option.splits)
  next
    case False
    have "sy_main s' \<noteq> M_Wait" using thread_moves(1) False by (rule leaves_wait)
    then show ?thesis by (simp add: stop_inv_def)
  qed
next
  case (main_leaves x s')
  then show ?case by (simp add: stop_inv_def)
next
  case (client_calls_stop x)
  then show ?case by (simp add: stop_inv_def)
next
  case (client_moves x l s')
  show ?case
  proof (cases "sy_main (in_system x) = M_Wait")
    case True
    with client_moves(1,4) have j: "joined l (sy_cores (in_system x))" by (simp add: stop_inv_def)
    then have "l \<noteq> M_Wait" by auto
    with stop_joins [OF client_moves(2)] j show ?thesis by (simp add: stop_inv_def)
  qed (simp add: stop_inv_def)
qed

section \<open>Property\<close>

text \<open>C36: A call of \<^verbatim>\<open>stop\<close> from another thread does not end \<^verbatim>\<open>run\<close>. When it has returned while the main thread waits
  and some process has not halted, no thread can move any more: the cores are joined, and the main thread waits for
  processes that nobody will execute.\<close>

theorem stop_does_not_end_run:
  assumes "(stop_step syscalls)\<^sup>*\<^sup>* (interrupted_run n m) x"
    and "in_client x = Some M_Done" and "sy_main (in_system x) = M_Wait" and "\<not> all_halted (sy_machine (in_system x))"
  shows "\<not> stop_step syscalls x x'"
proof
  have "stop_inv x"
    using assms(1)
  proof (induction rule: rtranclp_induct)
    case base
    show ?case by (simp add: stop_inv_def interrupted_run_def)
  qed (rule stop_inv_step)
  then have fin: "list_all joinable (sy_cores (in_system x))" using assms(2,3) by (simp add: stop_inv_def)
  have stuck: "\<not> system_step syscalls ((in_system x)\<lparr>sy_main := l\<rparr>) s'" if "l = M_Wait \<or> l = M_Done" for l s'
  proof
    assume "system_step syscalls ((in_system x)\<lparr>sy_main := l\<rparr>) s'"
    then show False
      by (cases rule: system_step.cases)
        (use that fin assms(4) in \<open>auto simp: list_all_length all_halted_table\<close>)
  qed
  have s: "\<not> system_step syscalls (in_system x) s'" for s' using stuck [of M_Wait s'] assms(3) by (cases "in_system x") simp
  assume "stop_step syscalls x x'"
  then show False
    by (cases rule: stop_step.cases) (use s stuck assms(2) in auto)
qed

section \<open>Witness\<close>

text \<open>The statements of \<^verbatim>\<open>stop\<close> in the thread of the client, while the main thread waits.\<close>

lemma core_moves_main:
  assumes "system_step syscalls s s'" and "sy_main s' = sy_main s"
  shows "system_step syscalls (s\<lparr>sy_main := l\<rparr>) (s'\<lparr>sy_main := l\<rparr>)"
  using assms(1)
proof (cases rule: system_step.cases)
  case (core_moves c l' m' notify)
  with system_step.core_moves [of "s\<lparr>sy_main := l\<rparr>" c syscalls l' m' notify] show ?thesis
    by (cases s) (cases notify; simp)
qed (use assms(2) in auto)

definition client_stops :: "system \<Rightarrow> interrupted" where
  "client_stops s = \<lparr>in_system = s\<lparr>sy_main := M_Wait\<rparr>, in_running = False, in_client = Some (sy_main s)\<rparr>"

lemma client_stops_step:
  assumes "system_step syscalls s s'"
  shows "stop_step syscalls (client_stops s) (client_stops s')"
proof (cases "sy_main s' = sy_main s")
  case True
  from stop_step.thread_moves [of syscalls "client_stops s", OF _ impI] core_moves_main [OF assms True, of M_Wait] True
  show ?thesis by (auto simp: client_stops_def)
next
  case False
  with stop_step.client_moves [of "client_stops s" "sy_main s" syscalls s'] assms
  show ?thesis by (simp add: client_stops_def)
qed

theorem stop_does_not_end_run_witness:
  "\<exists>x. (stop_step (handle_syscall None))\<^sup>*\<^sup>* (interrupted_run 1 (sample_pair Ready)) x \<and> in_client x = Some M_Done \<and>
     sy_main (in_system x) = M_Wait \<and> (\<forall>x'. \<not> stop_step (handle_syscall None) x x')"
proof -
  let ?sc = "handle_syscall None"
  let ?m = "on_scheduler notifyProcessReady (sample_pair Ready)"
  let ?s = "one_core ?m (C_Head None) False M_Stop" and ?x = "interrupted_run 1 (sample_pair Ready)"
  let ?t = "one_core (on_scheduler stop_scheduler ?m) C_Finished True M_Done"
  have "stop_step ?sc ?x (client_stops ?s)"
    using stop_step.client_calls_stop [of ?x ?sc]
    by (simp add: interrupted_run_def run_system_def client_stops_def one_core_def terminated_def)
  moreover have "(stop_step ?sc)\<^sup>*\<^sup>* (client_stops ?s) (client_stops ?t)"
    using one_core_stops [of ?sc ?m]
    by (induction rule: rtranclp_induct) (auto intro: client_stops_step rtranclp.rtrancl_into_rtrancl)
  ultimately have r: "(stop_step ?sc)\<^sup>*\<^sup>* ?x (client_stops ?t)" by (rule converse_rtranclp_into_rtranclp)
  have "p_state (processes ?m ! 0) \<noteq> Halted" "0 < length (processes ?m)"
    by (simp_all add: processes_on_scheduler) (simp_all add: sample_pair_def processes_def setState_def)
  then have "\<not> all_halted ?m" by (auto simp: all_halted_def)
  then have f: "in_client (client_stops ?t) = Some M_Done" "sy_main (in_system (client_stops ?t)) = M_Wait"
    "\<not> all_halted (sy_machine (in_system (client_stops ?t)))"
    by (simp_all add: client_stops_def one_core_def) (simp_all add: all_halted_def)
  from stop_does_not_end_run [OF r f] r f(1,2) show ?thesis by blast
qed

end
