(* ===== verification/Progress.thy ===== *)
theory Progress
  imports System
begin

text \<open>
  The machine is never stuck before it shuts down: the wake-ups of the scheduler are not lost while the
  main thread waits, because a core tests the predicate of the condition variable and goes to sleep
  under the mutex, and every other operation that fills the ready queue takes it.
\<close>

section \<open>Sleeping cores\<close>

definition queue_of :: "system \<Rightarrow> ProcessId list" where
  "queue_of s = readyQueue (vm_sched (sy_machine s))"

text \<open>
  While the main thread waits: a core about to sleep has seen the queue empty, and it still is; a core is
  awake when the queue is not empty; and no core has left its loop.
\<close>

definition awake_inv :: "system \<Rightarrow> bool" where
  "awake_inv s \<longleftrightarrow> sy_main s = M_Wait \<longrightarrow>
    (\<forall>c < length (sy_cores s). label_of s c = C_Blocking \<longrightarrow> queue_of s = []) \<and>
    (queue_of s \<noteq> [] \<longrightarrow> (\<exists>c < length (sy_cores s). label_of s c \<noteq> C_Sleeping)) \<and>
    (\<forall>c < length (sy_cores s). label_of s c = C_Finished \<longrightarrow> co_stopRequested (sy_cores s ! c))"

lemma lock_free_step:
  assumes "core_step syscalls stop l m = Some (l', m', notify)" and "\<not> takes_mutex l"
  shows "vm_sched m' = vm_sched m"
  using assms by (cases l) (auto simp: decide_def Let_def frame_simps split: if_splits)

lemma step_to_blocking:
  assumes "core_step syscalls stop l m = Some (C_Blocking, m', notify)"
  shows "readyQueue (vm_sched m') = []"
  using assms
  by (cases l) (auto simp: acquireProcess_def acquire_ready_def sched_view_def decide_def Let_def
      split: if_splits option.splits prod.splits sum.splits)

lemma step_to_sleeping:
  "core_step syscalls stop l m = Some (C_Sleeping, m', notify) \<Longrightarrow> l = C_Blocking \<and> m' = m"
  by (cases l) (auto simp: decide_def Let_def split: if_splits option.splits prod.splits sum.splits)

lemma label_kept:
  assumes "c < length cores" and "d < length cores" and "d \<noteq> c"
  shows "co_label (cores_after notify c l' cores ! d) = C_Blocking \<longleftrightarrow> co_label (cores ! d) = C_Blocking"
    and "co_label (cores_after notify c l' cores ! d) = C_Finished \<longleftrightarrow> co_label (cores ! d) = C_Finished"
  using assms by (auto simp: cores_after_def wake_nth)

lemma awake_core_moves:
  assumes inv: "awake_inv s" and c: "c < length (sy_cores s)"
    and mutex: "takes_mutex (label_of s c) \<longrightarrow> mutex_free (sy_cores s)"
    and step: "core_step sc (co_stopRequested (sy_cores s ! c)) (label_of s c) (sy_machine s) = Some (l', m', notify)"
  shows "awake_inv (s\<lparr>sy_machine := m', sy_cores := cores_after notify c l' (sy_cores s)\<rparr>)" (is "awake_inv ?s")
  unfolding awake_inv_def
proof (intro impI conjI allI)
  assume "sy_main ?s = M_Wait"
  then have blocking: "\<And>d. d < length (sy_cores s) \<Longrightarrow> label_of s d = C_Blocking \<Longrightarrow> queue_of s = []"
    and finished: "\<And>d. d < length (sy_cores s) \<Longrightarrow> label_of s d = C_Finished \<Longrightarrow> co_stopRequested (sy_cores s ! d)"
    using inv by (simp_all add: awake_inv_def)
  have own: "label_of ?s c = l'" using cores_after_nth(4) [OF c c] by (simp add: label_of_def)
  show "queue_of ?s = []" if d: "d < length (sy_cores ?s)" "label_of ?s d = C_Blocking" for d
  proof (cases "d = c")
    case True
    with own d(2) step_to_blocking [of sc _ _ _ m' notify] step show ?thesis by (simp add: queue_of_def)
  next
    case False
    with d have b: "d < length (sy_cores s)" "label_of s d = C_Blocking"
      using label_kept(1) [OF c, of d notify l'] by (simp_all add: label_of_def)
    then have "\<not> mutex_free (sy_cores s)" by (auto simp: mutex_free_def list_all_length label_of_def)
    with mutex lock_free_step [OF step] blocking [OF b] show ?thesis by (simp add: queue_of_def)
  qed
  show "\<exists>d < length (sy_cores ?s). label_of ?s d \<noteq> C_Sleeping" if "queue_of ?s \<noteq> []"
  proof (cases "l' = C_Sleeping")
    case True
    with step_to_sleeping step have "label_of s c = C_Blocking \<and> m' = sy_machine s" by blast
    with blocking [OF c] that show ?thesis by (simp add: queue_of_def)
  next
    case False
    with own c show ?thesis by auto
  qed
  show "co_stopRequested (sy_cores ?s ! d)" if d: "d < length (sy_cores ?s)" "label_of ?s d = C_Finished" for d
  proof (cases "d = c")
    case True
    with own d(2) step have "core_step sc (co_stopRequested (sy_cores s ! c)) (label_of s c) (sy_machine s) =
      Some (C_Finished, m', notify)" by simp
    then have "co_stopRequested (sy_cores s ! c)" by (rule finished_stop)
    with True cores_after_nth(3) [OF c c] show ?thesis by simp
  next
    case False
    with d label_kept(2) [OF c, of d notify l'] cores_after_nth(3) [OF c, of d notify l'] finished [of d] show ?thesis
      by (simp add: label_of_def)
  qed
qed

lemma awake_step:
  assumes "system_step syscalls s s'" and "awake_inv s"
  shows "awake_inv s'"
  using assms
proof (cases rule: system_step.cases)
  case (core_moves c l' m' notify)
  with assms(2) awake_core_moves [of s c syscalls l' m' notify] show ?thesis
    by (simp add: label_of_def cores_after_def)
qed (simp_all add: awake_inv_def)

lemma awake_initial: "0 < n \<Longrightarrow> awake_inv (run_system n m)"
  by (auto simp: awake_inv_def run_system_def label_of_def)

lemma awake_reachable:
  assumes "reachable syscalls n m s" and "0 < n"
  shows "awake_inv s"
  using assms(1) unfolding reachable_def
  by (induction rule: rtranclp_induct) (auto intro: awake_step awake_initial [OF assms(2)])

section \<open>Cores that can move\<close>

lemma core_can_step:
  assumes "l \<noteq> C_Sleeping" and "l \<noteq> C_Finished" and "\<And>e. l \<noteq> C_Terminated e"
  shows "\<exists>l' m' notify. core_step syscalls stop l m = Some (l', m', notify)"
proof (cases l)
  case C_Acquire
  then show ?thesis by (cases "acquireProcess (sched_view m)") (auto split: prod.split)
next
  case (C_Execute i)
  then show ?thesis by (cases "executeInstruction syscalls i m"; cases "fst (executeInstruction syscalls i m)") auto
next
  case (C_Decide i r)
  then show ?thesis by (cases "decide i r m") auto
qed (use assms in auto)

lemma awake_core_steps:
  assumes "c < length (sy_cores s)" and "label_of s c \<noteq> C_Sleeping" and "label_of s c \<noteq> C_Finished"
    and "\<not> terminated (sy_cores s)"
  shows "\<exists>s'. system_step syscalls s s' \<and> sy_main s' = sy_main s"
proof -
  have steps: "\<exists>s'. system_step syscalls s s' \<and> sy_main s' = sy_main s"
    if d: "d < length (sy_cores s)" "label_of s d \<noteq> C_Sleeping" "label_of s d \<noteq> C_Finished"
      "takes_mutex (label_of s d) \<longrightarrow> mutex_free (sy_cores s)" for d
  proof -
    have "label_of s d \<noteq> C_Terminated e" for e
      using assms(4) d(1) by (auto simp: terminated_def list_ex_length label_of_def)
    with core_can_step d obtain l' m' notify where
      "core_step syscalls (co_stopRequested (sy_cores s ! d)) (label_of s d) (sy_machine s) = Some (l', m', notify)" by blast
    from system_step.core_moves [OF assms(4) d(1) _ this [unfolded label_of_def]] d(4) [unfolded label_of_def]
    show ?thesis by (intro exI conjI) (assumption, simp)
  qed
  show ?thesis
  proof (cases "mutex_free (sy_cores s)")
    case True
    with steps assms show ?thesis by blast
  next
    case False
    then obtain d where "d < length (sy_cores s)" "label_of s d = C_Blocking"
      by (auto simp: mutex_free_def list_all_length label_of_def)
    with steps [of d] show ?thesis by simp
  qed
qed

section \<open>Properties\<close>

text \<open>C14: No deadlock while the machine works: as long as the main thread waits and no exception has ended
  the program, the system can move, and if a process has not halted it is a core that can: never do all the
  cores sleep while there is a process to run.\<close>

theorem no_deadlock_before_shutdown:
  assumes "reachable (os_syscalls fs) n m s" and "ready_to_run m" and "0 < n"
    and "sy_main s = M_Wait" and "\<not> terminated (sy_cores s)"
  shows "\<exists>s'. system_step (os_syscalls fs) s s' \<and> (\<not> allHalted (vm_table (sy_machine s)) \<longrightarrow> sy_main s' = M_Wait)"
proof (cases "allHalted (vm_table (sy_machine s))")
  case True
  with main_wakes [OF assms(5,4)] show ?thesis by blast
next
  case False
  then obtain k where k: "k < length (processes (sy_machine s))" "p_state (processes (sy_machine s) ! k) \<noteq> Halted"
    by (auto simp: all_halted_table all_halted_def)
  have inv: "sys_inv s" using assms(1,2) by (rule sys_inv_reachable)
  have awake: "awake_inv s" using assms(1,3) by (rule awake_reachable)
  have "\<forall>c < length (sy_cores s). label_of s c = C_Finished \<longrightarrow> co_stopRequested (sy_cores s ! c)"
    using awake assms(4) by (simp add: awake_inv_def)
  moreover have "\<forall>c < length (sy_cores s). \<not> co_stopRequested (sy_cores s ! c)"
    using inv assms(4) by (simp add: sys_inv_def)
  ultimately have stay: "label_of s c \<noteq> C_Finished" if "c < length (sy_cores s)" for c
    using that by blast
  have "\<exists>c < length (sy_cores s). label_of s c \<noteq> C_Sleeping"
  proof (cases "p_state (processes (sy_machine s) ! k) = Running")
    case True
    with k(1) have "has_state (sy_machine s) k {Running}" by (simp add: has_state_def)
    then obtain c where "c < length (sy_cores s)" "holds (label_of s c) = Some k"
      using inv assms(5) unfolding sys_inv_def by blast
    then show ?thesis by force
  next
    case False
    with k(2) have "p_state (processes (sy_machine s) ! k) = Ready" by (cases "p_state (processes (sy_machine s) ! k)") simp_all
    with k(1) have "p_id (processes (sy_machine s) ! k) \<in> ready_ids (processes (sy_machine s))" by (rule ready_idsI)
    then have "queue_of s \<noteq> []"
      using sys_inv_machine [OF inv]
      by (auto simp: machine_ok_def sched_inv_def all_queued_def sched_view_def queue_of_def)
    with awake assms(4) show ?thesis by (simp add: awake_inv_def)
  qed
  then obtain c where "c < length (sy_cores s)" "label_of s c \<noteq> C_Sleeping" by blast
  from awake_core_steps [OF this stay [OF this(1)] assms(5)] assms(4) show ?thesis by auto
qed

section \<open>Witnesses\<close>

theorem no_deadlock_before_shutdown_witness:
  "\<exists>s'. system_step (os_syscalls (\<lambda>_. None)) (run_system 2 (sample_pair Ready)) s' \<and> sy_main s' = M_Wait"
proof -
  have r: "reachable (os_syscalls (\<lambda>_. None)) 2 (sample_pair Ready) (run_system 2 (sample_pair Ready))"
    by (simp add: reachable_def)
  have "ready_to_run (sample_pair Ready)" by (rule sample_pair_ok) simp
  moreover have "\<not> terminated (sy_cores (run_system 2 (sample_pair Ready)))"
    by (simp add: run_system_def terminated_def numeral_2_eq_2)
  moreover have "\<not> allHalted (vm_table (sy_machine (run_system 2 (sample_pair Ready))))"
    unfolding all_halted_table
    by (simp add: all_halted_def run_system_def processes_on_scheduler)
      (auto simp: sample_pair_def processes_def setState_def intro: exI [of _ 0])
  ultimately show ?thesis
    using no_deadlock_before_shutdown [OF r] by (simp add: run_system_def)
qed

end
