(* ===== verification/Run_Again.thy ===== *)
theory Run_Again
  imports Core_Turn
begin

text \<open>
  A machine runs once: \<^verbatim>\<open>stop\<close> clears the flag \<^verbatim>\<open>running_\<close> of the scheduler and nothing sets it again, so
  the cores of a second \<^verbatim>\<open>run\<close> are given no process.
\<close>

section \<open>The flag of the scheduler\<close>

lemma running_put:
  "sch_running (vm_sched (on_scheduler notifyProcessReady m)) = sch_running (vm_sched m)"
  "sch_running (vm_sched (on_scheduler onCoreIdle m)) = sch_running (vm_sched m)"
  "sch_running (vm_sched (on_scheduler (onPreempt i) m)) = sch_running (vm_sched m)"
  "\<not> sch_running (vm_sched (on_scheduler stop_scheduler m))"
  by (simp_all add: on_scheduler_put put_sched_def sched_view_def notifyProcessReady_def onCoreIdle_def
      onPreempt_def stop_scheduler_def)

lemma running_sched [simp]: "sch_running (vm_sched (put_sched s m)) = sch_running (fst s)"
  by (simp add: put_sched_def)

lemma running_acquire:
  "acquireProcess (sched_view m) = Some (r, s) \<Longrightarrow> sch_running (fst s) = sch_running (vm_sched m)"
  by (auto simp: acquireProcess_def sched_view_def pickNextProcess_def Let_def
      split: if_splits prod.splits option.splits)

lemma running_core_step:
  assumes "core_step (os_syscalls fs) stop l m = Some (l', m', notify)" and "machine_ok m" and "label_ok m l"
  shows "sch_running (vm_sched m') = sch_running (vm_sched m)"
proof (cases l)
  case C_Acquire
  with assms(1) running_acquire [of m] show ?thesis
    by (auto simp: put_sched_def split: option.splits)
next
  case (C_Execute i)
  with assms(1) obtain r where "executeInstruction (os_syscalls fs) i m = (r, m')"
    by (auto split: prod.splits sum.splits)
  with runs_instruction have "runs i m m'" by (rule respectsD)
  with assms(2,3) C_Execute show ?thesis by (auto simp: runs_def has_state_def)
next
  case (C_Decide i r)
  with assms(1) show ?thesis by (auto simp: decide_def Let_def frame_simps split: if_splits)
next
  case (C_Release i p cb)
  with assms(1) show ?thesis by (auto simp: releaseProcess_def running_put frame_simps split: if_splits)
qed (use assms in \<open>auto simp: running_put split: if_splits\<close>)

fun has_stopped :: "main_label \<Rightarrow> bool" where
  "has_stopped M_Wait = False"
| "has_stopped M_Stop = False"
| "has_stopped _ = True"

lemma stopped_step:
  assumes "system_step (os_syscalls fs) s s'" and "sys_inv s"
    and "has_stopped (sy_main s) \<Longrightarrow> \<not> sch_running (vm_sched (sy_machine s))"
  shows "has_stopped (sy_main s') \<longrightarrow> \<not> sch_running (vm_sched (sy_machine s'))"
  using assms
proof (cases rule: system_step.cases)
  case (core_moves c l' m' notify)
  have "machine_ok (sy_machine s)" "label_ok (sy_machine s) (label_of s c)"
    using assms(2) core_moves(3) by (simp_all add: sys_inv_def)
  with running_core_step [OF core_moves(5)] assms(3) core_moves(1) show ?thesis by (simp add: label_of_def)
qed (use assms(3) in \<open>simp_all add: running_put\<close>)

lemma stopped_reachable:
  assumes "reachable (os_syscalls fs) n m s" and "ready_to_run m" and "has_stopped (sy_main s)"
  shows "\<not> sch_running (vm_sched (sy_machine s))"
proof -
  have "sys_inv s \<and> (has_stopped (sy_main s) \<longrightarrow> \<not> sch_running (vm_sched (sy_machine s)))"
    using assms(1) unfolding reachable_def
  proof (induction rule: rtranclp_induct)
    case base
    show ?case using sys_inv_initial [OF assms(2)] by (simp add: run_system_def)
  next
    case (step t u)
    then show ?case using sys_inv_step [OF step.hyps(2)] stopped_step [OF step.hyps(2)] by blast
  qed
  with assms(3) show ?thesis by blast
qed

section \<open>Cores without work\<close>

text \<open>With the flag cleared no core ever holds a process, so the processes stay as they are.\<close>

fun idles :: "core_label \<Rightarrow> bool" where
  "idles (C_Head None) = True"
| "idles C_Acquire = True"
| "idles C_Idle = True"
| "idles _ = False"

definition idle_for :: "pcb list \<Rightarrow> system \<Rightarrow> bool" where
  "idle_for ps s \<longleftrightarrow> sy_main s = M_Wait \<and> processes (sy_machine s) = ps \<and>
    \<not> sch_running (vm_sched (sy_machine s)) \<and>
    list_all (\<lambda>c. idles (co_label c) \<and> \<not> co_stopRequested c) (sy_cores s)"

lemma idle_core_step:
  assumes "core_step syscalls False l m = Some (l', m', notify)" and "idles l" and "\<not> sch_running (vm_sched m)"
  shows "idles l' \<and> processes m' = processes m \<and> \<not> sch_running (vm_sched m')"
  using assms
  by (cases l rule: idles.cases)
    (auto simp: acquireProcess_def acquire_ready_def sched_view_def running_put onCoreIdle_def processes_on_scheduler
      put_acquire)

lemma idle_wake: "list_all (\<lambda>c. idles (co_label c) \<and> \<not> co_stopRequested c) cores \<Longrightarrow>
    list_all (\<lambda>c. idles (co_label c) \<and> \<not> co_stopRequested c) (wake cores)"
  by (auto simp: wake_def list_all_iff)

lemma idle_step:
  assumes "system_step syscalls s s'" and "idle_for ps s" and "p \<in> set ps" and "p_state p \<noteq> Halted"
  shows "idle_for ps s'"
  using assms
proof (cases rule: system_step.cases)
  case (core_moves c l' m' notify)
  have c: "idles (co_label (sy_cores s ! c))" "\<not> co_stopRequested (sy_cores s ! c)"
    using assms(2) core_moves(3) by (simp_all add: idle_for_def list_all_length)
  with core_moves(5) assms(2) idle_core_step [of syscalls "co_label (sy_cores s ! c)" "sy_machine s" l' m' notify]
  have "idles l'" "processes m' = ps" "\<not> sch_running (vm_sched m')" by (auto simp: idle_for_def)
  moreover have "list_all (\<lambda>c. idles (co_label c) \<and> \<not> co_stopRequested c) (if notify then wake (sy_cores s) else sy_cores s)"
    using assms(2) idle_wake by (simp add: idle_for_def)
  ultimately show ?thesis
    using core_moves(1) assms(2) c(2) by (simp add: idle_for_def list_all_update)
next
  case main_wakes
  with assms(2-4) show ?thesis by (auto simp: idle_for_def allHalted_iff processes_def)
qed (simp_all add: idle_for_def)

section \<open>Properties\<close>

text \<open>C33: A machine can be run only once. After a \<^verbatim>\<open>run\<close> that has returned, a program that is loaded is never
  executed: in every state of the second \<^verbatim>\<open>run\<close> its process is still ready and the main thread waits.\<close>

theorem second_run_never_returns:
  assumes "reachable (os_syscalls fs) n m s" and "ready_to_run m" and "sy_main s = M_Done"
    and "loadProgram fs path (sy_machine s) = (Inr pid, m')"
    and "reachable (os_syscalls fs) n' m' s'"
  shows "sy_main s' = M_Wait \<and> processes (sy_machine s') = processes m' \<and>
    p_state (processes (sy_machine s') ! length (processes (sy_machine s))) = Ready"
proof -
  from assms(4) obtain source where ld: "loadProgramFromSource source (path_filename path) (sy_machine s) = (Inr pid, m')"
    by (auto simp: loadProgram_def vthrow_def split: option.splits)
  have ok: "machine_ok (sy_machine s)" using sys_inv_reachable [OF assms(1,2)] by (rule sys_inv_machine)
  from load_machine_ok [OF ld ok] obtain p where p: "processes m' = processes (sy_machine s) @ [p]" "p_state p = Ready"
    "sch_running (vm_sched m') = sch_running (vm_sched (sy_machine s))" by metis
  have "\<not> sch_running (vm_sched (sy_machine s))" using stopped_reachable [OF assms(1,2)] assms(3) by simp
  with p(3) have start: "idle_for (processes m') (run_system n' m')"
    by (simp add: idle_for_def run_system_def processes_on_scheduler running_put list_all_length)
  have live: "p \<in> set (processes m')" "p_state p \<noteq> Halted" using p by simp_all
  have "idle_for (processes m') s'"
    using assms(5) unfolding reachable_def
    by (induction rule: rtranclp_induct) (use start in \<open>auto intro: idle_step [OF _ _ live]\<close>)
  with p show ?thesis by (simp add: idle_for_def)
qed

section \<open>Witnesses\<close>

text \<open>A machine without programs runs and returns; the program loaded then is not executed.\<close>

definition halt_everywhere :: file_system where
  "halt_everywhere path = Some (source_lines [''CODE:'', ''halt''])"

theorem second_run_never_returns_witness:
  "\<exists>s pid m'. reachable (os_syscalls halt_everywhere) 1 (VirtualOS 100 \<lparr>is_rest = [], is_fail = False\<rparr>) s \<and>
     sy_main s = M_Done \<and> loadProgram halt_everywhere ''p.asm'' (sy_machine s) = (Inr pid, m') \<and>
     sy_main (run_system 2 m') = M_Wait \<and> p_state (processes (sy_machine (run_system 2 m')) ! 0) = Ready"
proof -
  let ?m = "VirtualOS 100 \<lparr>is_rest = [], is_fail = False\<rparr>"
  let ?n = "on_scheduler notifyProcessReady ?m" and ?p = "\<lparr>ap_code = [encodeInstruction OP_HALT 0 0 0 0], ap_data = []\<rparr>"
  let ?s = "one_core (on_scheduler stop_scheduler ?n) C_Finished True M_Done"
  have none: "processes ?m = []" by (simp add: VirtualOS_def processes_def ProcessTable_def)
  then have "all_halted ?n" by (simp add: all_halted_def processes_on_scheduler)
  from one_core_shutdown [OF this, of "os_syscalls halt_everywhere"]
  have r: "reachable (os_syscalls halt_everywhere) 1 ?m ?s" by (simp add: reachable_def run_system_def one_core_def)
  have s: "vm_phys (sy_machine ?s) = PhysicalMemory 1048576" "length (processes (sy_machine ?s)) = 0" "sy_main ?s = M_Done"
    using none by (simp_all add: one_core_def on_scheduler_put sched_view_def notifyProcessReady_def stop_scheduler_def)
      (simp add: VirtualOS_def)
  have "image_fits_memory ?p (vm_phys (sy_machine ?s))" unfolding s by (simp add: image_fits_memory_def PhysicalMemory_def)
  from load_image_ok [OF this] obtain l pm where "load_image ?p (vm_phys (sy_machine ?s)) = (Inr l, pm)" by blast
  from loadProgramFromSource_runs [OF sample_source this] obtain pid m' where
    "loadProgramFromSource (source_lines [''CODE:'', ''halt'']) (path_filename ''p.asm'') (sy_machine ?s) = (Inr pid, m')" by blast
  then have ld: "loadProgram halt_everywhere ''p.asm'' (sy_machine ?s) = (Inr pid, m')"
    by (simp add: loadProgram_def halt_everywhere_def)
  have "reachable (os_syscalls halt_everywhere) 2 m' (run_system 2 m')" by (simp add: reachable_def)
  from second_run_never_returns [OF r empty_machine_ok(2) s(3) ld this] r s ld show ?thesis by metis
qed

end
