(* ===== verification/Stepped_Process.thy ===== *)
theory Stepped_Process
  imports Core_Turn
begin

text \<open>
  \<^verbatim>\<open>stepProcess\<close> marks a process as running and leaves it so. The scheduler dispatches ready processes only, so
  the cores of a later \<^verbatim>\<open>run\<close> never take a process that has been stepped and not halted.
\<close>

section \<open>The state of the process that executes\<close>

definition state_frame :: "pcb_ref \<Rightarrow> machine \<Rightarrow> machine \<Rightarrow> bool" where
  "state_frame i m m' \<longleftrightarrow> (i < length (processes m) \<longrightarrow> i < length (processes m') \<and>
    (p_state (processes m' ! i) = p_state (processes m ! i) \<or> p_state (processes m' ! i) = Halted))"

interpretation state_fr: frame_relation "state_frame i" for i
  by unfold_locales (auto simp: state_frame_def)

lemma state_frame_process:
  "(\<And>p. p_state (f p) = p_state p \<or> p_state (f p) = Halted) \<Longrightarrow> state_frame i m (on_process k f m)"
  by (simp add: state_frame_def frame_simps nth_update_process)

lemma state_frame_table: "(\<And>m. processes (f m) = processes m) \<Longrightarrow> respecting (state_frame i) (vmodify f)"
  by (rule respects_modify) (simp add: state_frame_def)

lemma state_frame_streams:
  "state_frame i m (m\<lparr>vm_out := out\<rparr>)" "state_frame i m (m\<lparr>vm_in := inp\<rparr>)"
  by (simp_all add: state_frame_def processes_fields)

lemma state_frame_memory: "respecting (state_frame i) (process_memory k op)"
  by (rule respectsI) (simp add: process_memory_def state_frame_def processes_fields split: prod.split)

lemma state_frame_read_path: "respecting (state_frame i) (read_path n k a)"
  by (induction n arbitrary: a) (auto intro!: state_fr.respects_intros state_frame_memory)

lemma state_frame_load: "respecting (state_frame i) (loadProgram fs path)"
proof (rule respectsI)
  fix m
  have "machine_frame (Suc i) m (snd (loadProgram fs path m))"
    using loadProgram_framed [of fs] by (simp add: callback_framed_def respecting_def)
  then show "state_frame i m (snd (loadProgram fs path m))" by (auto simp: machine_frame_def state_frame_def)
qed

lemma state_frame_syscall: "respecting (state_frame i) (os_syscalls fs sc k a)"
  unfolding os_syscalls_def
  by (cases sc)
    (auto simp: syscall_exit_def syscall_yield_def syscall_print_def syscall_scan_def syscall_load_def pcb_defs
      processes_fields split: prod.split
      intro!: state_fr.respects_intros state_frame_memory state_frame_read_path state_frame_load
        state_frame_streams respects_modify state_frame_process)

lemma state_frame_context: "respecting (state_frame i) (on_process_context k f)"
  unfolding on_process_context_def
  by (intro respects_modify state_frame_process) (simp add: pcb_defs)

lemma state_frame_trace: "respecting (state_frame i) (trace_instruction k pc insn)"
  unfolding trace_instruction_def
  by (rule state_frame_table) (simp split: option.split)

lemma state_frame_handler: "respecting (state_frame i) (run_handler i insn)"
  by (rule respectsI)
    (auto simp: run_handler_def state_frame_def write_context_def frame_simps processes_fields nth_update_process
      split: prod.split)

lemma state_frame_instruction: "respecting (state_frame i) (executeInstruction (os_syscalls fs) i)"
  unfolding executeInstruction_def execute_call_def Let_def
  by (auto intro!: state_fr.respects_intros state_frame_memory state_frame_trace state_frame_syscall
      state_frame_context state_frame_handler)

lemma step_leaves_running:
  assumes "findProcess pid m = Some i" and "\<not> cx_halted (p_context (processes m ! i))"
    and "stepProcess fs pid m = (Inr r, m')" and "r \<noteq> ER_Halt"
  shows "i < length (processes m')" and "p_state (processes m' ! i) = Running"
proof -
  let ?m = "on_process i (setState Running) m"
  have i: "i < length (processes m)"
    using assms(1) by (simp add: findProcess_def find_process_def first_index_Some processes_def)
  have x: "executeInstruction (os_syscalls fs) i ?m = (Inr r, m')"
    using assms(1,3) by (simp add: stepProcess_def runSingleStep_def vm_run)
  have s: "i < length (processes ?m)" "p_state (processes ?m ! i) = Running" "\<not> ended ?m i"
    using i assms(2) by (simp_all add: ended_def frame_simps nth_update_process pcb_defs)
  have "state_frame i ?m m'" using state_frame_instruction x by (rule respectsD)
  moreover have "\<not> ended m' i"
    using instruction_ends [OF x [unfolded os_syscalls_def] loadProgram_framed s(1) assms(4)] s(3) by simp
  ultimately show "i < length (processes m')" "p_state (processes m' ! i) = Running"
    using s(1,2) by (auto simp: state_frame_def ended_def)
qed

section \<open>A running process that no core holds\<close>

definition left_alone :: "pcb_ref \<Rightarrow> pcb \<Rightarrow> machine \<Rightarrow> bool" where
  "left_alone i p m \<longleftrightarrow> i < length (processes m) \<and> processes m ! i = p"

lemma pick_leaves_running:
  assumes "pickNextProcess (sch, ps) = (r, s)" and "i < length ps" and "p_state (ps ! i) = Running"
  shows "i < length (snd s) \<and> snd s ! i = ps ! i \<and> r \<noteq> Some i"
proof -
  have "pick_round_robin ps a \<noteq> Some i" for a
    using assms(3) by (auto simp: pick_round_robin_def first_index_Some)
  moreover have "fst (pick_from_queue ps q) \<noteq> Some i" for q
    using assms(3) pick_from_queue_ready [of ps q i] by (cases "pick_from_queue ps q") auto
  ultimately show ?thesis
    using assms(1,2)
    by (auto simp: pickNextProcess_def Let_def nth_update_process split: prod.splits option.splits) (metis fst_conv)+
qed

lemma acquire_leaves_running:
  assumes "acquireProcess (sched_view m) = Some (r, s)" and "left_alone i p m" and "p_state p = Running"
  shows "left_alone i p (put_sched s m) \<and> r \<noteq> Some i"
  using assms pick_leaves_running [of "vm_sched m" "processes m" r s i]
  by (auto simp: acquireProcess_def sched_view_def left_alone_def split: if_splits)

lemma left_alone_simps:
  "left_alone i p (on_scheduler notifyProcessReady m) = left_alone i p m"
  "left_alone i p (on_scheduler onCoreIdle m) = left_alone i p m"
  "i \<noteq> k \<Longrightarrow> left_alone i p (on_scheduler (onPreempt k) m) = left_alone i p m"
  "i \<noteq> k \<Longrightarrow> left_alone i p (on_process k f m) = left_alone i p m"
  "left_alone i p (m\<lparr>vm_err := e\<rparr>) = left_alone i p m"
  by (auto simp: left_alone_def processes_on_scheduler onCoreIdle_def on_scheduler_put sched_view_def onPreempt_def
      nth_update_process frame_simps processes_fields)

lemma core_leaves_alone:
  assumes "core_step (os_syscalls fs) stop l m = Some (l', m', notify)"
    and "left_alone i p m" and "p_state p = Running" and "holds l \<noteq> Some i"
  shows "left_alone i p m' \<and> holds l' \<noteq> Some i"
proof (cases l)
  case C_Acquire
  with assms acquire_leaves_running [of m _ _ i p] show ?thesis
    by (fastforce simp: put_acquire split: option.splits)
next
  case (C_Execute k)
  with assms(1) obtain r where x: "executeInstruction (os_syscalls fs) k m = (r, m')"
    and "holds l' = holds l \<or> holds l' = None"
    by (auto split: prod.splits sum.splits)
  moreover have "machine_frame k m m'" using os.executeInstruction_frame x by (rule respectsD)
  ultimately show ?thesis
    using C_Execute assms(2,4) by (auto simp: machine_frame_def left_alone_def)
next
  case (C_Decide k r)
  with assms show ?thesis by (auto simp: decide_def Let_def left_alone_simps split: if_splits)
next
  case (C_Release k preempt cb)
  with assms show ?thesis by (auto simp: releaseProcess_def left_alone_simps split: if_splits)
qed (use assms in \<open>auto simp: left_alone_simps split: if_splits option.splits\<close>)

definition waits_for :: "pcb_ref \<Rightarrow> pcb \<Rightarrow> system \<Rightarrow> bool" where
  "waits_for i p s \<longleftrightarrow> sy_main s = M_Wait \<and> left_alone i p (sy_machine s) \<and>
    list_all (\<lambda>c. holds (co_label c) \<noteq> Some i) (sy_cores s)"

lemma unheld_wake:
  "list_all (\<lambda>c. holds (co_label c) \<noteq> Some i) cores \<Longrightarrow> list_all (\<lambda>c. holds (co_label c) \<noteq> Some i) (wake cores)"
  by (auto simp: wake_def list_all_iff)

lemma waits_for_step:
  assumes "system_step (os_syscalls fs) s s'" and "waits_for i p s" and "p_state p = Running"
  shows "waits_for i p s'"
  using assms(1)
proof (cases rule: system_step.cases)
  case (core_moves c l' m' notify)
  have "holds (co_label (sy_cores s ! c)) \<noteq> Some i" "left_alone i p (sy_machine s)"
    using assms(2) core_moves(3) by (simp_all add: waits_for_def list_all_length)
  from core_leaves_alone [OF core_moves(5) this(2) assms(3) this(1)]
  show ?thesis using core_moves(1) assms(2) unheld_wake [of i "sy_cores s"]
    by (simp add: waits_for_def list_all_update)
next
  case main_wakes
  with assms(2,3) show ?thesis by (force simp: waits_for_def left_alone_def allHalted_iff processes_def)
qed (use assms(2) in \<open>simp_all add: waits_for_def\<close>)

section \<open>Property\<close>

text \<open>C34: A process that has been stepped is never run. Whatever instruction \<^verbatim>\<open>stepProcess\<close> has executed, if it does not
  halt the process, then in every state of a later \<^verbatim>\<open>run\<close>, with any number of cores and other processes, no core
  holds the process, its control block is as the step left it, and the main thread waits for it.\<close>

theorem stepped_process_is_never_run:
  assumes "findProcess pid m = Some i" and "\<not> cx_halted (p_context (processes m ! i))"
    and "stepProcess fs pid m = (Inr r, m')" and "r \<noteq> ER_Halt"
    and "reachable (os_syscalls fs) n m' s"
  shows "sy_main s = M_Wait \<and> processes (sy_machine s) ! i = processes m' ! i \<and>
    p_state (processes m' ! i) = Running \<and> (\<forall>c < length (sy_cores s). holds (label_of s c) \<noteq> Some i)"
proof -
  let ?p = "processes m' ! i"
  note run = step_leaves_running [OF assms(1-4)]
  then have start: "waits_for i ?p (run_system n m')"
    by (simp add: waits_for_def run_system_def left_alone_simps list_all_length) (simp add: left_alone_def)
  have "waits_for i ?p s"
    using assms(5) unfolding reachable_def
    by (induction rule: rtranclp_induct) (use start run(2) in \<open>auto intro: waits_for_step\<close>)
  with run(2) show ?thesis by (simp add: waits_for_def left_alone_def label_of_def list_all_length)
qed

section \<open>Witness\<close>

text \<open>A process whose first instruction is \<^verbatim>\<open>NOP\<close> is stepped once; two cores are started afterwards.\<close>

theorem stepped_process_is_never_run_witness:
  "\<exists>m'. stepProcess (\<lambda>_. None) 1 (sample_machine (encodeInstruction OP_NOP 0 0 0 0)) = (Inr ER_Continue, m') \<and>
     p_state (processes (sy_machine (run_system 2 m')) ! 0) = Running"
proof -
  let ?m = "sample_machine (encodeInstruction OP_NOP 0 0 0 0)" and ?fs = "\<lambda>_ :: string. None :: string option"
  let ?n = "on_process 0 (setState Running) ?m"
  have f: "findProcess 1 ?m = Some 0" "\<not> cx_halted (p_context (processes ?m ! 0))"
    by (simp_all add: findProcess_def find_process_def sample_machine_simps)
  have "fetched 0 ?n = fetched 0 ?m"
    by (simp add: fetched_def frame_simps nth_update_process sample_machine_layouts registers_of_def pcb_defs)
  then have g: "fetched 0 ?n = Some (decodeInstruction (encodeInstruction OP_NOP 0 0 0 0))" by (simp add: fetched_sample)
  let ?x = "executeInstruction (os_syscalls ?fs) 0 ?n"
  have "d_opcode (decodeInstruction (encodeInstruction OP_NOP 0 0 0 0)) = OP_NOP"
    using opcode_of_byte_byte [of OP_NOP] by (simp add: decode_encode)
  then have "fst ?x = Inr ER_Continue"
    by (simp add: executeInstruction_fetched(1) [OF g] execute_fetched_def trace_instruction_def run_handler_def
        registry_simple vm_run on_process_context_def)
  obtain m' where s: "stepProcess ?fs 1 ?m = (Inr ER_Continue, m')"
    using f(1) \<open>fst ?x = _\<close> by (cases ?x) (simp add: stepProcess_def runSingleStep_def vm_run)
  have "reachable (os_syscalls ?fs) 2 m' (run_system 2 m')" by (simp add: reachable_def)
  from stepped_process_is_never_run [OF f s _ this] s show ?thesis by auto
qed

end
