(* ===== verification/Assembler_Errors.thy ===== *)
theory Assembler_Errors
  imports Parser
begin

text \<open>
  The exceptions that leave the assembler, found by following the structure of its computations:
  what a part may throw is what its parts may throw.
\<close>

section \<open>What a computation throws\<close>

definition throwing :: "(vm_exception \<Rightarrow> bool) \<Rightarrow> ('s, 'a) vm \<Rightarrow> bool" where
  "throwing P m \<longleftrightarrow> (\<forall>s e s'. m s = (Inl e, s') \<longrightarrow> P e)"

lemma throwingD: "throwing P m \<Longrightarrow> m s = (Inl e, s') \<Longrightarrow> P e"
  by (auto simp: throwing_def)

lemma throwing_basic:
  "throwing P (vreturn a)" "throwing P (vgets f)" "throwing P (vmodify g)"
  by (simp_all add: throwing_def vreturn_def vgets_def vmodify_def)

lemma throwing_throw: "P e \<Longrightarrow> throwing P (vthrow e)"
  by (simp add: throwing_def vthrow_def)

lemma throwing_read: "(\<And>s e. f s = Inl e \<Longrightarrow> P e) \<Longrightarrow> throwing P (vread f)"
  by (auto simp: throwing_def vread_def)

lemma throwing_lift: "(\<And>e. r = Inl e \<Longrightarrow> P e) \<Longrightarrow> throwing P (lift_result r)"
  by (simp add: lift_result_def throwing_read)

lemma throwing_bind: "throwing P m \<Longrightarrow> (\<And>a. throwing P (f a)) \<Longrightarrow> throwing P (vbind m f)"
  by (fastforce simp: throwing_def vbind_def split: prod.splits sum.splits)

lemma throwing_seq: "throwing P m \<Longrightarrow> throwing P k \<Longrightarrow> throwing P (vseq m k)"
  by (simp add: vseq_def throwing_bind)

lemma throwing_if: "throwing P m \<Longrightarrow> throwing P k \<Longrightarrow> throwing P (if b then m else k)"
  by simp

lemma throwing_lexer: "throwing P m \<Longrightarrow> throwing P (on_lexer m)"
  by (auto simp: throwing_def on_lexer_def split: prod.splits)

lemmas throwing_intros =
  throwing_basic throwing_bind throwing_seq throwing_if throwing_lexer

section \<open>The exceptions of the assembler\<close>

fun assembler_exception :: "vm_exception \<Rightarrow> bool" where
  "assembler_exception (VmException msg) = False"
| "assembler_exception (AssemblerError line msg) = True"
| "assembler_exception (StdInvalidArgument msg) = (msg = ''stol'' \<or> msg = ''stoi'')"
| "assembler_exception (StdOutOfRange msg) = (msg = ''stol'' \<or> msg = ''stoi'')"

lemma throwing_next: "throwing assembler_exception next_token"
  by (auto simp: throwing_def next_token_def readToken_def readToken_at_def Let_def single_character_def
      split: if_splits prod.splits)

lemma throwing_peek: "throwing assembler_exception peek_token"
  by (auto simp: throwing_def peek_token_def readToken_def readToken_at_def Let_def single_character_def
      split: if_splits prod.splits sum.splits)

lemma throwing_consume: "throwing assembler_exception (consume ty)"
  unfolding consume_def by (intro throwing_intros throwing_throw throwing_next) simp

lemma throwing_match: "throwing assembler_exception (match_token ty)"
  unfolding match_token_def by (intro throwing_intros throwing_next throwing_peek)

lemma throwing_skipNewlines: "throwing assembler_exception skipNewlines"
proof -
  have "skipNewlines s = (Inl e, s') \<Longrightarrow> assembler_exception e" for s e s'
  proof (induction s rule: skipNewlines.induct)
    case (1 s)
    show ?case
    proof (cases "match_token TK_Newline s")
      case (Pair r s1)
      with 1 throwing_match [of TK_Newline] show ?thesis
        by (cases r) (auto simp: throwing_def skipNewlines.simps [of s] split: if_splits)
    qed
  qed
  then show ?thesis by (auto simp: throwing_def)
qed

lemma throwing_operand_text:
  "throwing assembler_exception (lift_result (parseNumberToken t))"
  "throwing assembler_exception (lift_result (parseRegisterToken t))"
  "throwing assembler_exception (lift_result (parseOpcode x))"
  "throwing assembler_exception (lift_result (parseSyscall x))"
  "throwing assembler_exception (lift_result (parse_data_type t))"
  by (rule throwing_lift; auto simp: parseNumberToken_def std_stol_def parseRegisterToken_def
      registerIndexFromName_def std_stoi_def parseOpcode_def mnemonicToOpcode_def parseSyscall_def parse_data_type_def
      split: if_splits sum.splits option.splits)+

lemma throwing_error: "throwing assembler_exception (vthrow (AssemblerError line msg))"
  by (rule throwing_throw) simp

lemma throwing_resolve:
  "throwing assembler_exception (resolveLabel l line)" "throwing assembler_exception (resolveDataSymbol l line)"
  unfolding resolveLabel_def resolveDataSymbol_def
  by (rule throwing_read; auto split: option.splits)+

lemma throwing_emit: "throwing P w \<Longrightarrow> throwing P (emit_word emit w)"
  unfolding emit_word_def by (intro throwing_intros)

lemmas throwing_parser =
  throwing_intros throwing_consume throwing_match throwing_next throwing_peek throwing_skipNewlines
  throwing_resolve throwing_emit throwing_operand_text throwing_error

lemma throwing_register: "throwing assembler_exception parse_register"
  unfolding parse_register_def by (intro throwing_parser)

lemma throwing_symbol: "throwing assembler_exception parse_symbol"
  unfolding parse_symbol_def by (intro throwing_parser)

lemma throwing_address: "throwing assembler_exception parse_address"
  unfolding parse_address_def by (auto intro!: throwing_parser throwing_symbol split: prod.split)

lemma throwing_operands: "throwing assembler_exception (parse_operands name emit)"
  unfolding instruction_defs
  by (auto intro!: throwing_parser throwing_register throwing_symbol throwing_address split: prod.split)

lemma throwing_instruction: "throwing assembler_exception (parseInstruction emit)"
  unfolding parseInstruction_def end_instruction_def by (intro throwing_parser throwing_operands)

lemma throwing_statement: "throwing assembler_exception (parse_statement emit mark t)"
proof -
  have "throwing assembler_exception (parse_data emit t)"
    unfolding parse_data_def by (auto intro!: throwing_parser)
  moreover have "throwing assembler_exception (parse_code emit mark t)"
    unfolding parse_code_def by (intro throwing_parser throwing_instruction)
  moreover have "throwing assembler_exception (enter_section sec)" for sec
    unfolding enter_section_def by (intro throwing_parser)
  ultimately show ?thesis
    unfolding parse_statement_def by (auto intro!: throwing_parser split: section_kind.split)
qed

lemma throwing_round: "throwing assembler_exception (parse_round emit)"
  unfolding parse_round_def by (intro throwing_parser throwing_statement)

lemma throwing_loop: "throwing assembler_exception (parse_loop emit)"
proof -
  have "parse_loop emit s = (Inl e, s') \<Longrightarrow> assembler_exception e" for s e s'
  proof (induction emit s rule: parse_loop.induct)
    case (1 emit s)
    obtain r s1 where p: "on_lexer peek_token s = (r, s1)" by (cases "on_lexer peek_token s")
    obtain q s2 where q: "parse_round emit s1 = (q, s2)" by (cases "parse_round emit s1")
    have "throwing assembler_exception (on_lexer peek_token)" by (intro throwing_parser)
    then have peek: "r = Inl x \<Longrightarrow> assembler_exception x" for x using p by (auto dest: throwingD)
    have round: "q = Inl x \<Longrightarrow> assembler_exception x" for x using q throwingD [OF throwing_round] by auto
    show ?case
    proof (cases r)
      case (Inl x)
      with 1(2) p peek show ?thesis by (simp add: parse_loop.simps [of emit s])
    next
      case (Inr ahead)
      show ?thesis
      proof (cases q)
        case (Inl x)
        with 1(2) p q Inr round show ?thesis by (simp add: parse_loop.simps [of emit s] split: if_splits)
      next
        case again: (Inr b)
        with 1(2) p q Inr have "tk_type ahead \<noteq> TK_End" b "parse_loop emit s2 = (Inl e, s')"
          by (simp_all add: parse_loop.simps [of emit s] split: if_splits)
        with 1(1) [OF p [symmetric] Inr _ q [symmetric] again] show ?thesis by blast
      qed
    qed
  qed
  then show ?thesis by (auto simp: throwing_def)
qed

lemma throwing_program: "throwing assembler_exception (parseProgram emit)"
  unfolding parseProgram_def by (intro throwing_parser throwing_loop)

text \<open>C28: Whatever the source text, the assembler returns a program or throws an \<^verbatim>\<open>AssemblerError\<close> or what
  \<^verbatim>\<open>std::stol\<close> and \<^verbatim>\<open>std::stoi\<close> throw for a number; never a plain \<^verbatim>\<open>VmException\<close>. Those standard exceptions are not
  \<^verbatim>\<open>AssemblerError\<close>s, so a caller that catches only these misses them: a lone minus sign does this.\<close>

theorem assembler_exceptions:
  "(case assemble source of Inl e \<Rightarrow> assembler_exception e | Inr p \<Rightarrow> True) \<and>
   assemble ''CODE: push -'' = Inl (StdInvalidArgument ''stol'')"
proof
  let ?m = "vseq firstPass (vseq (vmodify (\<lambda>s. s\<lparr>ps_lexer := lexer_reset (ps_lexer s), ps_section := Section_None,
      ps_codeAddress := 0\<rparr>)) secondPass)"
  have "throwing assembler_exception ?m"
    unfolding firstPass_def secondPass_def by (intro throwing_parser throwing_program)
  then show "case assemble source of Inl e \<Rightarrow> assembler_exception e | Inr p \<Rightarrow> True"
    by (auto simp: throwing_def assemble_def parse_program_def split: prod.split sum.split)
  show "assemble ''CODE: push -'' = Inl (StdInvalidArgument ''stol'')" by code_simp
qed

end
