(* ===== verification/Diagnostics.thy ===== *)
theory Diagnostics
  imports Virtual_OS Assembler
begin

text \<open>
  Sources on which the assembler does something else than the documents say or than its user would
  expect; each is evaluated.
\<close>

text \<open>A number is cut down to sixteen bits: 70000 becomes 4464.\<close>

lemma number_is_cut:
  assumes "number_ok v"
  shows "parseNumberToken (Token TK_Number (show_int v) line) = Inr (word_of_int v)"
  by (simp add: parseNumberToken_def Token_def show_int_stol [OF assms])

lemma large_number_is_cut: "parseNumberToken (Token TK_Number (show_int 70000) 1) = Inr 4464"
  by (subst number_is_cut) (simp_all add: number_ok_def)

text \<open>\<^verbatim>\<open>call yield\<close>, as \<^verbatim>\<open>docs/ISA.md\<close> writes it, lacks the operand that the parser wants.\<close>

lemma call_wants_operand:
  "assemble (source_lines [''CODE:'', ''call yield'', ''halt'']) =
     Inl (AssemblerError 2 (''unexpected token: '' @ [CHR 0x5C, CHR ''n'']))"
  "\<exists>p. assemble (source_lines [''CODE:'', ''call yield, 0'', ''halt'']) = Inr p"
proof -
  show "assemble (source_lines [''CODE:'', ''call yield'', ''halt'']) =
      Inl (AssemblerError 2 (''unexpected token: '' @ [CHR 0x5C, CHR ''n'']))"
    by code_simp
  have "assemble (source_lines [''CODE:'', ''call yield, 0'', ''halt'']) =
      Inr \<lparr>ap_code = [encodeInstruction OP_CALL 0 3 0 0, encodeInstruction OP_HALT 0 0 0 0], ap_data = []\<rparr>"
    by code_simp
  then show "\<exists>p. assemble (source_lines [''CODE:'', ''call yield, 0'', ''halt'']) = Inr p" by blast
qed

text \<open>A semicolon does not start a comment.\<close>

lemma semicolon_starts_no_comment: "assemble (source_lines [''CODE:'', ''mov r0, 5 ; five'']) =
    Inl (AssemblerError 2 ''unexpected character: ;'')"
  by code_simp

text \<open>The line of an unknown system call is not reported, although the token has one.\<close>

lemma unknown_call_has_no_line: "assemble (source_lines [''CODE:'', ''halt'', ''call jump, 0'']) =
    Inl (AssemblerError 0 ''unknown syscall: jump'')"
  by code_simp

text \<open>\<^verbatim>\<open>nop\<close> is a mnemonic of the table, but the parser reads two operands for it.\<close>

lemma nop_wants_operands:
  "assemble (source_lines [''CODE:'', ''nop'']) = Inl (AssemblerError 2 (''unexpected token: '' @ [CHR 0x5C, CHR ''n'']))"
  "assemble (source_lines [''CODE:'', ''nop r1, r2'']) = Inr \<lparr>ap_code = [encodeInstruction OP_NOP 1 1 2 0], ap_data = []\<rparr>"
  by code_simp+

text \<open>Of two labels with one name the second counts, without a message.\<close>

lemma second_label_counts: "assemble (source_lines [''CODE:'', ''a: halt'', ''a: jmp a'']) =
    Inr \<lparr>ap_code = [encodeInstruction OP_HALT 0 0 0 0, encodeInstruction OP_JMP 0 0 0 1], ap_data = []\<rparr>"
  by code_simp

text \<open>The largest code address that the immediate of a branch can hold is 2047: 2048 is read as a negative number.\<close>

lemma branch_reach:
  "ucast (d_imm (decodeInstruction (encodeInstruction OP_JMP 0 0 0 2047))) = (2047 :: Word)"
  "scast (d_imm (decodeInstruction (encodeInstruction OP_JMP 0 0 0 2048))) = (- 2048 :: Word)"
  by code_simp+

end
