(* ===== verification/Spec2Isabelle.thy ===== *)
theory Spec2Isabelle
  imports Client_Use Client_Stop Progress Run_Again Stepped_Process Assembler_Errors Diagnostics
begin

text \<open>
  A verification development for the virtual machine of this repository: an assembler for a small
  register machine, a processor that executes its words, processes with memory regions of their own,
  a preemptive scheduler and a number of cores that run the processes in threads.

  \<^bold>\<open>The program and its model.\<close> Paths are relative to the root of the repository; \<^verbatim>\<open>vm/X\<close> stands for
  \<^verbatim>\<open>include/vm/X.hpp\<close> and \<^verbatim>\<open>src/vm/X.cpp\<close>. Every member function of the classes below is a
  definition with the name of the function (or a readable variant of it); a class is a record of its
  members; a pointer to a control block is its position in the table; C++ integers are words of their
  width; an exception is the left value of a sum, and an operation that may throw and that changes its
  object is a computation \<open>('state, 'value) vm\<close> of the prelude, in which the state reached when the
  exception leaves is kept.

  \<^item> \<^theory_text>\<open>VM_Prelude\<close>: machine integers, exceptions, the monad, frame relations (the locale
    \<open>frame_relation\<close>, interpreted for every notion of what an operation leaves alone).
  \<^item> \<^theory_text>\<open>VM_Types\<close>: \<^verbatim>\<open>vm/types\<close>, \<^verbatim>\<open>vm/isa/encode\<close> - constants, opcodes, encoding and decoding.
  \<^item> \<^theory_text>\<open>Register_File\<close>: \<^verbatim>\<open>vm/cpu/register_file\<close>, \<^verbatim>\<open>vm/cpu/cpu_context\<close>.
  \<^item> \<^theory_text>\<open>Physical_Memory\<close>, \<^theory_text>\<open>Process_Memory\<close>: \<^verbatim>\<open>vm/memory\<close> - the byte array with its allocator, and the code,
    data and stack segments of a process. \<^verbatim>\<open>IMemory\<close> is the locale \<open>word_memory\<close>, the stack the locale
    \<open>word_stack\<close>.
  \<^item> \<^theory_text>\<open>Instructions\<close>: \<^verbatim>\<open>vm/isa\<close> - one definition per handler, and the registry.
  \<^item> \<^theory_text>\<open>Process_Table\<close>, \<^theory_text>\<open>Scheduler\<close>: \<^verbatim>\<open>vm/process\<close>, \<^verbatim>\<open>vm/os/preemptive_scheduler\<close>.
  \<^item> \<^theory_text>\<open>Opcode_Table\<close>, \<^theory_text>\<open>Lexer\<close>, \<^theory_text>\<open>Parser\<close>: \<^verbatim>\<open>vm/isa/opcode_table\<close>, \<^verbatim>\<open>vm/assembler\<close> - the two passes over the text.
  \<^item> \<^theory_text>\<open>Syscalls\<close>: \<^verbatim>\<open>vm/os/syscall_handler\<close>, \<^verbatim>\<open>vm/debug\<close> - a tracer is the pointer and the calls it
    receives -, and the record \<open>machine\<close> of the members of \<^verbatim>\<open>VirtualOS\<close>.
  \<^item> \<^theory_text>\<open>Cpu_Core\<close>: \<^verbatim>\<open>vm/cpu/virtual_cpu_core\<close> - one instruction of a process. \<^verbatim>\<open>ISyscallHandler\<close> is the locale
    \<open>syscall_interface\<close>.
  \<^item> \<^theory_text>\<open>Virtual_OS\<close>: \<^verbatim>\<open>vm/os/program_loader\<close>, \<^verbatim>\<open>vm/os/virtual_os\<close> - loading and stepping.
  \<^item> \<^theory_text>\<open>System\<close>: \<^verbatim>\<open>coreLoop\<close>, \<^verbatim>\<open>run\<close> and \<^verbatim>\<open>stop\<close> as the step relation \<open>system_step\<close> on the machine, the control
    states of the cores and the control state of the main thread.
  \<^item> \<^theory_text>\<open>Virtual_Machine\<close>: \<^verbatim>\<open>vm/virtual_machine\<close> - the class that a client uses, and \<open>client_call\<close>, what it can call;
    \<^theory_text>\<open>Client_Stop\<close>: the thread of a client that calls \<^verbatim>\<open>stop\<close> during \<^verbatim>\<open>run\<close>.
  \<^item> \<^theory_text>\<open>Main_Program\<close>: \<^verbatim>\<open>src/main.cpp\<close> - the command line, loading, and the outcome of the program.

  \<^bold>\<open>Specifications.\<close> Four theories hold no code but what the code is compared with: \<^theory_text>\<open>Scanner\<close> (the lexical
  syntax as a function on texts), \<^theory_text>\<open>Token_Stream\<close> and \<^theory_text>\<open>Assembler\<close> (the parser as a consumer of
  lexemes, with a weakest-precondition calculus), \<^theory_text>\<open>Reference_Assembler\<close> (words and data of a list of
  statements, without passes), and \<^theory_text>\<open>Assembly_Semantics\<close> (what a statement does to registers, a stack
  of words and data). They are composed in three steps:

  \<^item> assembling a source gives the words of the reference assembler (\<open>assemble_reference\<close>), and
    executing such a word does what its statement says (\<open>statement_simulated\<close>);
  \<^item> hence a loaded program, stepped by fetch, decode and execute, follows the semantics of its
    statements (\<^theory_text>\<open>Program_Execution\<close>);
  \<^item> hence the cores and the main thread, in any interleaving, follow an interleaving of the
    statements of all programs on one console (\<^theory_text>\<open>System_Execution\<close>): a simulation in which the steps
    of scheduling, preemption, waking and shutting down are matched by no step. It rests on the
    invariant of the system (mutual exclusion, in \<^theory_text>\<open>System\<close>), on the isolation of the processes
    (\<^theory_text>\<open>Cpu_Core\<close>), and on what the loop of a core does between two instructions (\<^theory_text>\<open>Core_Turn\<close>, which
    also shows that a turn of a core ends and that all steps keep the types of the machine). That
    the machine is never stuck before it shuts down is shown in \<^theory_text>\<open>Progress\<close>, that it
    cannot be run twice in \<^theory_text>\<open>Run_Again\<close>, and that it does not run what has been stepped in
    \<^theory_text>\<open>Stepped_Process\<close>.

  Two theories compare whole executions of the machine: \<^theory_text>\<open>Tracing\<close> shows that what it does depends on its
  visible state only (\<open>oblivious\<close>), so that tracers observe and do not interfere, and what they are told;
  \<^theory_text>\<open>Client_Use\<close> shows what every sequence of calls of a client keeps. There the locale \<open>client_frame\<close> lists
  the operations that a relation on machines has to respect, and it is interpreted for the types of the
  machine and for its tracer. In \<^theory_text>\<open>Client_Stop\<close> the invariant of a run that is interrupted by \<^verbatim>\<open>stop\<close> shows
  that \<^verbatim>\<open>run\<close> is not ended by it.

  The other lemma groups show, per component: the bounds checks and frames of every memory access and
  the refinement of the stack by a list; what each handler computes, errors included; first-in
  first-out dispatch and the exact ready queue of the scheduler; every exception that can leave the
  assembler (\<^theory_text>\<open>Assembler_Errors\<close>) and sources that it treats in a surprising way (\<^theory_text>\<open>Diagnostics\<close>); the round
  trips of encoding and of printing and assembling; the values that the options of the command line accept.

  \<^bold>\<open>Bounds.\<close> No definition uses fuel: the loops of the lexer, the parser and the loader are recursive with a
  termination proof, the loop of a core is a step relation, and \<open>core_turn\<close>, which may loop, is a
  partial function whose termination is a theorem. A program is small (\<open>program_small\<close>) if its
  immediates fit the twelve bits of the format: fewer than 2048 instructions and at most 2048 bytes of
  data, which also makes it fit its region of 65536 bytes with its stack of 1024 words. The
  physical memory has 1048576 bytes, so at most 16 processes exist and the 32-bit identifiers
  and addresses do not wrap around in reachable states.

  \<^bold>\<open>What threads may do.\<close> A step of \<open>system_step\<close> is what other threads cannot see in the middle: the body of an
  operation of the scheduler, which holds its mutex, or the execution of one instruction by the core
  that holds the process. The condition variable of the scheduler is modelled with its mutex, the
  predicate test and the sleep being separate steps. What a core does to the process it gives back in
  \<^verbatim>\<open>releaseProcess\<close>, the assignment of its state and the call of the scheduler, is one step. The main thread may wake whenever its
  predicate holds, and the statements of \<^verbatim>\<open>stop\<close> are separate steps.

  \<^bold>\<open>Not modelled.\<close> Data races inside one instruction: a \<^verbatim>\<open>load\<close> call uses the assembler, the process table and
  the allocator while other cores may do the same, and is one step here. Partial writes of the streams
  (a printed line is written as a whole). What a tracer of a client does when it is called, which is
  code outside the repository. Calls of a client from several threads at once, except \<^verbatim>\<open>stop\<close> during
  \<^verbatim>\<open>run\<close>; in that, the test and the assignment of \<^verbatim>\<open>running_\<close> are one step, although it is a plain
  \<^verbatim>\<open>bool\<close>. The contents of files, which are a parameter. Platforms on which \<^verbatim>\<open>unsigned long\<close>
  or \<^verbatim>\<open>std::size_t\<close> does not have 64 bits. The tests, the build and the examples.
\<close>

end
